(* ===== verification/Prelude.thy ===== *)
theory Prelude
  imports Main "HOL-Library.Word"
begin

text \<open>
  The part of Python that every component uses: exceptions as values, the sequencing of
  statements that may raise, and loops that stop at the first exception.

  A Python function that may raise is a HOL function into \<open>'a res\<close>: \<open>Inl e\<close> is the
  exception, \<open>Inr x\<close> the returned value.  \<open>bnd m f\<close> runs the statement \<open>m\<close> and hands
  its value to the rest of the body; \<open>mapM\<close> and \<open>foldM\<close> are the \<^theory_text>\<open>for\<close> loops that
  build a list and that thread a state.
\<close>

unbundle bit_operations_syntax

section \<open>Exceptions as values\<close>

datatype pyexn =
    ValueError | TypeError | OverflowError | StructError | IndexError
  | KeyError | AttributeError | UnicodeEncodeError | ZeroDivisionError

type_synonym 'a res = "pyexn + 'a"

fun bnd :: "'a res \<Rightarrow> ('a \<Rightarrow> 'b res) \<Rightarrow> 'b res" where
  "bnd (Inl e) f = Inl e"
| "bnd (Inr x) f = f x"

fun mapM :: "('a \<Rightarrow> 'b res) \<Rightarrow> 'a list \<Rightarrow> 'b list res" where
  "mapM f [] = Inr []"
| "mapM f (x # xs) = bnd (f x) (\<lambda>y. bnd (mapM f xs) (\<lambda>ys. Inr (y # ys)))"

fun foldM :: "('s \<Rightarrow> 'a \<Rightarrow> 's res) \<Rightarrow> 's \<Rightarrow> 'a list \<Rightarrow> 's res" where
  "foldM f s [] = Inr s"
| "foldM f s (x # xs) = bnd (f s x) (\<lambda>s'. foldM f s' xs)"

text \<open>\<open>concatM f xs\<close> is the loop \<open>out += f(x)\<close> over byte strings or lists.\<close>

definition concatM :: "('a \<Rightarrow> 'b list res) \<Rightarrow> 'a list \<Rightarrow> 'b list res" where
  "concatM f xs = bnd (mapM f xs) (\<lambda>yss. Inr (concat yss))"

fun is_ok :: "'a res \<Rightarrow> bool" where
  "is_ok (Inl _) = False"
| "is_ok (Inr _) = True"

named_theorems res_simps \<open>how the error results compose\<close>

lemma bnd_eq_Inr [res_simps]: "bnd m f = Inr y \<longleftrightarrow> (\<exists>x. m = Inr x \<and> f x = Inr y)"
  by (cases m) auto

lemma bnd_eq_Inl [res_simps]:
  "bnd m f = Inl e \<longleftrightarrow> m = Inl e \<or> (\<exists>x. m = Inr x \<and> f x = Inl e)"
  by (cases m) auto

lemma bnd_split: "P (bnd m f) \<longleftrightarrow> (\<forall>e. m = Inl e \<longrightarrow> P (Inl e)) \<and> (\<forall>x. m = Inr x \<longrightarrow> P (f x))"
  by (cases m) auto

lemma bnd_split_asm:
  "P (bnd m f) \<longleftrightarrow> \<not> ((\<exists>e. m = Inl e \<and> \<not> P (Inl e)) \<or> (\<exists>x. m = Inr x \<and> \<not> P (f x)))"
  by (cases m) auto

lemmas bnd_splits = bnd_split bnd_split_asm

lemma bnd_assoc: "bnd (bnd m f) g = bnd m (\<lambda>x. bnd (f x) g)"
  by (cases m) auto

lemma bnd_return [simp]: "bnd m Inr = m"
  by (cases m) auto

lemma is_ok_iff: "is_ok m \<longleftrightarrow> (\<exists>x. m = Inr x)"
  by (cases m) auto

lemma is_ok_bnd [res_simps]: "is_ok (bnd m f) \<longleftrightarrow> (\<exists>x. m = Inr x \<and> is_ok (f x))"
  by (cases m) auto

lemma bnd_cong [fundef_cong]:
  "m = m' \<Longrightarrow> (\<And>x. m' = Inr x \<Longrightarrow> f x = g x) \<Longrightarrow> bnd m f = bnd m' g"
  by (cases m') auto

text \<open>
  For evaluating a closed program with the simplifier: the continuation is left alone until
  its argument is known.
\<close>

lemma bnd_weak_cong: "m = m' \<Longrightarrow> bnd m f = bnd m' f"
  by simp

lemma mapM_cong [fundef_cong]:
  "xs = ys \<Longrightarrow> (\<And>x. x \<in> set ys \<Longrightarrow> f x = g x) \<Longrightarrow> mapM f xs = mapM g ys"
  by (induction ys arbitrary: xs) auto

lemma mapM_length: "mapM f xs = Inr ys \<Longrightarrow> length ys = length xs"
  by (induction xs arbitrary: ys) (auto simp: res_simps)

lemma mapM_Inr: "(\<And>x. x \<in> set xs \<Longrightarrow> f x = Inr (g x)) \<Longrightarrow> mapM f xs = Inr (map g xs)"
  by (induction xs) auto

lemma mapM_append:
  "mapM f (xs @ ys) = bnd (mapM f xs) (\<lambda>us. bnd (mapM f ys) (\<lambda>vs. Inr (us @ vs)))"
  by (induction xs) (auto simp: bnd_assoc)

lemma mapM_map: "mapM f (map g xs) = mapM (\<lambda>x. f (g x)) xs"
  by (induction xs) auto

lemma mapM_eq_Inr_iff:
  "mapM f xs = Inr ys \<longleftrightarrow> list_all2 (\<lambda>x y. f x = Inr y) xs ys"
proof (induction xs arbitrary: ys)
  case Nil
  then show ?case by auto
next
  case (Cons x xs)
  then show ?case by (cases ys) (auto simp: res_simps)
qed

lemma mapM_is_ok: "is_ok (mapM f xs) \<longleftrightarrow> (\<forall>x \<in> set xs. is_ok (f x))"
  by (induction xs) (auto simp: res_simps is_ok_iff)

lemma concatM_Nil [simp]: "concatM f [] = Inr []"
  by (simp add: concatM_def)

lemma concatM_Cons [simp]:
  "concatM f (x # xs) = bnd (f x) (\<lambda>y. bnd (concatM f xs) (\<lambda>ys. Inr (y @ ys)))"
  by (simp add: concatM_def bnd_assoc)

lemma concatM_Inr:
  "(\<And>x. x \<in> set xs \<Longrightarrow> f x = Inr (g x)) \<Longrightarrow> concatM f xs = Inr (concat (map g xs))"
  by (simp add: concatM_def mapM_Inr)

lemma foldM_append: "foldM f s (xs @ ys) = bnd (foldM f s xs) (\<lambda>s'. foldM f s' ys)"
  by (induction xs arbitrary: s) (auto simp: bnd_assoc)

text \<open>The rule for a loop with a loop invariant.\<close>

lemma foldM_invariant:
  assumes "foldM f s xs = Inr t" and "P s"
    and "\<And>s x s'. x \<in> set xs \<Longrightarrow> P s \<Longrightarrow> f s x = Inr s' \<Longrightarrow> P s'"
  shows "P t"
  using assms by (induction xs arbitrary: s) (auto simp: res_simps)


section \<open>Lists\<close>

text \<open>
  \<open>chunks n xs\<close> is the list of slices \<open>xs[i:i+n]\<close> for \<open>i\<close> in \<open>range(0, len(xs), n)\<close>.
\<close>

function chunks :: "nat \<Rightarrow> 'a list \<Rightarrow> 'a list list" where
  "chunks n xs = (if n = 0 \<or> xs = [] then [] else take n xs # chunks n (drop n xs))"
  by pat_completeness auto
termination
  by (relation "measure (\<lambda>(n, xs). length xs)") auto

declare chunks.simps [simp del]

lemma chunks_Nil [simp]: "chunks n [] = []"
  by (simp add: chunks.simps)

lemma concat_chunks: "0 < n \<Longrightarrow> concat (chunks n xs) = xs"
proof (induction n xs rule: chunks.induct)
  case (1 n xs)
  then show ?case
    by (cases "xs = []") (auto simp: chunks.simps [of n xs])
qed

lemma chunks_bounds: "c \<in> set (chunks n xs) \<Longrightarrow> c \<noteq> [] \<and> length c \<le> n"
proof (induction n xs rule: chunks.induct)
  case (1 n xs)
  then show ?case
    by (subst (asm) (2) chunks.simps) (auto split: if_splits)
qed

lemma chunks_concat:
  "0 < n \<Longrightarrow> \<forall>b \<in> set bs. length b = n \<Longrightarrow> chunks n (concat bs) = bs"
proof (induction bs)
  case (Cons b bs)
  then show ?case by (subst chunks.simps) auto
qed simp

lemma length_chunks: "0 < n \<Longrightarrow> length (chunks n xs) = (length xs + n - 1) div n"
proof (induction n xs rule: chunks.induct)
  case (1 n xs)
  show ?case
  proof (cases "xs = []")
    case True
    with 1 show ?thesis by simp
  next
    case False
    with 1 have IH: "length (chunks n (drop n xs)) = (length xs - n + n - 1) div n"
      by simp
    have "(length xs + n - 1) div n = Suc ((length xs - n + n - 1) div n)"
    proof (cases "n \<le> length xs")
      case True
      have "length xs + n - 1 = (length xs - 1) + n"
        using False by (cases xs) auto
      then have "(length xs + n - 1) div n = (length xs - 1 + n) div n"
        by (rule arg_cong)
      also have "\<dots> = Suc ((length xs - 1) div n)"
        using div_add_self2 [of n "length xs - 1"] 1(2) by simp
      finally show ?thesis using True by simp
    next
      case False
      with 1 \<open>xs \<noteq> []\<close> have "n \<le> length xs + n - 1" and "length xs + n - 1 < n + n"
        by (cases xs; simp)+
      then have "(length xs + n - 1) div n = 1"
        by (simp add: div_nat_eqI)
      with False 1 show ?thesis by simp
    qed
    with False 1 IH show ?thesis
      by (simp add: chunks.simps [of n xs])
  qed
qed

section \<open>Spans\<close>

text \<open>
  Fields of a frame as pairs of offset and length: how many of them cover a position, and whether they
  follow each other without a gap.
\<close>

definition cover :: "int \<Rightarrow> (int \<times> int) list \<Rightarrow> nat" where
  "cover i spans = length (filter (\<lambda>(n, k). n \<le> i \<and> i < n + k) spans)"

fun adjacent :: "int \<Rightarrow> (int \<times> int) list \<Rightarrow> int \<Rightarrow> bool" where
  "adjacent a [] b = (a = b)"
| "adjacent a ((n, k) # spans) b = (n = a \<and> 0 \<le> k \<and> adjacent (a + k) spans b)"

lemma adjacent_le: "adjacent a spans b \<Longrightarrow> a \<le> b"
  by (induction a spans b rule: adjacent.induct) auto

lemma cover_append [simp]: "cover i (xs @ ys) = cover i xs + cover i ys"
  by (simp add: cover_def)

lemma cover_adjacent: "adjacent a spans b \<Longrightarrow> cover i spans = (if a \<le> i \<and> i < b then 1 else 0)"
proof (induction a spans b rule: adjacent.induct)
  case (2 a n k spans b)
  then show ?case using adjacent_le [of "a + k" spans b] by (auto simp: cover_def)
qed (simp add: cover_def)

lemma adjacent_append:
  "adjacent a xs b \<Longrightarrow> adjacent b ys c \<Longrightarrow> adjacent a (xs @ ys) c"
  by (induction a xs b rule: adjacent.induct) auto

lemma adjacent_shift: "adjacent (a + d) (map (\<lambda>(n, k). (d + n, k)) spans) (b + d) = adjacent a spans b"
proof (induction a spans b rule: adjacent.induct)
  case (2 a n k spans b)
  have "a + d + k = a + k + d" by simp
  with 2 show ?case by (simp add: ac_simps)
qed simp

end
