(* ===== verification/PyBytes.thy ===== *)
theory PyBytes
  imports Prelude
begin

text \<open>
  Byte strings and the \<open>struct\<close> module of the Python standard library, as the packet
  builders use them: \<open>bytes([..])\<close>, which raises ValueError for a value outside
  \<open>0..255\<close>, and \<open>struct.pack(fmt, ..)\<close> for the integer codes \<open>B b H h I i Q q\<close> in
  little- and big-endian order, which raises \<open>struct.error\<close> for a value outside the
  code's range or a wrong number of arguments.  Python integers are \<open>int\<close>.

  The decoders \<open>le_val\<close> and \<open>be_val\<close> are \<open>int.from_bytes\<close>; \<open>struct.unpack\<close> of one
  unsigned field is one of them.
\<close>

section \<open>Integers as byte strings\<close>

type_synonym byte = "8 word"
type_synonym bytes = "8 word list"

primrec le_bytes :: "nat \<Rightarrow> int \<Rightarrow> bytes" where
  "le_bytes 0 v = []"
| "le_bytes (Suc n) v = word_of_int v # le_bytes n (v div 256)"

definition be_bytes :: "nat \<Rightarrow> int \<Rightarrow> bytes" where
  "be_bytes n v = rev (le_bytes n v)"

primrec le_val :: "bytes \<Rightarrow> int" where
  "le_val [] = 0"
| "le_val (b # bs) = uint b + 256 * le_val bs"

definition be_val :: "bytes \<Rightarrow> int" where
  "be_val bs = le_val (rev bs)"

named_theorems wire_simps \<open>lengths and values of encoded fields\<close>

lemma length_le_bytes [simp, wire_simps]: "length (le_bytes n v) = n"
  by (induction n arbitrary: v) auto

lemma length_be_bytes [simp, wire_simps]: "length (be_bytes n v) = n"
  by (simp add: be_bytes_def)

lemma uint_byte: "uint (word_of_int v :: byte) = v mod 256"
  by (simp add: unsigned_of_int take_bit_eq_mod)

lemma uint_byte_bounds [simp]: "0 \<le> uint (b :: byte)" "uint (b :: byte) < 256"
  using unsigned_less [of b] by simp_all

lemma mod_mult_step: "(0::int) < k \<Longrightarrow> v mod 256 + 256 * (v div 256 mod k) = v mod (256 * k)"
  by (simp add: zmod_zmult2_eq)

lemma le_val_le_bytes [simp, wire_simps]: "le_val (le_bytes n v) = v mod 256 ^ n"
  by (induction n arbitrary: v) (simp_all add: uint_byte mod_mult_step)

lemma be_val_be_bytes [simp, wire_simps]: "be_val (be_bytes n v) = v mod 256 ^ n"
  by (simp add: be_val_def be_bytes_def)

text \<open>A value put together from a high and a low part comes apart again.\<close>

lemma div_mod_split:
  assumes "(0::int) \<le> f" and "f < c"
  shows "(f + k * c) div c = k" and "(f + k * c) mod c = f"
  using assms by simp_all

lemma le_val_nonneg [simp]: "0 \<le> le_val bs"
  by (induction bs) auto

lemma le_val_less: "le_val bs < 256 ^ length bs"
proof (induction bs)
  case Nil
  then show ?case by simp
next
  case (Cons b bs)
  have "uint b < 256" by simp
  with Cons have "uint b + 256 * le_val bs < 256 * 256 ^ length bs" by linarith
  then show ?case by simp
qed

lemma be_val_nonneg [simp]: "0 \<le> be_val bs"
  by (simp add: be_val_def)

lemma be_val_less: "be_val bs < 256 ^ length bs"
  using le_val_less [of "rev bs"] by (simp add: be_val_def)

lemma byte_256 [simp]: "(256 :: byte) = 0"
  by simp

lemma div_uint_mult [simp]: "(uint (b :: byte) + 256 * k) div 256 = k"
proof -
  have "0 \<le> uint b" and "uint b < 256" by simp_all
  then show ?thesis by simp
qed

lemma le_bytes_le_val [simp]: "le_bytes (length bs) (le_val bs) = bs"
  by (induction bs) simp_all

lemma be_bytes_be_val [simp]: "be_bytes (length bs) (be_val bs) = bs"
  using le_bytes_le_val [of "rev bs"] by (simp add: be_bytes_def be_val_def)

lemma le_val_inject: "length bs = length cs \<Longrightarrow> le_val bs = le_val cs \<longleftrightarrow> bs = cs"
  using le_bytes_le_val by metis

lemma le_bytes_mod: "le_bytes n (v mod 256 ^ n) = le_bytes n v"
  using le_val_inject [of "le_bytes n (v mod 256 ^ n)" "le_bytes n v"] by simp

lemma le_bytes_eqI: "length bs = n \<Longrightarrow> le_val bs = v mod 256 ^ n \<Longrightarrow> le_bytes n v = bs"
  using le_val_inject [of "le_bytes n v" bs] by simp

lemma be_bytes_mod: "be_bytes n (v mod 256 ^ n) = be_bytes n v"
  by (simp add: be_bytes_def le_bytes_mod)

lemma be_val_append: "be_val (bs @ cs) = be_val bs * 256 ^ length cs + be_val cs"
proof -
  have "le_val (us @ vs) = le_val us + 256 ^ length us * le_val vs" for us vs
    by (induction us) (simp_all add: algebra_simps)
  then show ?thesis by (simp add: be_val_def)
qed

section \<open>bytes()\<close>

definition py_byte :: "int \<Rightarrow> byte res" where
  "py_byte v = (if 0 \<le> v \<and> v < 256 then Inr (word_of_int v) else Inl ValueError)"

definition py_bytes :: "int list \<Rightarrow> bytes res" where
  "py_bytes vs = mapM py_byte vs"

lemma py_bytes_simps [simp]:
  "py_bytes [] = Inr []"
  "py_bytes (v # vs) = bnd (py_byte v) (\<lambda>b. bnd (py_bytes vs) (\<lambda>bs. Inr (b # bs)))"
  by (simp_all add: py_bytes_def)

lemma py_byte_ok: "0 \<le> v \<Longrightarrow> v < 256 \<Longrightarrow> py_byte v = Inr (word_of_int v)"
  by (simp add: py_byte_def)

lemma py_byte_eq_Inr: "py_byte v = Inr b \<longleftrightarrow> 0 \<le> v \<and> v < 256 \<and> b = word_of_int v"
  by (auto simp: py_byte_def)

lemma py_byte_numeral [simp]:
  "py_byte (numeral k) = (if (numeral k :: int) < 256 then Inr (numeral k) else Inl ValueError)"
  "py_byte 0 = Inr 0" "py_byte 1 = Inr 1"
  by (simp_all add: py_byte_def)

lemma py_bytes_ok:
  "\<forall>v \<in> set vs. 0 \<le> v \<and> v < 256 \<Longrightarrow> py_bytes vs = Inr (map word_of_int vs)"
  by (induction vs) (auto simp: py_byte_ok)

lemma py_bytes_length: "py_bytes vs = Inr bs \<Longrightarrow> length bs = length vs"
  by (simp add: py_bytes_def mapM_length)

section \<open>struct.pack\<close>

text \<open>The size of a format code and whether it is signed; other codes are not used.\<close>

definition pack_code :: "char \<Rightarrow> (nat \<times> bool) option" where
  "pack_code c =
     (if c = CHR ''B'' then Some (1, False) else if c = CHR ''b'' then Some (1, True)
      else if c = CHR ''H'' then Some (2, False) else if c = CHR ''h'' then Some (2, True)
      else if c = CHR ''I'' then Some (4, False) else if c = CHR ''i'' then Some (4, True)
      else if c = CHR ''Q'' then Some (8, False) else if c = CHR ''q'' then Some (8, True)
      else None)"

definition in_range :: "nat \<Rightarrow> bool \<Rightarrow> int \<Rightarrow> bool" where
  "in_range n sg v =
     (if sg then - (2 ^ (8 * n - 1)) \<le> v \<and> v < 2 ^ (8 * n - 1) else 0 \<le> v \<and> v < 256 ^ n)"

definition pack_int :: "bool \<Rightarrow> char \<Rightarrow> int \<Rightarrow> bytes res" where
  "pack_int big c v =
     (case pack_code c of
        None \<Rightarrow> Inl StructError
      | Some (n, sg) \<Rightarrow>
          if in_range n sg v then Inr (if big then be_bytes n v else le_bytes n v)
          else Inl StructError)"

fun pack_fields :: "bool \<Rightarrow> string \<Rightarrow> int list \<Rightarrow> bytes res" where
  "pack_fields big [] [] = Inr []"
| "pack_fields big (c # cs) (v # vs) =
     bnd (pack_int big c v) (\<lambda>b. bnd (pack_fields big cs vs) (\<lambda>bs. Inr (b @ bs)))"
| "pack_fields big _ _ = Inl StructError"

text \<open>The first character of the format is the byte order (\<open>>\<close> and \<open>!\<close> are big-endian).\<close>

fun struct_pack :: "string \<Rightarrow> int list \<Rightarrow> bytes res" where
  "struct_pack [] vs = Inl StructError"
| "struct_pack (c # cs) vs =
     (if c = CHR ''>'' \<or> c = CHR ''!'' then pack_fields True cs vs
      else if c = CHR ''<'' then pack_fields False cs vs
      else Inl StructError)"

lemma pack_B [simp]: "pack_int big CHR ''B'' v =
    (if 0 \<le> v \<and> v < 256 then Inr [word_of_int v] else Inl StructError)"
  by (auto simp: pack_int_def pack_code_def in_range_def be_bytes_def numeral_2_eq_2)

lemma pack_H [simp]: "pack_int big CHR ''H'' v =
    (if 0 \<le> v \<and> v < 65536 then Inr (if big then be_bytes 2 v else le_bytes 2 v)
     else Inl StructError)"
  by (simp add: pack_int_def pack_code_def in_range_def)

lemma pack_I [simp]: "pack_int big CHR ''I'' v =
    (if 0 \<le> v \<and> v < 4294967296 then Inr (if big then be_bytes 4 v else le_bytes 4 v)
     else Inl StructError)"
  by (simp add: pack_int_def pack_code_def in_range_def)

lemma pack_h [simp]: "pack_int big CHR ''h'' v =
    (if -32768 \<le> v \<and> v < 32768 then Inr (if big then be_bytes 2 v else le_bytes 2 v)
     else Inl StructError)"
  by (simp add: pack_int_def pack_code_def in_range_def)

lemma pack_i [simp]: "pack_int big CHR ''i'' v =
    (if -2147483648 \<le> v \<and> v < 2147483648 then Inr (if big then be_bytes 4 v else le_bytes 4 v)
     else Inl StructError)"
  by (simp add: pack_int_def pack_code_def in_range_def)

text \<open>\<open>v & mask\<close> with \<open>mask = 2 ^ n - 1\<close> on Python integers is a remainder.\<close>

lemma and_mask_gen: "v AND (2 ^ n - 1) = v mod (2 ^ n :: int)"
  by (simp flip: take_bit_eq_mod mask_eq_exp_minus_1 take_bit_eq_mask)

lemma and_mask_4: "v AND 15 = v mod (16 :: int)"
  using and_mask_gen [of v 4] by simp

lemma and_mask_6: "v AND 63 = v mod (64 :: int)"
  using and_mask_gen [of v 6] by simp

lemma and_mask_7: "v AND 127 = v mod (128 :: int)"
  using and_mask_gen [of v 7] by simp

lemma and_mask_8: "v AND 255 = v mod (256 :: int)"
  using and_mask_gen [of v 8] by simp

lemma and_mask_12: "v AND 4095 = v mod (4096 :: int)"
  using and_mask_gen [of v 12] by simp

lemma and_mask_15: "v AND 32767 = v mod (32768 :: int)"
  using and_mask_gen [of v 15] by simp

lemma and_mask_16: "v AND 65535 = v mod (65536 :: int)"
  using and_mask_gen [of v 16] by simp

lemma and_mask_24: "v AND 16777215 = v mod (16777216 :: int)"
  using and_mask_gen [of v 24] by simp

lemma and_mask_32: "v AND 4294967295 = v mod (4294967296 :: int)"
  using and_mask_gen [of v 32] by simp

lemmas and_mask_mod =
  and_mask_4 and_mask_6 and_mask_7 and_mask_8 and_mask_12 and_mask_15 and_mask_16 and_mask_24 and_mask_32

text \<open>Flags in bits that are clear are added.\<close>

lemma or_disjoint:
  assumes "(0 :: int) \<le> a" and "a < 2 ^ k" and "c mod 2 ^ k = 0"
  shows "a OR c = a + c"
proof -
  have "\<not> bit a n \<or> \<not> bit c n" for n
  proof (cases "n < k")
    case True
    have "take_bit k c = 0" using assms(3) by (simp add: take_bit_eq_mod)
    then have "\<not> bit (take_bit k c) n" by simp
    with True show ?thesis by (simp add: bit_take_bit_iff)
  next
    case False
    have "take_bit k a = a" using assms by (simp add: take_bit_int_eq_self)
    then have "bit a n = bit (take_bit k a) n" by simp
    with False show ?thesis by (simp add: bit_take_bit_iff)
  qed
  then show ?thesis by (intro disjunctive_add_eq_or [symmetric]) (auto simp: bit_eq_iff bit_and_iff)
qed

text \<open>Signed fields: the value read back as two's complement.\<close>

definition sign_val :: "nat \<Rightarrow> int \<Rightarrow> int" where
  "sign_val n u = (if u < 2 ^ (8 * n - 1) then u else u - 256 ^ n)"

lemma sign_val_mod:
  assumes "0 < n" and "- (2 ^ (8 * n - 1)) \<le> v" and "v < 2 ^ (8 * n - 1)"
  shows "sign_val n (v mod 256 ^ n) = v"
proof -
  have p: "(256 :: int) ^ n = 2 * 2 ^ (8 * n - 1)"
    using \<open>0 < n\<close> by (cases n) (simp_all add: power_mult power_add)
  let ?h = "(2 :: int) ^ (8 * n - 1)"
  have "v mod (2 * ?h) = (if 0 \<le> v then v else v + 2 * ?h)"
  proof (cases "0 \<le> v")
    case True
    with assms(3) show ?thesis by simp
  next
    case False
    then have "v mod (2 * ?h) = (v + 2 * ?h) mod (2 * ?h)" by simp
    also have "\<dots> = v + 2 * ?h"
      using False assms(2) by (intro mod_pos_pos_trivial) auto
    finally show ?thesis using False by simp
  qed
  then show ?thesis
    using assms p by (auto simp: sign_val_def)
qed

section \<open>Slices and patches\<close>

text \<open>
  \<open>xs[i:j] = ys\<close> on a list, for \<open>0 \<le> i \<le> j\<close>: the slice is replaced, and the list
  changes its length when \<open>ys\<close> has another one.
\<close>

definition set_slice :: "nat \<Rightarrow> nat \<Rightarrow> 'a list \<Rightarrow> 'a list \<Rightarrow> 'a list" where
  "set_slice i j ys xs = take i xs @ ys @ drop j xs"

lemma length_set_slice [simp]:
  "i \<le> j \<Longrightarrow> j \<le> length xs \<Longrightarrow> length ys = j - i \<Longrightarrow> length (set_slice i j ys xs) = length xs"
  by (simp add: set_slice_def)

text \<open>\<open>xs[i:j]\<close> for non-negative bounds.\<close>

definition slice :: "nat \<Rightarrow> nat \<Rightarrow> 'a list \<Rightarrow> 'a list" where
  "slice i j xs = take (j - i) (drop i xs)"

lemma length_slice [simp]: "length (slice i j xs) = min (j - i) (length xs - i)"
  by (simp add: slice_def min.commute)

end
