(* ===== verification/PyFloat.thy ===== *)
theory PyFloat
  imports PyBytes
begin

text \<open>
  Python floats: IEEE 754 binary64 values with round-half-to-even, as the interpreter and
  the \<open>struct\<close> module compute with them.  A finite float is a sign, a mantissa and a
  power of two; \<open>round_bin\<close> rounds a non-negative rational to the nearest float of a given
  precision.  NaN is one value: the sign and payload of a NaN are not modelled.

  \<open>float_of_int\<close> is \<open>float(n)\<close>, \<open>int_of_float\<close> is \<open>int(x)\<close>, and \<open>pack_f\<close> is
  \<open>struct.pack("f", x)\<close>, which rounds to binary32 and raises OverflowError when the
  rounded value is out of range.
\<close>

datatype pyfloat = FNan | FInf bool | Fin bool nat int

section \<open>Rounding\<close>

fun blen :: "nat \<Rightarrow> nat" where
  "blen n = (if n = 0 then 0 else Suc (blen (n div 2)))"

declare blen.simps [simp del]

text \<open>Nearest integer to \<open>num / den\<close>, ties to even.\<close>

definition rne :: "nat \<Rightarrow> nat \<Rightarrow> nat" where
  "rne num den =
     (let q = num div den; r = num mod den
      in if 2 * r < den then q
         else if den < 2 * r then q + 1
         else if even q then q else q + 1)"

definition scaled_num :: "nat \<Rightarrow> int \<Rightarrow> nat" where
  "scaled_num num e = (if e < 0 then num * 2 ^ nat (- e) else num)"

definition scaled_den :: "nat \<Rightarrow> int \<Rightarrow> nat" where
  "scaled_den den e = (if e < 0 then den else den * 2 ^ nat e)"

text \<open>The exponent \<open>l\<close> with \<open>2^l \<le> num/den < 2^(l+1)\<close>.\<close>

definition ilog2 :: "nat \<Rightarrow> nat \<Rightarrow> int" where
  "ilog2 num den =
     (let l = int (blen num) - int (blen den)
      in if scaled_den den l \<le> scaled_num num l then l else l - 1)"

definition round_bin :: "nat \<Rightarrow> int \<Rightarrow> int \<Rightarrow> bool \<Rightarrow> nat \<Rightarrow> nat \<Rightarrow> pyfloat" where
  "round_bin p emin emax s num den =
     (if num = 0 then Fin s 0 emin
      else let e = max (ilog2 num den - int p + 1) emin;
               m = rne (scaled_num num e) (scaled_den den e);
               m' = (if m = 2 ^ p then 2 ^ (p - 1) else m);
               e' = (if m = 2 ^ p then e + 1 else e)
           in if emax < e' then FInf s else Fin s m' e')"

definition f64_of_ratio :: "bool \<Rightarrow> nat \<Rightarrow> nat \<Rightarrow> pyfloat" where
  "f64_of_ratio s num den = round_bin 53 (- 1074) 971 s num den"

section \<open>Conversions\<close>

definition float_of_int :: "int \<Rightarrow> pyfloat res" where
  "float_of_int n =
     (case f64_of_ratio (n < 0) (nat \<bar>n\<bar>) 1 of
        FInf _ \<Rightarrow> Inl OverflowError
      | x \<Rightarrow> Inr x)"

fun int_of_float :: "pyfloat \<Rightarrow> int res" where
  "int_of_float FNan = Inl ValueError"
| "int_of_float (FInf _) = Inl OverflowError"
| "int_of_float (Fin s m e) =
     (let k = int (if e < 0 then m div 2 ^ nat (- e) else m * 2 ^ nat e)
      in Inr (if s then - k else k))"

fun float_truthy :: "pyfloat \<Rightarrow> bool" where
  "float_truthy FNan = True"
| "float_truthy (FInf _) = True"
| "float_truthy (Fin _ m _) = (m \<noteq> 0)"

text \<open>Bits of the binary32 value: sign, biased exponent, fraction.\<close>

fun f32_bits :: "pyfloat \<Rightarrow> int" where
  "f32_bits FNan = 2143289344"
| "f32_bits (FInf s) = (if s then 2147483648 else 0) + 2139095040"
| "f32_bits (Fin s m e) =
     (if s then 2147483648 else 0)
     + (if m < 8388608 then int m else (e + 150) * 8388608 + (int m - 8388608))"

fun round_f32 :: "pyfloat \<Rightarrow> pyfloat" where
  "round_f32 (Fin s m e) =
     (if e < 0 then round_bin 24 (- 149) 104 s m (2 ^ nat (- e))
      else round_bin 24 (- 149) 104 s (m * 2 ^ nat e) 1)"
| "round_f32 x = x"

definition pack_f :: "bool \<Rightarrow> pyfloat \<Rightarrow> bytes res" where
  "pack_f big x =
     (let enc = (\<lambda>v. Inr (if big then be_bytes 4 v else le_bytes 4 v))
      in case x of
           Fin s m e \<Rightarrow>
             (case round_f32 x of FInf _ \<Rightarrow> Inl OverflowError | y \<Rightarrow> enc (f32_bits y))
         | _ \<Rightarrow> enc (f32_bits x))"

text \<open>The binary32 value of four bytes, as \<open>struct.unpack("f", ..)\<close> reads it.\<close>

definition f32_of_bits :: "int \<Rightarrow> pyfloat" where
  "f32_of_bits v =
     (let s = (2147483648 \<le> v); r = v mod 2147483648; x = r div 8388608; f = r mod 8388608
      in if x = 255 then (if f = 0 then FInf s else FNan)
         else if x = 0 then Fin s (nat f) (- 149)
         else Fin s (nat (f + 8388608)) (x - 150))"

text \<open>The finite binary32 values in canonical form.\<close>

fun is_f32 :: "pyfloat \<Rightarrow> bool" where
  "is_f32 (Fin s m e) =
     (m < 16777216 \<and> - 149 \<le> e \<and> e \<le> 104 \<and> (8388608 \<le> m \<or> e = - 149))"
| "is_f32 _ = False"

lemma pack_f_length: "pack_f big x = Inr bs \<Longrightarrow> length bs = 4"
  by (auto simp: pack_f_def Let_def split: pyfloat.splits if_splits)

text \<open>Encoding a canonical binary32 value and reading it back is the identity.\<close>

lemma pack_f_little:
  "pack_f False x = Inr bs \<Longrightarrow> bs = le_bytes 4 (f32_bits (round_f32 x))"
  by (cases x) (auto simp: pack_f_def Let_def simp del: round_f32.simps f32_bits.simps split: pyfloat.splits,
      simp_all)

lemma f32_bits_range: "is_f32 x \<Longrightarrow> 0 \<le> f32_bits x \<and> f32_bits x < 4294967296"
  by (cases x) auto

lemma f32_of_bits_f32_bits: "is_f32 x \<Longrightarrow> f32_of_bits (f32_bits x) = x"
proof (cases x)
  case (Fin s m e)
  assume ok: "is_f32 x"
  define r where "r = (if m < 8388608 then int m else (e + 150) * 8388608 + (int m - 8388608))"
  have r: "0 \<le> r" "r < 2139095040"
    using ok Fin by (auto simp: r_def)
  have v: "f32_bits x = (if s then 2147483648 else 0) + r"
    by (simp add: Fin r_def)
  have s: "(2147483648 \<le> f32_bits x) = s"
    using r by (simp add: v)
  have "(2147483648 + r) mod 2147483648 = r" "r mod 2147483648 = r"
    using r by simp_all
  then have m: "f32_bits x mod 2147483648 = r"
    by (simp add: v)
  show ?thesis
  proof (cases "m < 8388608")
    case True
    then have "e = - 149" using ok Fin by auto
    with True show ?thesis
      using m s by (simp add: f32_of_bits_def Let_def Fin r_def)
  next
    case False
    define f where "f = int m - 8388608"
    have f: "0 \<le> f" "f < 8388608" using ok Fin False by (auto simp: f_def)
    have "r = f + (e + 150) * 8388608" using False by (simp add: r_def f_def)
    then have d: "r div 8388608 = e + 150" "r mod 8388608 = f"
      using div_mod_split [OF f, of "e + 150"] by simp_all
    have "1 \<le> e + 150" "e + 150 < 255" using ok Fin by auto
    moreover have "nat (f + 8388608) = m" using False by (simp add: f_def)
    ultimately show ?thesis
      using d m s f by (simp add: f32_of_bits_def Let_def Fin)
  qed
qed auto

section \<open>Rounding is exact on representable values\<close>

text \<open>
  \<open>blen\<close> is the bit length, \<open>ilog2\<close> the exponent of the leading bit; hence a value that
  binary32 can hold is not changed by the rounding, however its double is written.
\<close>

lemma blen_bounds: "0 < n \<Longrightarrow> 0 < blen n \<and> 2 ^ (blen n - 1) \<le> n \<and> n < 2 ^ blen n"
proof (induction n rule: blen.induct)
  case (1 n)
  show ?case
  proof (cases "n = 1")
    case True
    then show ?thesis by (simp add: blen.simps)
  next
    case False
    with 1 have IH: "0 < blen (n div 2)" "2 ^ (blen (n div 2) - 1) \<le> n div 2" "n div 2 < 2 ^ blen (n div 2)"
      by auto
    then obtain k where k: "blen (n div 2) = Suc k" by (cases "blen (n div 2)") auto
    with IH have "2 ^ Suc k \<le> n" "n < 2 ^ Suc (Suc k)" by auto
    with 1 k show ?thesis by (simp add: blen.simps [of n])
  qed
qed

lemma pow_interval_unique:
  fixes n :: nat
  assumes "2 ^ i \<le> n" "n < 2 ^ Suc i" "2 ^ j \<le> n" "n < 2 ^ Suc j"
  shows "i = j"
proof -
  have "(2::nat) ^ i < 2 ^ Suc j" using assms by linarith
  then have "i < Suc j" by (rule power_less_imp_less_exp [rotated]) simp
  moreover have "(2::nat) ^ j < 2 ^ Suc i" using assms by linarith
  then have "j < Suc i" by (rule power_less_imp_less_exp [rotated]) simp
  ultimately show ?thesis by simp
qed

lemma blen_unique:
  assumes "2 ^ k \<le> n" and "n < 2 ^ Suc k" shows "blen n = Suc k"
proof -
  have "0 < n" using assms(1) by (metis not_gr_zero not_le zero_less_numeral zero_less_power)
  then have b: "0 < blen n" "2 ^ (blen n - 1) \<le> n" "n < 2 ^ blen n"
    using blen_bounds by auto
  then have "blen n - 1 = k"
    using assms by (intro pow_interval_unique [of _ n]) auto
  with b show ?thesis by simp
qed

lemma ilog2_pow:
  assumes "2 ^ k \<le> m" and "m < 2 ^ Suc k"
  shows "ilog2 (m * 2 ^ a) (2 ^ b) = int k + int a - int b"
proof -
  have m: "blen (m * 2 ^ a) = Suc (k + a)"
    using assms by (intro blen_unique) (auto simp: power_add mult.commute)
  have d: "blen (2 ^ b) = Suc b"
    by (intro blen_unique) auto
  have "scaled_den (2 ^ b) (int k + int a - int b) \<le> scaled_num (m * 2 ^ a) (int k + int a - int b)"
  proof (cases "b \<le> k + a")
    case True
    then have "nat (int k + int a - int b) = k + a - b" by simp
    then have "scaled_den (2 ^ b) (int k + int a - int b) = 2 ^ (k + a)"
      using True by (simp add: scaled_den_def flip: power_add)
    moreover have "2 ^ (k + a) \<le> m * 2 ^ a" using assms(1) by (simp add: power_add)
    ultimately show ?thesis using True by (simp add: scaled_num_def)
  next
    case False
    then have "nat (- (int k + int a - int b)) = b - (k + a)" by simp
    then have "scaled_num (m * 2 ^ a) (int k + int a - int b) = m * 2 ^ (b - k)"
      using False by (simp add: scaled_num_def mult.assoc flip: power_add)
    moreover have "2 ^ b \<le> m * 2 ^ (b - k)"
    proof -
      have "2 ^ b = 2 ^ k * (2::nat) ^ (b - k)" using False by (simp flip: power_add)
      also have "\<dots> \<le> m * 2 ^ (b - k)" using assms(1) by simp
      finally show ?thesis .
    qed
    ultimately show ?thesis using False by (simp add: scaled_den_def)
  qed
  then show ?thesis by (simp add: ilog2_def m d Let_def)
qed

lemma rne_exact: "0 < d \<Longrightarrow> rne (m * d) d = m"
  by (simp add: rne_def Let_def)

lemma rne_one: "rne m (Suc 0) = m"
  using rne_exact [of 1 m] by simp

lemma scaled_exact:
  assumes "e = int a - int b"
  shows "rne (scaled_num (m * 2 ^ a) e) (scaled_den (2 ^ b) e) = m"
proof (cases "e < 0")
  case True
  then have "a + nat (- e) = b" using assms by simp
  then have "scaled_num (m * 2 ^ a) e = m * 2 ^ b"
    using True by (simp add: scaled_num_def mult.assoc flip: power_add)
  with True show ?thesis by (simp add: scaled_den_def rne_exact)
next
  case False
  then have "b + nat e = a" using assms by simp
  then have "scaled_den (2 ^ b) e = 2 ^ a"
    using False by (simp add: scaled_den_def flip: power_add)
  with False show ?thesis by (simp add: scaled_num_def rne_exact)
qed

lemma round_bin_exact:
  assumes f: "is_f32 (Fin s m e)" and e: "e = int a - int b"
  shows "round_bin 24 (- 149) 104 s (m * 2 ^ a) (2 ^ b) = (if m = 0 then Fin s 0 (- 149) else Fin s m e)"
proof (cases "m = 0")
  case True
  then show ?thesis by (simp add: round_bin_def)
next
  case False
  then obtain k where k: "2 ^ k \<le> m" "m < 2 ^ Suc k"
    using blen_bounds [of m] by (cases "blen m") auto
  have "k < 24"
  proof (rule ccontr)
    assume "\<not> k < 24"
    then have "(2::nat) ^ 24 \<le> 2 ^ k" by (intro power_increasing) auto
    with k f show False by simp
  qed
  moreover have "e = - 149 \<or> k = 23"
  proof -
    have "23 \<le> k" if "8388608 \<le> m"
    proof (rule ccontr)
      assume "\<not> 23 \<le> k"
      then have "(2::nat) ^ Suc k \<le> 2 ^ 23" by (intro power_increasing) auto
      with k that show False by simp
    qed
    with \<open>k < 24\<close> f show ?thesis by auto
  qed
  ultimately have mx: "max (ilog2 (m * 2 ^ a) (2 ^ b) - int 24 + 1) (- 149) = e"
    using f e by (auto simp: ilog2_pow [OF k])
  show ?thesis
    using False f by (simp only: round_bin_def mx Let_def scaled_exact [OF e]) auto
qed

lemma round_f32_exact:
  assumes "is_f32 (Fin s m e)" and "m \<noteq> 0"
  shows "round_f32 (Fin s (m * 2 ^ k) (e - int k)) = Fin s m e"
proof (cases "e - int k < 0")
  case True
  have "e = int k - int (nat (- (e - int k)))" using True by simp
  from round_bin_exact [OF assms(1) this] True assms(2) show ?thesis by simp
next
  case False
  have "e = int (k + nat (e - int k)) - int 0" using False by simp
  from round_bin_exact [OF assms(1) this] False assms(2) show ?thesis
    by (simp add: power_add mult.assoc)
qed

lemma pack_f_exact:
  assumes "is_f32 (Fin s m e)" and "m \<noteq> 0"
  shows "pack_f big (Fin s (m * 2 ^ k) (e - int k)) =
     Inr (if big then be_bytes 4 (f32_bits (Fin s m e)) else le_bytes 4 (f32_bits (Fin s m e)))"
  by (simp add: pack_f_def round_f32_exact [OF assms] del: round_f32.simps f32_bits.simps)

text \<open>In particular, a canonical binary32 value, zeros included, is packed as its own bits.\<close>

lemma round_f32_id:
  assumes "is_f32 (Fin s m e)" and "m \<noteq> 0"
  shows "round_f32 (Fin s m e) = Fin s m e"
  using round_f32_exact [OF assms, of 0] by simp

lemma pack_f_f32:
  assumes "is_f32 v"
  shows "pack_f big v = Inr (if big then be_bytes 4 (f32_bits v) else le_bytes 4 (f32_bits v))"
proof (cases v)
  case (Fin s m e)
  show ?thesis
  proof (cases "m = 0")
    case True
    with assms Fin show ?thesis by (simp add: pack_f_def round_bin_def)
  next
    case False
    with assms pack_f_exact [of s m e big 0] show ?thesis by (simp add: Fin del: f32_bits.simps)
  qed
qed (use assms in simp_all)

text \<open>\<open>int(float(n))\<close> is \<open>n\<close> for every integer that a double holds exactly.\<close>

lemma int_of_float_of_int:
  assumes "\<bar>n\<bar> < 9007199254740992"
  shows "bnd (float_of_int n) int_of_float = Inr n"
proof (cases "n = 0")
  case True
  then show ?thesis by (simp add: float_of_int_def f64_of_ratio_def round_bin_def)
next
  case False
  define m where "m = nat \<bar>n\<bar>"
  have m: "0 < m" "m < 2 ^ 53" using False assms by (auto simp: m_def)
  then obtain k where k: "2 ^ k \<le> m" "m < 2 ^ Suc k"
    using blen_bounds [of m] by (cases "blen m") auto
  have "(2::nat) ^ k < 2 ^ 53" using k(1) m(2) by linarith
  then have "k < 53" by (rule power_less_imp_less_exp [rotated]) simp
  have il: "ilog2 m 1 = int k" using ilog2_pow [OF k, of 0 0] by simp
  have mx: "max (ilog2 m 1 - int 53 + 1) (- 1074) = int k - 52"
    unfolding il using \<open>k < 53\<close> by simp
  have sc: "rne (scaled_num m (int k - 52)) (scaled_den 1 (int k - 52)) = m * 2 ^ (52 - k)"
  proof (cases "k = 52")
    case False
    with \<open>k < 53\<close> have "nat (52 - int k) = 52 - k" by simp
    with False \<open>k < 53\<close> show ?thesis by (simp add: scaled_num_def scaled_den_def rne_one)
  qed (simp add: scaled_num_def scaled_den_def rne_one)
  have "m * 2 ^ (52 - k) < 2 ^ Suc k * 2 ^ (52 - k)"
    using k(2) by simp
  also have "\<dots> = 2 ^ (Suc k + (52 - k))" by (simp only: power_add)
  also have "Suc k + (52 - k) = 53" using \<open>k < 53\<close> by simp
  finally have ne: "m * 2 ^ (52 - k) \<noteq> 2 ^ 53" by simp
  have "round_bin 53 (- 1074) 971 (n < 0) m 1 = Fin (n < 0) (m * 2 ^ (52 - k)) (int k - 52)"
    using m \<open>k < 53\<close> ne by (simp only: round_bin_def mx Let_def sc) auto
  then have "float_of_int n = Inr (Fin (n < 0) (m * 2 ^ (52 - k)) (int k - 52))"
    by (simp add: float_of_int_def f64_of_ratio_def m_def)
  moreover have "nat (52 - int k) = 52 - k" by simp
  ultimately show ?thesis
    using \<open>k < 53\<close> False by (cases "k = 52") (auto simp: m_def Let_def)
qed

section \<open>Comparing floats\<close>

text \<open>IEEE comparison: every comparison with NaN is false.\<close>

fun scaled_int :: "bool \<Rightarrow> nat \<Rightarrow> int \<Rightarrow> int \<Rightarrow> int" where
  "scaled_int s m e k = (if s then - 1 else 1) * int m * 2 ^ nat (e - k)"

fun float_lt :: "pyfloat \<Rightarrow> pyfloat \<Rightarrow> bool" where
  "float_lt FNan y = False"
| "float_lt x FNan = False"
| "float_lt (FInf s) (FInf s') = (s \<and> \<not> s')"
| "float_lt (FInf s) (Fin s' m' e') = s"
| "float_lt (Fin s m e) (FInf s') = (\<not> s')"
| "float_lt (Fin s m e) (Fin s' m' e') =
     (let k = min e e' in scaled_int s m e k < scaled_int s' m' e' k)"

instantiation pyfloat :: ord
begin

definition less_pyfloat :: "pyfloat \<Rightarrow> pyfloat \<Rightarrow> bool" where
  "less_pyfloat x y = float_lt x y"

definition less_eq_pyfloat :: "pyfloat \<Rightarrow> pyfloat \<Rightarrow> bool" where
  "less_eq_pyfloat x y = (x \<noteq> FNan \<and> y \<noteq> FNan \<and> \<not> float_lt y x)"

instance ..

end

end
