(* ===== verification/PyValue.thy ===== *)
theory PyValue
  imports PyFloat "HOL-Library.AList"
begin

text \<open>
  The values of a scenario definition: what \<open>json.loads\<close> returns and the services pass
  around as \<open>dict[str, Any]\<close>.  A dict is its list of items in insertion order (the keys
  of a well-formed dict are distinct); a string is the list of its UTF-8 bytes, so
  \<open>s.encode()\<close> is the identity and \<open>sorted\<close> on strings is the lexicographic order.

  Modelled here: truth value testing, \<open>==\<close>, \<open>in\<close>, \<open>dict.get\<close>, \<open>int(x)\<close> and
  \<open>float(x)\<close>, each with the exceptions it raises.  For \<open>int\<close> and \<open>float\<close> of a string only
  ASCII digits and white space are recognised; a string with other characters is a
  ValueError in the model.
\<close>

datatype pyval =
    PNone
  | PBool bool
  | PInt int
  | PFloat pyfloat
  | PStr string
  | PList "pyval list"
  | PDict "(string \<times> pyval) list"

type_synonym pydict = "(string \<times> pyval) list"

section \<open>Truth, equality, membership\<close>

fun truthy :: "pyval \<Rightarrow> bool" where
  "truthy PNone = False"
| "truthy (PBool b) = b"
| "truthy (PInt i) = (i \<noteq> 0)"
| "truthy (PFloat x) = float_truthy x"
| "truthy (PStr s) = (s \<noteq> [])"
| "truthy (PList xs) = (xs \<noteq> [])"
| "truthy (PDict d) = (d \<noteq> [])"

text \<open>\<open>a or b\<close> for values that are already computed.\<close>

definition py_or :: "pyval \<Rightarrow> pyval \<Rightarrow> pyval" where
  "py_or a b = (if truthy a then a else b)"

text \<open>A number as mantissa and power of two, so that \<open>1 == True == 1.0\<close>.\<close>

fun num_rep :: "pyval \<Rightarrow> (int \<times> int) option" where
  "num_rep (PBool b) = Some (of_bool b, 0)"
| "num_rep (PInt i) = Some (i, 0)"
| "num_rep (PFloat (Fin s m e)) = Some (if s then - int m else int m, e)"
| "num_rep _ = None"

definition num_eq :: "int \<times> int \<Rightarrow> int \<times> int \<Rightarrow> bool" where
  "num_eq a b =
     (let e = min (snd a) (snd b)
      in fst a * 2 ^ nat (snd a - e) = fst b * 2 ^ nat (snd b - e))"

fun py_eq :: "pyval \<Rightarrow> pyval \<Rightarrow> bool" where
  "py_eq PNone v = (v = PNone)"
| "py_eq (PStr s) v = (v = PStr s)"
| "py_eq (PList xs) v = (case v of PList ys \<Rightarrow> list_all2 py_eq xs ys | _ \<Rightarrow> False)"
| "py_eq (PDict d) v =
     (case v of
        PDict d' \<Rightarrow> length d = length d' \<and>
          list_all (\<lambda>kv. case map_of d' (fst kv) of None \<Rightarrow> False | Some w \<Rightarrow> py_eq (snd kv) w) d
      | _ \<Rightarrow> False)"
| "py_eq (PFloat (FInf s)) v = (v = PFloat (FInf s))"
| "py_eq v w = (case (num_rep v, num_rep w) of (Some a, Some b) \<Rightarrow> num_eq a b | _ \<Rightarrow> False)"

lemma py_eq_PStr [simp]: "py_eq v (PStr s) \<longleftrightarrow> v = PStr s"
  by (cases v rule: num_rep.cases) auto

fun has_prefix :: "string \<Rightarrow> string \<Rightarrow> bool" where
  "has_prefix [] s = True"
| "has_prefix (c # p) [] = False"
| "has_prefix (c # p) (d # s) = (c = d \<and> has_prefix p s)"

fun has_substring :: "string \<Rightarrow> string \<Rightarrow> bool" where
  "has_substring p [] = (p = [])"
| "has_substring p (c # s) = (has_prefix p (c # s) \<or> has_substring p s)"

text \<open>Lists and dicts are not hashable, so they cannot be looked up in a dict.\<close>

fun hashable :: "pyval \<Rightarrow> bool" where
  "hashable (PList _) = False"
| "hashable (PDict _) = False"
| "hashable _ = True"

fun dict_find :: "pyval \<Rightarrow> pydict \<Rightarrow> pyval option res" where
  "dict_find (PStr k) d = Inr (map_of d k)"
| "dict_find v d = (if hashable v then Inr None else Inl TypeError)"

text \<open>\<open>x in c\<close>\<close>

fun py_in :: "pyval \<Rightarrow> pyval \<Rightarrow> bool res" where
  "py_in x (PList ys) = Inr (list_ex (py_eq x) ys)"
| "py_in x (PDict d) = bnd (dict_find x d) (\<lambda>r. Inr (r \<noteq> None))"
| "py_in x (PStr s) = (case x of PStr p \<Rightarrow> Inr (has_substring p s) | _ \<Rightarrow> Inl TypeError)"
| "py_in x _ = Inl TypeError"

section \<open>Dicts\<close>

text \<open>\<open>v.get(k, default)\<close> with a literal key; only dicts have a \<open>get\<close>.\<close>

fun py_get :: "pyval \<Rightarrow> string \<Rightarrow> pyval \<Rightarrow> pyval res" where
  "py_get (PDict d) k dflt = Inr (case map_of d k of None \<Rightarrow> dflt | Some v \<Rightarrow> v)"
| "py_get v k dflt = Inl AttributeError"

text \<open>\<open>v.get(k1) or v.get(k2) or ...\<close>: the first truthy one, else the last.\<close>

fun get_first :: "pyval \<Rightarrow> string list \<Rightarrow> pyval res" where
  "get_first v [] = Inr PNone"
| "get_first v [k] = py_get v k PNone"
| "get_first v (k # ks) =
     bnd (py_get v k PNone) (\<lambda>x. if truthy x then Inr x else get_first v ks)"

lemma get_first_dict:
  "get_first (PDict d) (k # k' # ks) =
     (case map_of d k of
        None \<Rightarrow> get_first (PDict d) (k' # ks)
      | Some x \<Rightarrow> if truthy x then Inr x else get_first (PDict d) (k' # ks))"
  by (auto split: option.splits)

text \<open>\<open>d[k] = v\<close>: an existing key keeps its place.\<close>

abbreviation dset :: "string \<Rightarrow> 'v \<Rightarrow> (string \<times> 'v) list \<Rightarrow> (string \<times> 'v) list" where
  "dset k v d \<equiv> AList.update k v d"

section \<open>int(x)\<close>

definition is_digit :: "char \<Rightarrow> bool" where
  "is_digit c = (48 \<le> (of_char c :: nat) \<and> (of_char c :: nat) \<le> 57)"

definition digit_val :: "char \<Rightarrow> nat" where
  "digit_val c = of_char c - 48"

definition is_space :: "char \<Rightarrow> bool" where
  "is_space c =
     (let n = (of_char c :: nat) in n = 32 \<or> (9 \<le> n \<and> n \<le> 13) \<or> (28 \<le> n \<and> n \<le> 31))"

definition strip :: "string \<Rightarrow> string" where
  "strip s = rev (dropWhile is_space (rev (dropWhile is_space s)))"

text \<open>Digits, with single underscores allowed between two digits.\<close>

fun digits_ok :: "string \<Rightarrow> bool" where
  "digits_ok [] = False"
| "digits_ok [c] = is_digit c"
| "digits_ok (c # d # s) =
     (is_digit c \<and> (if d = CHR ''_'' then digits_ok s else digits_ok (d # s)))"

definition digits_val :: "string \<Rightarrow> nat" where
  "digits_val s = foldl (\<lambda>n c. 10 * n + digit_val c) 0 (filter is_digit s)"

definition split_sign :: "string \<Rightarrow> bool \<times> string" where
  "split_sign s =
     (case s of
        c # r \<Rightarrow> (if c = CHR ''-'' then (True, r) else if c = CHR ''+'' then (False, r) else (False, s))
      | [] \<Rightarrow> (False, []))"

text \<open>The interpreter refuses to convert more than 4300 digits.\<close>

definition int_of_str :: "string \<Rightarrow> int res" where
  "int_of_str s =
     (let (neg, ds) = split_sign (strip s)
      in if digits_ok ds \<and> length (filter is_digit ds) \<le> 4300
         then Inr (if neg then - int (digits_val ds) else int (digits_val ds))
         else Inl ValueError)"

fun py_int :: "pyval \<Rightarrow> int res" where
  "py_int (PInt i) = Inr i"
| "py_int (PBool b) = Inr (of_bool b)"
| "py_int (PFloat x) = int_of_float x"
| "py_int (PStr s) = int_of_str s"
| "py_int _ = Inl TypeError"

section \<open>float(x)\<close>

definition lower_char :: "char \<Rightarrow> char" where
  "lower_char c =
     (let n = (of_char c :: nat) in if 65 \<le> n \<and> n \<le> 90 then char_of (n + 32) else c)"

definition lower :: "string \<Rightarrow> string" where
  "lower s = map lower_char s"

text \<open>A run of digits and underscores, and the rest.\<close>

definition num_span :: "string \<Rightarrow> string \<times> string" where
  "num_span s = (let p = (\<lambda>c. is_digit c \<or> c = CHR ''_'') in (takeWhile p s, dropWhile p s))"

definition dec_exponent :: "string \<Rightarrow> int option" where
  "dec_exponent s =
     (case s of
        [] \<Rightarrow> Some 0
      | c # r \<Rightarrow>
          if c = CHR ''e'' \<or> c = CHR ''E'' then
            (let (neg, ds) = split_sign r
             in if digits_ok ds then Some (if neg then - int (digits_val ds) else int (digits_val ds))
                else None)
          else None)"

text \<open>
  \<open>ip.frac\<close> with exponent \<open>x\<close>: both parts well-formed or empty, not both empty; the value
  is the nearest float to \<open>ipfrac * 10 ^ (x - len frac)\<close>.
\<close>

definition dec_float :: "bool \<Rightarrow> string \<Rightarrow> string \<Rightarrow> int \<Rightarrow> pyfloat" where
  "dec_float neg ip frac x =
     (let n = digits_val (ip @ frac); k = x - int (length (filter is_digit frac))
      in if 0 \<le> k then f64_of_ratio neg (n * 10 ^ nat k) 1
         else f64_of_ratio neg n (10 ^ nat (- k)))"

definition float_of_str :: "string \<Rightarrow> pyfloat res" where
  "float_of_str s =
     (let (neg, b) = split_sign (strip s)
      in if lower b = ''inf'' \<or> lower b = ''infinity'' then Inr (FInf neg)
         else if lower b = ''nan'' then Inr FNan
         else
           (let (ip, r1) = num_span b;
                (frac, r2) = (case r1 of
                                c # r \<Rightarrow> if c = CHR ''.'' then num_span r else ([], r1)
                              | [] \<Rightarrow> ([], []))
            in if (ip = [] \<or> digits_ok ip) \<and> (frac = [] \<or> digits_ok frac) \<and> (ip \<noteq> [] \<or> frac \<noteq> [])
               then (case dec_exponent r2 of
                       None \<Rightarrow> Inl ValueError
                     | Some x \<Rightarrow> Inr (dec_float neg ip frac x))
               else Inl ValueError))"

fun py_float :: "pyval \<Rightarrow> pyfloat res" where
  "py_float (PFloat x) = Inr x"
| "py_float (PInt i) = float_of_int i"
| "py_float (PBool b) = float_of_int (of_bool b)"
| "py_float (PStr s) = float_of_str s"
| "py_float _ = Inl TypeError"

section \<open>str(n) of an integer\<close>

fun nat_digits :: "nat \<Rightarrow> string" where
  "nat_digits n =
     (if n < 10 then [char_of (48 + n)] else nat_digits (n div 10) @ [char_of (48 + n mod 10)])"

declare nat_digits.simps [simp del]

definition int_str :: "int \<Rightarrow> string" where
  "int_str i = (if i < 0 then CHR ''-'' # nat_digits (nat (- i)) else nat_digits (nat i))"

lemma digit_char: "n < 10 \<Longrightarrow> is_digit (char_of (48 + n)) \<and> digit_val (char_of (48 + n)) = n"
  by (simp add: is_digit_def digit_val_def)

lemma nat_digits_props:
  "nat_digits n \<noteq> [] \<and> list_all is_digit (nat_digits n) \<and> digits_val (nat_digits n) = n"
proof (induction n rule: nat_digits.induct)
  case (1 n)
  show ?case
  proof (cases "n < 10")
    case True
    then show ?thesis
      using digit_char [OF True] by (simp add: nat_digits.simps digits_val_def)
  next
    case False
    have "n mod 10 < 10" by simp
    note d = digit_char [OF this]
    have "foldl (\<lambda>n c. 10 * n + digit_val c) 0 (filter is_digit (nat_digits (n div 10))) = n div 10"
      using 1 False by (simp add: digits_val_def)
    with 1 False d show ?thesis
      by (simp add: nat_digits.simps [of n] digits_val_def)
  qed
qed

lemma nat_digits_inject: "nat_digits m = nat_digits n \<longleftrightarrow> m = n"
  using nat_digits_props by metis

lemma nat_digits_no_char:
  "\<not> is_digit c \<Longrightarrow> c \<notin> set (nat_digits n)"
  using nat_digits_props [of n] by (auto simp: list_all_iff)

section \<open>Iteration and dicts keyed by arbitrary values\<close>

definition is_cont :: "char \<Rightarrow> bool" where
  "is_cont c = (let n = (of_char c :: nat) in 128 \<le> n \<and> n < 192)"

text \<open>The code points of a string, each as its UTF-8 bytes.\<close>

function code_points :: "string \<Rightarrow> string list" where
  "code_points [] = []"
| "code_points (c # s) = (c # takeWhile is_cont s) # code_points (dropWhile is_cont s)"
  by pat_completeness auto
termination
  by (relation "measure length") (auto simp: le_imp_less_Suc length_dropWhile_le)

text \<open>\<open>for x in v\<close>\<close>

fun py_iter :: "pyval \<Rightarrow> pyval list res" where
  "py_iter (PList xs) = Inr xs"
| "py_iter (PDict d) = Inr (map (\<lambda>kv. PStr (fst kv)) d)"
| "py_iter (PStr s) = Inr (map PStr (code_points s))"
| "py_iter _ = Inl TypeError"

text \<open>
  The dicts that the services build themselves, keyed by the ids they find in a document:
  an id is any hashable value.  \<open>olookup\<close> is \<open>d.get(k)\<close>, \<open>oupdate\<close> is \<open>d[k] = v\<close> and
  \<open>oitems\<close> the view of a JSON dict as such a dict.
\<close>

type_synonym odict = "(pyval \<times> pyval) list"

definition oitems :: "pydict \<Rightarrow> odict" where
  "oitems d = map (\<lambda>kv. (PStr (fst kv), snd kv)) d"

definition check_hash :: "pyval \<Rightarrow> unit res" where
  "check_hash k = (if hashable k then Inr () else Inl TypeError)"

definition ofind :: "pyval \<Rightarrow> odict \<Rightarrow> pyval option" where
  "ofind k d = map_option snd (find (\<lambda>kv. py_eq k (fst kv)) d)"

definition olookup :: "pyval \<Rightarrow> odict \<Rightarrow> pyval option res" where
  "olookup k d = bnd (check_hash k) (\<lambda>_. Inr (ofind k d))"

fun oinsert :: "pyval \<Rightarrow> pyval \<Rightarrow> odict \<Rightarrow> odict" where
  "oinsert k v [] = [(k, v)]"
| "oinsert k v ((k', v') # d) = (if py_eq k k' then (k', v) # d else (k', v') # oinsert k v d)"

definition oupdate :: "pyval \<Rightarrow> pyval \<Rightarrow> odict \<Rightarrow> odict res" where
  "oupdate k v d = bnd (check_hash k) (\<lambda>_. Inr (oinsert k v d))"

text \<open>Membership in a Python set of hashable values.\<close>

definition oset_mem :: "pyval \<Rightarrow> pyval list \<Rightarrow> bool res" where
  "oset_mem k ks = bnd (check_hash k) (\<lambda>_. Inr (list_ex (py_eq k) ks))"

definition set_add :: "'a \<Rightarrow> 'a list \<Rightarrow> 'a list" where
  "set_add x xs = (if x \<in> set xs then xs else xs @ [x])"

lemma set_set_add [simp]: "set (set_add x xs) = insert x (set xs)"
  by (auto simp: set_add_def)

lemma check_hash_PStr [simp]: "check_hash (PStr s) = Inr ()"
  by (simp add: check_hash_def)

lemma oset_mem_PStr [simp]: "oset_mem (PStr s) ks = Inr (PStr s \<in> set ks)"
  by (auto simp: oset_mem_def list_ex_iff)

lemma ofind_oitems [simp]: "ofind (PStr k) (oitems d) = map_of d k"
  by (induction d) (auto simp: oitems_def ofind_def)

lemma olookup_oitems [simp]: "olookup (PStr k) (oitems d) = Inr (map_of d k)"
  by (simp add: olookup_def)

section \<open>Values in packet builders\<close>

text \<open>\<open>d.get(k, dflt)\<close> of a dict with string keys.\<close>

definition pd_get :: "pydict \<Rightarrow> string \<Rightarrow> pyval \<Rightarrow> pyval" where
  "pd_get d k dflt = (case map_of d k of None \<Rightarrow> dflt | Some v \<Rightarrow> v)"

text \<open>
  An operand that must be an integer: \<open>bool\<close> counts as one, anything else raises \<open>e\<close>
  (\<open>struct.error\<close> in \<open>struct.pack\<close>, TypeError in \<open>&\<close>, \<open>+\<close> and list repetition).
\<close>

fun as_int :: "pyexn \<Rightarrow> pyval \<Rightarrow> int res" where
  "as_int e (PInt n) = Inr n"
| "as_int e (PBool b) = Inr (if b then 1 else 0)"
| "as_int e v = Inl e"

definition pack_vals :: "string \<Rightarrow> pyval list \<Rightarrow> bytes res" where
  "pack_vals fmt vs = bnd (mapM (as_int StructError) vs) (struct_pack fmt)"

lemma pack_vals_ints [simp]: "pack_vals fmt (map PInt ns) = struct_pack fmt ns"
proof -
  have "mapM (as_int StructError) (map PInt ns) = Inr ns" by (induction ns) auto
  then show ?thesis by (simp add: pack_vals_def)
qed

text \<open>\<open>v[:q]\<close>, where a negative bound counts from the end; a dict has no slices.\<close>

definition slice_to :: "int \<Rightarrow> 'a list \<Rightarrow> 'a list" where
  "slice_to q xs = (if 0 \<le> q then take (nat q) xs else take (nat (int (length xs) + q)) xs)"

fun py_slice_to :: "pyval \<Rightarrow> int \<Rightarrow> pyval list res" where
  "py_slice_to (PList vs) q = Inr (slice_to q vs)"
| "py_slice_to (PStr s) q = Inr (map PStr (slice_to q (code_points s)))"
| "py_slice_to v q = Inl TypeError"

text \<open>\<open>len(v)\<close>; the length of a string is the number of its code points.\<close>

fun py_len :: "pyval \<Rightarrow> int res" where
  "py_len (PList vs) = Inr (int (length vs))"
| "py_len (PStr s) = Inr (int (length (code_points s)))"
| "py_len (PDict d) = Inr (int (length d))"
| "py_len v = Inl TypeError"

text \<open>\<open>v[k]\<close> with a string key.\<close>

fun py_item :: "pyval \<Rightarrow> string \<Rightarrow> pyval res" where
  "py_item (PDict d) k = (case map_of d k of None \<Rightarrow> Inl KeyError | Some v \<Rightarrow> Inr v)"
| "py_item v k = Inl TypeError"

text \<open>\<open>s.encode("utf-8")\<close>: strings are kept in UTF-8.\<close>

definition utf8 :: "string \<Rightarrow> bytes" where
  "utf8 s = map of_char s"

text \<open>\<open>bytes(v)\<close>: zero bytes for a number, the listed bytes for a list.\<close>

fun bytes_of :: "pyval \<Rightarrow> bytes res" where
  "bytes_of (PInt n) = (if 0 \<le> n then Inr (replicate (nat n) 0) else Inl ValueError)"
| "bytes_of (PBool b) = Inr (if b then [0] else [])"
| "bytes_of (PList vs) = mapM (\<lambda>v. bnd (as_int TypeError v) py_byte) vs"
| "bytes_of (PDict d) = (if d = [] then Inr [] else Inl TypeError)"
| "bytes_of v = Inl TypeError"

end
