(* ===== verification/CellIsolation.thy ===== *)
theory CellIsolation
  imports PyValue
begin

text \<open>
  \<open>backend/app/protocol_engines/cell_isolation.py\<close>: the run-time gate that suppresses
  flows between Purdue cells, and the editor operation that removes such flows and
  conduits from a scenario definition.  Definitions are arbitrary JSON values, so every
  access can raise; zones, devices and conduits come as dicts or as lists.

  The texts that \<open>should_drop_flow\<close> logs are the constructors of \<open>drop_reason\<close>, with the
  values that the f-strings interpolate.
\<close>

section \<open>Configuration\<close>

definition MODE_OFF :: string where "MODE_OFF = ''off''"
definition MODE_CONDUIT_GATED :: string where "MODE_CONDUIT_GATED = ''conduit_gated''"
definition MODE_STRICT_NORTHBOUND :: string where
  "MODE_STRICT_NORTHBOUND = ''strict_northbound''"

definition VALID_MODES :: "string list" where
  "VALID_MODES = [MODE_OFF, MODE_CONDUIT_GATED, MODE_STRICT_NORTHBOUND]"

definition DEFAULT_CELL_LEVELS :: "int list" where
  "DEFAULT_CELL_LEVELS = [0, 1, 2]"

definition protocol_aliases :: "(string \<times> string) list" where
  "protocol_aliases =
     [(''profisafe'', ''profinet''),
      (''s7comm_plus'', ''s7comm''),
      (''cip_safety'', ''ethernet_ip''),
      (''modbus'', ''modbus_tcp''),
      (''enip'', ''ethernet_ip''),
      (''bacnet_ip'', ''bacnet'')]"

fun resolve_protocol :: "pyval \<Rightarrow> pyval res" where
  "resolve_protocol (PStr s) =
     Inr (PStr (case map_of protocol_aliases s of None \<Rightarrow> s | Some t \<Rightarrow> t))"
| "resolve_protocol v = bnd (check_hash v) (\<lambda>_. Inr v)"

text \<open>The result of \<open>parse_config\<close>: the mode and the set of cell levels.\<close>

record isolation =
  iso_mode :: string
  iso_levels :: "int list"

text \<open>
  The loop over \<open>applies_to_levels\<close>: levels that are not integers are skipped, but only
  TypeError and ValueError are caught.
\<close>

definition add_level :: "int list \<Rightarrow> pyval \<Rightarrow> int list res" where
  "add_level levels lvl =
     (case py_int lvl of
        Inr n \<Rightarrow> Inr (set_add n levels)
      | Inl e \<Rightarrow> if e = TypeError \<or> e = ValueError then Inr levels else Inl e)"

definition default_isolation :: isolation where
  "default_isolation = \<lparr>iso_mode = MODE_OFF, iso_levels = DEFAULT_CELL_LEVELS\<rparr>"

definition valid_mode :: "pyval \<Rightarrow> string res" where
  "valid_mode mode =
     bnd (check_hash mode) (\<lambda>_.
       Inr (case mode of
              PStr m \<Rightarrow> if m \<in> set VALID_MODES then m else MODE_OFF
            | _ \<Rightarrow> MODE_OFF))"

definition parse_config :: "pyval \<Rightarrow> isolation res" where
  "parse_config defn =
     (if \<not> truthy defn then Inr default_isolation
      else
        bnd (py_get defn ''cell_isolation'' PNone) (\<lambda>block.
        let raw = py_or block (PDict []) in
        bnd (py_get raw ''mode'' (PStr MODE_OFF)) (\<lambda>mode0.
        bnd (valid_mode mode0) (\<lambda>mode.
        bnd (py_get raw ''applies_to_levels'' PNone) (\<lambda>lv.
        let levels_raw = py_or lv (PList (map PInt DEFAULT_CELL_LEVELS)) in
        bnd (py_iter levels_raw) (\<lambda>lvls.
        bnd (foldM add_level [] lvls) (\<lambda>levels.
        Inr \<lparr>iso_mode = mode,
             iso_levels = (if levels = [] then DEFAULT_CELL_LEVELS else levels)\<rparr>)))))))"

section \<open>Normalising the parts of a definition\<close>

text \<open>
  The loop \<open>for z in zones: zid = z.get("id"); if zid: out[zid] = z\<close>; devices may also
  carry their id under \<open>deviceId\<close>.
\<close>

definition index_by :: "string list \<Rightarrow> pyval list \<Rightarrow> odict res" where
  "index_by keys items =
     foldM (\<lambda>out z. bnd (get_first z keys)
              (\<lambda>zid. if truthy zid then oupdate zid z out else Inr out))
       [] items"

fun normalize_zones :: "pyval \<Rightarrow> odict res" where
  "normalize_zones (PDict d) = Inr (oitems d)"
| "normalize_zones (PList zs) = index_by [''id''] zs"
| "normalize_zones _ = Inr []"

fun normalize_devices :: "pyval \<Rightarrow> odict res" where
  "normalize_devices (PDict d) = Inr (oitems d)"
| "normalize_devices (PList ds) = index_by [''id'', ''deviceId''] ds"
| "normalize_devices _ = Inr []"

fun normalize_conduits :: "pyval \<Rightarrow> pyval list" where
  "normalize_conduits (PDict d) = map snd d"
| "normalize_conduits (PList cs) = cs"
| "normalize_conduits _ = []"

text \<open>The zone of a device: its own entry first, then the zones' member lists.\<close>

fun scan_members :: "pyval \<Rightarrow> odict \<Rightarrow> pyval res" where
  "scan_members device_id [] = Inr PNone"
| "scan_members device_id ((zid, zone) # zs) =
     bnd (get_first zone [''deviceIds'', ''device_ids'']) (\<lambda>m.
     bnd (py_in device_id (py_or m (PList []))) (\<lambda>found.
     if found then Inr zid else scan_members device_id zs))"

definition zone_of :: "pyval \<Rightarrow> odict \<Rightarrow> odict \<Rightarrow> pyval res" where
  "zone_of device_id devices zones =
     bnd (olookup device_id devices) (\<lambda>found.
     let device = (case found of None \<Rightarrow> PDict [] | Some d \<Rightarrow> d) in
     bnd (get_first device [''zoneId'', ''zone_id'', ''zone'']) (\<lambda>explicit.
     if truthy explicit then Inr explicit else scan_members device_id zones))"

text \<open>\<open>int(float(raw))\<close>, with TypeError and ValueError giving None.\<close>

definition zone_level :: "pyval \<Rightarrow> int option res" where
  "zone_level zone =
     bnd (py_get zone ''level'' PNone) (\<lambda>raw.
     if raw = PNone then Inr None
     else (case bnd (py_float raw) int_of_float of
             Inr n \<Rightarrow> Inr (Some n)
           | Inl e \<Rightarrow> if e = TypeError \<or> e = ValueError then Inr None else Inl e))"

fun cell_ids :: "odict \<Rightarrow> int list \<Rightarrow> pyval list res" where
  "cell_ids [] levels = Inr []"
| "cell_ids ((zid, zone) # zs) levels =
     bnd (zone_level zone) (\<lambda>lvl.
     bnd (cell_ids zs levels) (\<lambda>rest.
     Inr (case lvl of None \<Rightarrow> rest | Some n \<Rightarrow> if n \<in> set levels then zid # rest else rest)))"

definition classify_cell_zones :: "pyval \<Rightarrow> int list \<Rightarrow> pyval list res" where
  "classify_cell_zones zones levels = bnd (normalize_zones zones) (\<lambda>zn. cell_ids zn levels)"

section \<open>The gate\<close>

definition conduit_permits :: "pyval \<Rightarrow> pyval \<Rightarrow> pyval \<Rightarrow> pyval \<Rightarrow> bool res" where
  "conduit_permits conduit source_zone target_zone protocol =
     bnd (get_first conduit [''sourceZoneId'', ''source_zone_id'']) (\<lambda>src.
     bnd (get_first conduit [''targetZoneId'', ''target_zone_id'']) (\<lambda>tgt.
     bnd (py_get conduit ''direction'' (PStr ''bidirectional'')) (\<lambda>direction.
     bnd (get_first conduit [''allowedProtocols'', ''allowed_protocols'']) (\<lambda>al.
     let allowed = py_or al (PList []);
         forward = (py_eq src source_zone \<and> py_eq tgt target_zone);
         backward = (py_eq src target_zone \<and> py_eq tgt source_zone)
     in if \<not> (forward \<or> backward) then Inr False
        else if direction = PStr ''a_to_b'' \<and> \<not> forward then Inr False
        else if direction = PStr ''b_to_a'' \<and> \<not> backward then Inr False
        else bnd (resolve_protocol protocol) (\<lambda>resolved.
             bnd (py_iter allowed) (\<lambda>ps.
             bnd (mapM resolve_protocol ps) (\<lambda>allowed_resolved.
             oset_mem resolved allowed_resolved)))))))"

fun any_permits :: "pyval list \<Rightarrow> pyval \<Rightarrow> pyval \<Rightarrow> pyval \<Rightarrow> bool res" where
  "any_permits [] s t p = Inr False"
| "any_permits (c # cs) s t p =
     bnd (conduit_permits c s t p) (\<lambda>ok. if ok then Inr True else any_permits cs s t p)"

datatype drop_reason =
    StrictNorthbound "int option" "int option" pyval pyval
  | NoConduitPermits pyval pyval pyval

definition flow_source :: "pyval \<Rightarrow> pyval res" where
  "flow_source flow = get_first flow [''source_device_id'', ''sourceDeviceId'', ''source'']"

definition flow_target :: "pyval \<Rightarrow> pyval res" where
  "flow_target flow =
     get_first flow [''destination_device_id'', ''destinationDeviceId'', ''targetDeviceId'', ''target'']"

definition zone_level_at :: "pyval \<Rightarrow> odict \<Rightarrow> int option res" where
  "zone_level_at zid zones =
     bnd (olookup zid zones) (\<lambda>z. case z of None \<Rightarrow> Inl KeyError | Some zone \<Rightarrow> zone_level zone)"

definition should_drop_flow ::
    "pyval \<Rightarrow> pyval \<Rightarrow> pyval \<Rightarrow> pyval \<Rightarrow> isolation \<Rightarrow> (bool \<times> drop_reason option) res" where
  "should_drop_flow flow devices zones conduits isolation =
     (if iso_mode isolation = MODE_OFF then Inr (False, None)
      else
        bnd (normalize_devices devices) (\<lambda>devices_n.
        bnd (normalize_zones zones) (\<lambda>zones_n.
        if zones_n = [] then Inr (False, None)
        else
          bnd (flow_source flow) (\<lambda>source_id.
          bnd (flow_target flow) (\<lambda>target_id.
          if \<not> truthy source_id \<or> \<not> truthy target_id then Inr (False, None)
          else
            bnd (zone_of source_id devices_n zones_n) (\<lambda>src_zone.
            bnd (zone_of target_id devices_n zones_n) (\<lambda>tgt_zone.
            if \<not> truthy src_zone \<or> \<not> truthy tgt_zone then Inr (False, None)
            else
              let cell_levels = (if iso_levels isolation = [] then DEFAULT_CELL_LEVELS
                                 else iso_levels isolation) in
              bnd (cell_ids zones_n cell_levels) (\<lambda>cell_zone_ids.
              bnd (oset_mem src_zone cell_zone_ids) (\<lambda>src_is_cell.
              bnd (oset_mem tgt_zone cell_zone_ids) (\<lambda>tgt_is_cell.
              if py_eq src_zone tgt_zone then Inr (False, None)
              else if \<not> (src_is_cell \<or> tgt_is_cell) then Inr (False, None)
              else if iso_mode isolation = MODE_STRICT_NORTHBOUND then
                (if src_is_cell \<and> tgt_is_cell then
                   bnd (zone_level_at src_zone zones_n) (\<lambda>src_lvl.
                   bnd (zone_level_at tgt_zone zones_n) (\<lambda>tgt_lvl.
                   Inr (True, Some (StrictNorthbound src_lvl tgt_lvl src_zone tgt_zone))))
                 else Inr (False, None))
              else if iso_mode isolation = MODE_CONDUIT_GATED then
                (if \<not> (src_is_cell \<and> tgt_is_cell) then Inr (False, None)
                 else
                   bnd (py_get flow ''protocol'' (PStr [])) (\<lambda>protocol.
                   bnd (any_permits (normalize_conduits conduits) src_zone tgt_zone protocol) (\<lambda>ok.
                   Inr (if ok then (False, None)
                        else (True, Some (NoConduitPermits protocol src_zone tgt_zone))))))
              else Inr (False, None)))))))))))"

definition is_cell_to_cell :: "pyval \<Rightarrow> pyval \<Rightarrow> pyval \<Rightarrow> int list \<Rightarrow> bool res" where
  "is_cell_to_cell flow devices zones levels =
     bnd (normalize_devices devices) (\<lambda>devices_n.
     bnd (normalize_zones zones) (\<lambda>zones_n.
     if zones_n = [] then Inr False
     else
       bnd (flow_source flow) (\<lambda>source_id.
       bnd (flow_target flow) (\<lambda>target_id.
       if \<not> truthy source_id \<or> \<not> truthy target_id then Inr False
       else
         bnd (zone_of source_id devices_n zones_n) (\<lambda>src_zone.
         bnd (zone_of target_id devices_n zones_n) (\<lambda>tgt_zone.
         if \<not> truthy src_zone \<or> \<not> truthy tgt_zone \<or> py_eq src_zone tgt_zone then Inr False
         else
           bnd (cell_ids zones_n levels) (\<lambda>cell_zone_ids.
           bnd (oset_mem src_zone cell_zone_ids) (\<lambda>s.
           if s then oset_mem tgt_zone cell_zone_ids else Inr False))))))))"

definition is_cell_to_cell_conduit :: "pyval \<Rightarrow> pyval \<Rightarrow> int list \<Rightarrow> bool res" where
  "is_cell_to_cell_conduit conduit zones levels =
     bnd (normalize_zones zones) (\<lambda>zones_n.
     bnd (get_first conduit [''sourceZoneId'', ''source_zone_id'']) (\<lambda>src.
     bnd (get_first conduit [''targetZoneId'', ''target_zone_id'']) (\<lambda>tgt.
     if \<not> truthy src \<or> \<not> truthy tgt \<or> py_eq src tgt then Inr False
     else
       bnd (cell_ids zones_n levels) (\<lambda>cell_zone_ids.
       bnd (oset_mem src cell_zone_ids) (\<lambda>s.
       if s then oset_mem tgt cell_zone_ids else Inr False)))))"

section \<open>Removing the flows and conduits that the strict mode blocks\<close>

text \<open>
  The two loops of \<open>prune_for_strict_northbound\<close> over a collection: over the items of a
  dict the removed ones are reported by their key, over a list by their \<open>id\<close>.  The result is the
  collection that is left and the reported ids; a collection of another kind is kept.
\<close>

fun prune_items :: "(pyval \<Rightarrow> bool res) \<Rightarrow> pydict \<Rightarrow> (pydict \<times> pyval list) res" where
  "prune_items p [] = Inr ([], [])"
| "prune_items p ((k, v) # d) =
     bnd (p v) (\<lambda>hit.
     bnd (prune_items p d) (\<lambda>(kept, removed).
     Inr (if hit then (kept, PStr k # removed) else ((k, v) # kept, removed))))"

fun prune_list :: "(pyval \<Rightarrow> bool res) \<Rightarrow> pyval list \<Rightarrow> (pyval list \<times> pyval list) res" where
  "prune_list p [] = Inr ([], [])"
| "prune_list p (v # vs) =
     bnd (p v) (\<lambda>hit.
     if hit then
       bnd (py_get v ''id'' (PStr ''<unnamed>'')) (\<lambda>vid.
       bnd (prune_list p vs) (\<lambda>(kept, removed). Inr (kept, vid # removed)))
     else bnd (prune_list p vs) (\<lambda>(kept, removed). Inr (v # kept, removed)))"

fun prune_collection :: "(pyval \<Rightarrow> bool res) \<Rightarrow> pyval \<Rightarrow> (pyval \<times> pyval list) res" where
  "prune_collection p (PDict d) =
     bnd (prune_items p d) (\<lambda>(kept, removed). Inr (PDict kept, removed))"
| "prune_collection p (PList vs) =
     bnd (prune_list p vs) (\<lambda>(kept, removed). Inr (PList kept, removed))"
| "prune_collection p v = Inr (v, [])"

record pruned =
  new_definition :: pydict
  removed_flows :: "pyval list"
  removed_conduits :: "pyval list"

definition prune_for_strict_northbound :: "pydict \<Rightarrow> int list \<Rightarrow> pruned res" where
  "prune_for_strict_northbound defn cell_levels =
     (let devices = pd_get defn ''devices'' (PDict []);
          zones = pd_get defn ''zones'' (PDict []);
          flows_raw = pd_get defn ''flows'' (PDict []);
          conduits_raw = pd_get defn ''conduits'' (PDict []);
          levels = foldl (\<lambda>s x. set_add x s) [] cell_levels
      in bnd (prune_collection (\<lambda>f. is_cell_to_cell f devices zones levels) flows_raw)
           (\<lambda>(new_flows, rf).
         bnd (prune_collection (\<lambda>c. is_cell_to_cell_conduit c zones levels) conduits_raw)
           (\<lambda>(new_conduits, rc).
         Inr \<lparr>new_definition =
                dset ''cell_isolation''
                  (PDict [(''mode'', PStr MODE_STRICT_NORTHBOUND),
                          (''applies_to_levels'', PList (map PInt (sort levels)))])
                  (dset ''conduits'' new_conduits (dset ''flows'' new_flows defn)),
              removed_flows = rf, removed_conduits = rc\<rparr>)))"

section \<open>How the gate and the editor agree\<close>

text \<open>
  Both \<open>should_drop_flow\<close> and \<open>is_cell_to_cell\<close> first place the two ends of the flow in
  zones; \<open>placed\<close> is that common part, and the lemmas below rewrite both to it.
\<close>

lemma modes_distinct [simp]:
  "MODE_STRICT_NORTHBOUND \<noteq> MODE_OFF" "MODE_CONDUIT_GATED \<noteq> MODE_OFF"
  "MODE_STRICT_NORTHBOUND \<noteq> MODE_CONDUIT_GATED"
  "MODE_OFF \<noteq> MODE_STRICT_NORTHBOUND" "MODE_OFF \<noteq> MODE_CONDUIT_GATED"
  "MODE_CONDUIT_GATED \<noteq> MODE_STRICT_NORTHBOUND"
  by (simp_all add: MODE_OFF_def MODE_CONDUIT_GATED_def MODE_STRICT_NORTHBOUND_def)

lemma oset_mem_eq: "oset_mem k ks = Inr b \<longleftrightarrow> hashable k \<and> b = list_ex (py_eq k) ks"
  by (auto simp: oset_mem_def check_hash_def)

lemma cell_ids_subset: "cell_ids zs L = Inr ids \<Longrightarrow> set ids \<subseteq> fst ` set zs"
  by (induction zs arbitrary: ids) (fastforce simp: res_simps split: option.splits if_splits)+

lemma cell_ids_levels:
  "cell_ids zs L = Inr ids \<Longrightarrow> (zid, z) \<in> set zs \<Longrightarrow> \<exists>l. zone_level z = Inr l"
  by (induction zs arbitrary: ids) (auto simp: res_simps)

lemma cell_ids_cong: "set L = set L' \<Longrightarrow> cell_ids zs L = cell_ids zs L'"
  by (induction zs L rule: cell_ids.induct) (auto intro!: bnd_cong split: option.splits)

lemma ofind_member:
  "list_ex (py_eq k) ids \<Longrightarrow> set ids \<subseteq> fst ` set zs \<Longrightarrow> \<exists>z zid. ofind k zs = Some z \<and> (zid, z) \<in> set zs"
proof -
  assume "list_ex (py_eq k) ids" and "set ids \<subseteq> fst ` set zs"
  then obtain kv where "kv \<in> set zs" "py_eq k (fst kv)"
    by (auto simp: list_ex_iff)
  then have "find (\<lambda>kv. py_eq k (fst kv)) zs \<noteq> None"
    unfolding find_None_iff by blast
  then obtain kv' where "find (\<lambda>kv. py_eq k (fst kv)) zs = Some kv'"
    by blast
  moreover then have "kv' \<in> set zs"
    by (auto simp: find_Some_iff)
  ultimately show ?thesis
    by (cases kv') (auto simp: ofind_def)
qed

lemma zone_level_at_cell:
  assumes "cell_ids zs L = Inr ids" and "oset_mem k ids = Inr True"
  shows "\<exists>l. zone_level_at k zs = Inr l"
proof -
  have h: "hashable k" and m: "list_ex (py_eq k) ids"
    using assms(2) by (auto simp: oset_mem_eq)
  obtain z zid where "ofind k zs = Some z" "(zid, z) \<in> set zs"
    using ofind_member [OF m cell_ids_subset [OF assms(1)]] by auto
  moreover then obtain l where "zone_level z = Inr l"
    using cell_ids_levels [OF assms(1)] by blast
  ultimately show ?thesis
    using h by (auto simp: zone_level_at_def olookup_def check_hash_def)
qed


definition placed :: "pyval \<Rightarrow> pyval \<Rightarrow> pyval \<Rightarrow> (odict \<times> pyval \<times> pyval) option res" where
  "placed flow devices zones =
     bnd (normalize_devices devices) (\<lambda>devices_n.
     bnd (normalize_zones zones) (\<lambda>zones_n.
     if zones_n = [] then Inr None
     else
       bnd (flow_source flow) (\<lambda>source_id.
       bnd (flow_target flow) (\<lambda>target_id.
       if \<not> truthy source_id \<or> \<not> truthy target_id then Inr None
       else
         bnd (zone_of source_id devices_n zones_n) (\<lambda>src_zone.
         bnd (zone_of target_id devices_n zones_n) (\<lambda>tgt_zone.
         Inr (if \<not> truthy src_zone \<or> \<not> truthy tgt_zone then None
              else Some (zones_n, src_zone, tgt_zone))))))))"

lemma is_cell_to_cell_placed:
  "is_cell_to_cell f ds zs L =
     bnd (placed f ds zs) (\<lambda>r. case r of None \<Rightarrow> Inr False | Some (zn, s, t) \<Rightarrow>
       if py_eq s t then Inr False
       else bnd (cell_ids zn L) (\<lambda>ids. bnd (oset_mem s ids) (\<lambda>m. if m then oset_mem t ids else Inr False)))"
  unfolding is_cell_to_cell_def placed_def
  by (auto simp: bnd_assoc intro!: bnd_cong)

lemma should_drop_strict_placed:
  assumes "L \<noteq> []"
  shows "should_drop_flow f ds zs cs \<lparr>iso_mode = MODE_STRICT_NORTHBOUND, iso_levels = L\<rparr> =
     bnd (placed f ds zs) (\<lambda>r. case r of None \<Rightarrow> Inr (False, None) | Some (zn, s, t) \<Rightarrow>
       bnd (cell_ids zn L) (\<lambda>ids. bnd (oset_mem s ids) (\<lambda>ms. bnd (oset_mem t ids) (\<lambda>mt.
         if py_eq s t \<or> \<not> (ms \<and> mt) then Inr (False, None)
         else bnd (zone_level_at s zn) (\<lambda>ls. bnd (zone_level_at t zn) (\<lambda>lt.
              Inr (True, Some (StrictNorthbound ls lt s t))))))))"
  unfolding should_drop_flow_def placed_def using assms
  by (auto simp: bnd_assoc intro!: bnd_cong)

lemma should_drop_gated_placed:
  assumes "L \<noteq> []"
  shows "should_drop_flow f ds zs cs \<lparr>iso_mode = MODE_CONDUIT_GATED, iso_levels = L\<rparr> =
     bnd (placed f ds zs) (\<lambda>r. case r of None \<Rightarrow> Inr (False, None) | Some (zn, s, t) \<Rightarrow>
       bnd (cell_ids zn L) (\<lambda>ids. bnd (oset_mem s ids) (\<lambda>ms. bnd (oset_mem t ids) (\<lambda>mt.
         if py_eq s t \<or> \<not> (ms \<and> mt) then Inr (False, None)
         else bnd (py_get f ''protocol'' (PStr [])) (\<lambda>p.
              bnd (any_permits (normalize_conduits cs) s t p) (\<lambda>ok.
              Inr (if ok then (False, None) else (True, Some (NoConduitPermits p s t)))))))))"
  unfolding should_drop_flow_def placed_def using assms
  by (auto simp: bnd_assoc intro!: bnd_cong)

lemma strict_drop_imp_cell_to_cell:
  assumes "L \<noteq> []"
    and "should_drop_flow f ds zs cs \<lparr>iso_mode = MODE_STRICT_NORTHBOUND, iso_levels = L\<rparr> = Inr (b, why)"
  shows "is_cell_to_cell f ds zs L = Inr b"
  using assms(2)
  by (auto simp: should_drop_strict_placed [OF assms(1)] is_cell_to_cell_placed
      split: bnd_splits option.splits if_splits)

lemma cell_to_cell_imp_strict_drop:
  assumes "L \<noteq> []" and "is_cell_to_cell f ds zs L = Inr True"
  shows "\<exists>why. should_drop_flow f ds zs cs \<lparr>iso_mode = MODE_STRICT_NORTHBOUND, iso_levels = L\<rparr>
     = Inr (True, Some why)"
proof -
  obtain zn s t ids where *: "placed f ds zs = Inr (Some (zn, s, t))" "\<not> py_eq s t"
    and ids: "cell_ids zn L = Inr ids" and m: "oset_mem s ids = Inr True" "oset_mem t ids = Inr True"
    using assms(2) by (auto simp: is_cell_to_cell_placed split: bnd_splits option.splits if_splits)
  obtain l1 l2 where "zone_level_at s zn = Inr l1" "zone_level_at t zn = Inr l2"
    using zone_level_at_cell [OF ids m(1)] zone_level_at_cell [OF ids m(2)] by auto
  then show ?thesis
    using * ids m by (simp add: should_drop_strict_placed [OF assms(1)])
qed

lemma any_permits_False:
  "any_permits cs s t p = Inr False \<longleftrightarrow> (\<forall>c \<in> set cs. conduit_permits c s t p = Inr False)"
  by (induction cs) (auto simp: res_simps split: if_splits)

lemma prune_items_filter:
  "prune_items p d = Inr (kept, removed) \<Longrightarrow>
     kept = filter (\<lambda>kv. p (snd kv) = Inr False) d
     \<and> removed = map (\<lambda>kv. PStr (fst kv)) (filter (\<lambda>kv. p (snd kv) = Inr True) d)"
  by (induction p d arbitrary: kept removed rule: prune_items.induct)
     (auto split: bnd_splits if_splits)

lemma prune_items_all: "\<forall>kv \<in> set d. p (snd kv) = Inr False \<Longrightarrow> prune_items p d = Inr (d, [])"
  by (induction d) auto

lemma prune_items_again:
  "prune_items p d = Inr (kept, removed) \<Longrightarrow> prune_items p kept = Inr (kept, [])"
  by (rule prune_items_all) (auto dest!: prune_items_filter)

lemma prune_list_filter:
  "prune_list p d = Inr (kept, removed) \<Longrightarrow> kept = filter (\<lambda>v. p v = Inr False) d"
  by (induction p d arbitrary: kept removed rule: prune_list.induct)
     (auto split: bnd_splits if_splits)

lemma prune_list_all: "\<forall>v \<in> set d. p v = Inr False \<Longrightarrow> prune_list p d = Inr (d, [])"
  by (induction d) auto

lemma prune_list_again:
  "prune_list p d = Inr (kept, removed) \<Longrightarrow> prune_list p kept = Inr (kept, [])"
  by (rule prune_list_all) (auto dest!: prune_list_filter)

fun members :: "pyval \<Rightarrow> pyval list" where
  "members (PDict d) = map snd d"
| "members (PList vs) = vs"
| "members _ = []"

lemma prune_collection_kept:
  assumes "prune_collection p c = Inr (kept, removed)" and "v \<in> set (members kept)"
  shows "p v = Inr False"
proof (cases c)
  case (PDict d)
  then obtain k where "prune_items p d = Inr (k, removed)" "kept = PDict k"
    using assms(1) by (auto split: bnd_splits)
  with assms(2) show ?thesis by (auto dest!: prune_items_filter)
next
  case (PList d)
  then obtain k where "prune_list p d = Inr (k, removed)" "kept = PList k"
    using assms(1) by (auto split: bnd_splits)
  with assms(2) show ?thesis by (auto dest!: prune_list_filter)
qed (use assms in auto)

lemma prune_collection_again:
  "prune_collection p c = Inr (kept, removed) \<Longrightarrow> prune_collection p kept = Inr (kept, [])"
  by (induction p c rule: prune_collection.induct)
     (auto split: bnd_splits dest: prune_items_again prune_list_again)

lemma set_levels: "set (foldl (\<lambda>s x. set_add x s) s xs) = set s \<union> set xs"
  by (induction xs arbitrary: s) auto

lemma distinct_levels: "distinct s \<Longrightarrow> distinct (foldl (\<lambda>s x. set_add x s) s xs)"
  by (induction xs arbitrary: s) (auto simp: set_add_def)

lemma foldM_add_level: "distinct (s @ ns) \<Longrightarrow> foldM add_level s (map PInt ns) = Inr (s @ ns)"
  by (induction ns arbitrary: s) (auto simp: add_level_def set_add_def)

lemma dset_dset_same: "map_of d k = Some v \<Longrightarrow> AList.update k v d = d"
  by (induction d) (auto split: if_splits)

lemma is_cell_to_cell_cong:
  "set L = set L' \<Longrightarrow> is_cell_to_cell f ds zs L = is_cell_to_cell f ds zs L'"
  unfolding is_cell_to_cell_def by (simp only: cell_ids_cong [of L L'] cong: if_cong)

lemma pd_get_dset [simp]:
  "pd_get (AList.update k v d) k' x = (if k = k' then v else pd_get d k' x)"
  by (simp add: pd_get_def update_conv)

lemma prune_def:
  assumes "prune_for_strict_northbound defn L = Inr r"
  defines "Ls \<equiv> foldl (\<lambda>s x. set_add x s) [] L"
  obtains nf rf nc rc where
    "prune_collection (\<lambda>f. is_cell_to_cell f (pd_get defn ''devices'' (PDict []))
        (pd_get defn ''zones'' (PDict [])) Ls) (pd_get defn ''flows'' (PDict [])) = Inr (nf, rf)"
    "prune_collection (\<lambda>c. is_cell_to_cell_conduit c (pd_get defn ''zones'' (PDict [])) Ls)
        (pd_get defn ''conduits'' (PDict [])) = Inr (nc, rc)"
    "r = \<lparr>new_definition =
            dset ''cell_isolation''
              (PDict [(''mode'', PStr MODE_STRICT_NORTHBOUND),
                      (''applies_to_levels'', PList (map PInt (sort Ls)))])
              (dset ''conduits'' nc (dset ''flows'' nf defn)),
          removed_flows = rf, removed_conduits = rc\<rparr>"
  using assms by (auto simp: prune_for_strict_northbound_def Let_def split: bnd_splits)

lemma parse_config_strict:
  assumes "distinct levels" and "levels \<noteq> []"
    and "map_of d ''cell_isolation'' = Some (PDict [(''mode'', PStr MODE_STRICT_NORTHBOUND),
            (''applies_to_levels'', PList (map PInt levels))])"
  shows "parse_config (PDict d) = Inr \<lparr>iso_mode = MODE_STRICT_NORTHBOUND, iso_levels = levels\<rparr>"
proof -
  have "d \<noteq> []" using assms(3) by auto
  then show ?thesis
    using assms by (simp add: parse_config_def py_or_def valid_mode_def VALID_MODES_def foldM_add_level)
qed

section \<open>The properties\<close>

text \<open>A small plant: two cells at level 1 with one PLC each and a control centre at level 3.\<close>

definition demo_device :: "string \<Rightarrow> pyval" where
  "demo_device z = PDict [(''zoneId'', PStr z)]"

definition demo_flow :: "string \<Rightarrow> string \<Rightarrow> pyval" where
  "demo_flow a b = PDict [(''sourceDeviceId'', PStr a), (''targetDeviceId'', PStr b),
     (''protocol'', PStr ''modbus'')]"

definition demo_devices :: pyval where
  "demo_devices = PDict [(''plc1'', demo_device ''c1''), (''plc2'', demo_device ''c2''),
     (''scada'', demo_device ''cc'')]"

definition demo_zones :: pyval where
  "demo_zones = PDict [(''c1'', PDict [(''level'', PInt 1)]), (''c2'', PDict [(''level'', PInt 1)]),
     (''cc'', PDict [(''level'', PInt 3)])]"

definition demo_conduits :: pyval where
  "demo_conduits = PDict [(''k1'', PDict [(''sourceZoneId'', PStr ''c1''),
     (''targetZoneId'', PStr ''cc''), (''allowedProtocols'', PList [PStr ''modbus_tcp''])])]"

definition demo_plant :: pydict where
  "demo_plant = [(''devices'', demo_devices), (''zones'', demo_zones),
     (''flows'', PDict [(''east_west'', demo_flow ''plc1'' ''plc2''),
                        (''north'', demo_flow ''plc1'' ''scada'')]),
     (''conduits'', demo_conduits)]"

lemmas place_defs =
  flow_source_def flow_target_def zone_of_def olookup_def ofind_def check_hash_def py_or_def oitems_def

lemmas demo_defs =
  demo_plant_def demo_devices_def demo_zones_def demo_conduits_def demo_flow_def demo_device_def

text \<open>Evaluated once, for the witnesses.\<close>

lemma zone_level_PInt:
  assumes "map_of d ''level'' = Some (PInt n)" and "\<bar>n\<bar> < 9007199254740992"
  shows "zone_level (PDict d) = Inr (Some n)"
  using assms int_of_float_of_int [OF assms(2)] by (simp add: zone_level_def)

lemma demo_cells:
  "cell_ids [(PStr ''c1'', PDict [(''level'', PInt 1)]), (PStr ''c2'', PDict [(''level'', PInt 1)]),
     (PStr ''cc'', PDict [(''level'', PInt 3)])] [0, 1, 2] = Inr [PStr ''c1'', PStr ''c2'']"
  by (simp add: zone_level_PInt)

lemma demo_east_west:
  "is_cell_to_cell (demo_flow ''plc1'' ''plc2'') demo_devices demo_zones [0, 1, 2] = Inr True"
  by (simp add: is_cell_to_cell_def place_defs demo_defs demo_cells del: cell_ids.simps cong: bnd_weak_cong)

lemma demo_north:
  "is_cell_to_cell (demo_flow ''plc1'' ''scada'') demo_devices demo_zones [0, 1, 2] = Inr False"
  by (simp add: is_cell_to_cell_def place_defs demo_defs demo_cells del: cell_ids.simps cong: bnd_weak_cong)

lemma demo_prune:
  "\<exists>d. prune_for_strict_northbound demo_plant [0, 1, 2] =
     Inr \<lparr>new_definition = d, removed_flows = [PStr ''east_west''], removed_conduits = []\<rparr>"
proof -
  have "is_cell_to_cell_conduit (PDict [(''sourceZoneId'', PStr ''c1''), (''targetZoneId'', PStr ''cc''),
      (''allowedProtocols'', PList [PStr ''modbus_tcp''])]) demo_zones [0, 1, 2] = Inr False"
    by (simp add: is_cell_to_cell_conduit_def place_defs demo_zones_def demo_cells del: cell_ids.simps cong: bnd_weak_cong)
  then show ?thesis
    using demo_east_west demo_north
    by (simp add: prune_for_strict_northbound_def demo_plant_def demo_conduits_def pd_get_def set_add_def)
qed

text \<open>
  C3: In strict northbound mode the run-time gate drops exactly the flows that the editor
  counts as cell-to-cell traffic, whatever the shape of the definition and including every
  flow whose placement raises.
\<close>

theorem strict_gate_iff_cell_to_cell:
  assumes "L \<noteq> []"
  shows "(\<exists>why. should_drop_flow f ds zs cs
              \<lparr>iso_mode = MODE_STRICT_NORTHBOUND, iso_levels = L\<rparr> = Inr (True, why))
         \<longleftrightarrow> is_cell_to_cell f ds zs L = Inr True"
  using assms strict_drop_imp_cell_to_cell cell_to_cell_imp_strict_drop by blast

theorem strict_gate_iff_cell_to_cell_witness:
  "(\<exists>why. should_drop_flow (demo_flow ''plc1'' ''plc2'') demo_devices demo_zones demo_conduits
      \<lparr>iso_mode = MODE_STRICT_NORTHBOUND, iso_levels = [0, 1, 2]\<rparr> = Inr (True, why))
   \<and> \<not> (\<exists>why. should_drop_flow (demo_flow ''plc1'' ''scada'') demo_devices demo_zones demo_conduits
      \<lparr>iso_mode = MODE_STRICT_NORTHBOUND, iso_levels = [0, 1, 2]\<rparr> = Inr (True, why))"
  using strict_gate_iff_cell_to_cell [of "[0, 1, 2]"] demo_east_west demo_north by simp

text \<open>
  In conduit-gated mode the gate only drops cell-to-cell flows, and only when every
  conduit of the definition, examined in order, refuses the flow: a gated drop is always a
  strict drop, and the logged reason names the flow's protocol and its two zones.
\<close>

theorem gated_drop_sound:
  assumes "L \<noteq> []"
    and "should_drop_flow f ds zs cs \<lparr>iso_mode = MODE_CONDUIT_GATED, iso_levels = L\<rparr> = Inr (True, why)"
  shows "is_cell_to_cell f ds zs L = Inr True
    \<and> (\<exists>p s t. why = Some (NoConduitPermits p s t)
         \<and> (\<forall>c \<in> set (normalize_conduits cs). conduit_permits c s t p = Inr False))"
  using assms(2)
  by (auto simp: should_drop_gated_placed [OF assms(1)] is_cell_to_cell_placed
      any_permits_False split: bnd_splits option.splits if_splits)

theorem gated_drop_sound_witness:
  "should_drop_flow (demo_flow ''plc1'' ''plc2'') demo_devices demo_zones demo_conduits
      \<lparr>iso_mode = MODE_CONDUIT_GATED, iso_levels = [0, 1, 2]\<rparr>
     = Inr (True, Some (NoConduitPermits (PStr ''modbus'') (PStr ''c1'') (PStr ''c2'')))
   \<and> is_cell_to_cell (demo_flow ''plc1'' ''plc2'') demo_devices demo_zones [0, 1, 2] = Inr True"
proof -
  have d: "should_drop_flow (demo_flow ''plc1'' ''plc2'') demo_devices demo_zones demo_conduits
      \<lparr>iso_mode = MODE_CONDUIT_GATED, iso_levels = [0, 1, 2]\<rparr>
     = Inr (True, Some (NoConduitPermits (PStr ''modbus'') (PStr ''c1'') (PStr ''c2'')))"
    by (simp add: should_drop_flow_def place_defs demo_defs demo_cells conduit_permits_def Let_def
        del: cell_ids.simps cong: bnd_weak_cong if_weak_cong)
  show ?thesis using gated_drop_sound [OF _ d] d by simp
qed

text \<open>
  C4: After \<open>prune_for_strict_northbound\<close> with a non-empty set of cell levels, the new
  definition parses as strict northbound with exactly those levels, and the run-time gate
  configured by it drops none of the flows that are left.
\<close>

theorem prune_then_gate:
  assumes "prune_for_strict_northbound defn L = Inr r" and "L \<noteq> []"
  defines "new \<equiv> new_definition r"
  shows "\<exists>levels. parse_config (PDict new) = Inr \<lparr>iso_mode = MODE_STRICT_NORTHBOUND, iso_levels = levels\<rparr>
      \<and> set levels = set L
      \<and> (\<forall>f \<in> set (members (pd_get new ''flows'' (PDict []))). \<forall>b why.
           should_drop_flow f (pd_get new ''devices'' (PDict [])) (pd_get new ''zones'' (PDict []))
             (pd_get new ''conduits'' (PDict [])) \<lparr>iso_mode = MODE_STRICT_NORTHBOUND, iso_levels = levels\<rparr>
           = Inr (b, why) \<longrightarrow> \<not> b)"
proof -
  let ?Ls = "foldl (\<lambda>s x. set_add x s) [] L"
  obtain nf rf nc rc where
    flows: "prune_collection (\<lambda>f. is_cell_to_cell f (pd_get defn ''devices'' (PDict []))
        (pd_get defn ''zones'' (PDict [])) ?Ls) (pd_get defn ''flows'' (PDict [])) = Inr (nf, rf)"
    and r: "new = dset ''cell_isolation''
              (PDict [(''mode'', PStr MODE_STRICT_NORTHBOUND),
                      (''applies_to_levels'', PList (map PInt (sort ?Ls)))])
              (dset ''conduits'' nc (dset ''flows'' nf defn))"
    unfolding new_def by (rule prune_def [OF assms(1)]) simp
  have set: "set (sort ?Ls) = set L" "distinct (sort ?Ls)"
    using set_levels [of "[]" L] distinct_levels [of "[]" L] by simp_all
  then have ne: "sort ?Ls \<noteq> []" using assms(2) by (metis set_empty)
  have "\<not> b" if f: "f \<in> set (members (pd_get new ''flows'' (PDict [])))"
    and d: "should_drop_flow f (pd_get new ''devices'' (PDict [])) (pd_get new ''zones'' (PDict []))
             (pd_get new ''conduits'' (PDict [])) \<lparr>iso_mode = MODE_STRICT_NORTHBOUND, iso_levels = sort ?Ls\<rparr>
           = Inr (b, why)" for f b why
  proof -
    have "is_cell_to_cell f (pd_get defn ''devices'' (PDict [])) (pd_get defn ''zones'' (PDict [])) ?Ls = Inr False"
      using f by (intro prune_collection_kept [OF flows]) (simp add: r)
    moreover have "is_cell_to_cell f (pd_get defn ''devices'' (PDict [])) (pd_get defn ''zones'' (PDict [])) (sort ?Ls) = Inr b"
      using strict_drop_imp_cell_to_cell [OF ne d] by (simp add: r)
    ultimately show ?thesis
      using is_cell_to_cell_cong [of "sort ?Ls" ?Ls] by simp
  qed
  moreover have "parse_config (PDict new) = Inr \<lparr>iso_mode = MODE_STRICT_NORTHBOUND, iso_levels = sort ?Ls\<rparr>"
    using set(2) ne by (intro parse_config_strict) (simp_all add: r update_conv)
  ultimately show ?thesis using set(1) by blast
qed

theorem prune_then_gate_witness:
  "\<exists>r. prune_for_strict_northbound demo_plant [0, 1, 2] = Inr r
     \<and> removed_flows r = [PStr ''east_west'']
     \<and> (\<exists>levels. parse_config (PDict (new_definition r))
           = Inr \<lparr>iso_mode = MODE_STRICT_NORTHBOUND, iso_levels = levels\<rparr> \<and> set levels = {0, 1, 2})"
proof -
  obtain r where r: "prune_for_strict_northbound demo_plant [0, 1, 2] = Inr r"
     "removed_flows r = [PStr ''east_west'']"
    using demo_prune by auto
  from prune_then_gate [OF r(1)] r show ?thesis by auto
qed

text \<open>
  Pruning is idempotent: a second run with the same levels removes no flow and no
  conduit and returns the definition unchanged.
\<close>

theorem prune_idempotent:
  assumes "prune_for_strict_northbound defn L = Inr r"
  shows "prune_for_strict_northbound (new_definition r) L =
     Inr \<lparr>new_definition = new_definition r, removed_flows = [], removed_conduits = []\<rparr>"
proof (rule prune_def [OF assms])
  fix nf rf nc rc
  let ?Ls = "foldl (\<lambda>s x. set_add x s) [] L"
  assume f: "prune_collection (\<lambda>f. is_cell_to_cell f (pd_get defn ''devices'' (PDict []))
        (pd_get defn ''zones'' (PDict [])) ?Ls) (pd_get defn ''flows'' (PDict [])) = Inr (nf, rf)"
    and c: "prune_collection (\<lambda>c. is_cell_to_cell_conduit c (pd_get defn ''zones'' (PDict [])) ?Ls)
        (pd_get defn ''conduits'' (PDict [])) = Inr (nc, rc)"
    and r: "r = \<lparr>new_definition =
            dset ''cell_isolation''
              (PDict [(''mode'', PStr MODE_STRICT_NORTHBOUND),
                      (''applies_to_levels'', PList (map PInt (sort ?Ls)))])
              (dset ''conduits'' nc (dset ''flows'' nf defn)),
          removed_flows = rf, removed_conduits = rc\<rparr>"
  show ?thesis
    unfolding prune_for_strict_northbound_def Let_def r
    by (simp add: prune_collection_again [OF f] prune_collection_again [OF c] dset_dset_same update_conv)
qed

theorem prune_idempotent_witness:
  "\<exists>r. prune_for_strict_northbound demo_plant [0, 1, 2] = Inr r
     \<and> prune_for_strict_northbound (new_definition r) [0, 1, 2]
         = Inr \<lparr>new_definition = new_definition r, removed_flows = [], removed_conduits = []\<rparr>"
proof -
  obtain r where "prune_for_strict_northbound demo_plant [0, 1, 2] = Inr r"
    using demo_prune by auto
  with prune_idempotent [OF this] show ?thesis by blast
qed

end
