(* ===== verification/FloatOps.thy ===== *)
theory FloatOps
  imports Complex_Main PyFloat
begin

text \<open>
  Arithmetic on Python floats: the exact result of an operation on two finite floats is rounded
  to the nearest binary64 value, ties to even; infinities and NaN follow IEEE 754, and a division
  by zero raises.  \<open>py_min\<close> and \<open>py_max\<close> are the built-ins \<open>min(x, y)\<close> and \<open>max(x, y)\<close>,
  which keep the first argument unless the second one compares smaller or greater.
\<close>

section \<open>Literals\<close>

definition float_of_nat :: "nat \<Rightarrow> pyfloat" where
  "float_of_nat n = Fin False n 0"

section \<open>Operations\<close>

fun fneg :: "pyfloat \<Rightarrow> pyfloat" where
  "fneg FNan = FNan"
| "fneg (FInf s) = FInf (\<not> s)"
| "fneg (Fin s m e) = Fin (\<not> s) m e"

definition f64_scaled :: "bool \<Rightarrow> nat \<Rightarrow> int \<Rightarrow> pyfloat" where
  "f64_scaled s m k = (if k < 0 then f64_of_ratio s m (2 ^ nat (- k)) else f64_of_ratio s (m * 2 ^ nat k) 1)"

fun fadd :: "pyfloat \<Rightarrow> pyfloat \<Rightarrow> pyfloat" where
  "fadd FNan y = FNan"
| "fadd x FNan = FNan"
| "fadd (FInf s) (FInf t) = (if s = t then FInf s else FNan)"
| "fadd (FInf s) (Fin t n d) = FInf s"
| "fadd (Fin s m e) (FInf t) = FInf t"
| "fadd (Fin s m e) (Fin t n d) =
     (let k = min e d; v = scaled_int s m e k + scaled_int t n d k
      in if v = 0 then Fin (s \<and> t) 0 (- 1074) else f64_scaled (v < 0) (nat \<bar>v\<bar>) k)"

definition fsub :: "pyfloat \<Rightarrow> pyfloat \<Rightarrow> pyfloat" where
  "fsub x y = fadd x (fneg y)"

fun is_zero :: "pyfloat \<Rightarrow> bool" where
  "is_zero (Fin s m e) = (m = 0)"
| "is_zero x = False"

fun fmul :: "pyfloat \<Rightarrow> pyfloat \<Rightarrow> pyfloat" where
  "fmul FNan y = FNan"
| "fmul x FNan = FNan"
| "fmul (FInf s) (FInf t) = FInf (s \<noteq> t)"
| "fmul (FInf s) (Fin t n d) = (if n = 0 then FNan else FInf (s \<noteq> t))"
| "fmul (Fin s m e) (FInf t) = (if m = 0 then FNan else FInf (s \<noteq> t))"
| "fmul (Fin s m e) (Fin t n d) = f64_scaled (s \<noteq> t) (m * n) (e + d)"

fun fquot :: "pyfloat \<Rightarrow> pyfloat \<Rightarrow> pyfloat" where
  "fquot FNan y = FNan"
| "fquot x FNan = FNan"
| "fquot (FInf s) (FInf t) = FNan"
| "fquot (FInf s) (Fin t n d) = FInf (s \<noteq> t)"
| "fquot (Fin s m e) (FInf t) = Fin (s \<noteq> t) 0 (- 1074)"
| "fquot (Fin s m e) (Fin t n d) =
     (if e < d then f64_of_ratio (s \<noteq> t) m (n * 2 ^ nat (d - e))
      else f64_of_ratio (s \<noteq> t) (m * 2 ^ nat (e - d)) n)"

definition py_div :: "pyfloat \<Rightarrow> pyfloat \<Rightarrow> pyfloat res" where
  "py_div x y = (if is_zero y then Inl ZeroDivisionError else Inr (fquot x y))"

definition py_min :: "pyfloat \<Rightarrow> pyfloat \<Rightarrow> pyfloat" where
  "py_min x y = (if y < x then y else x)"

definition py_max :: "pyfloat \<Rightarrow> pyfloat \<Rightarrow> pyfloat" where
  "py_max x y = (if x < y then y else x)"

section \<open>Clamping\<close>

lemma float_lt_irrefl: "\<not> float_lt x x"
  by (cases x) simp_all

lemma float_lt_asym: "float_lt x y \<Longrightarrow> \<not> float_lt y x"
  by (cases x; cases y) (auto simp: Let_def min.commute simp del: scaled_int.simps)

lemma float_le_refl: "x \<noteq> FNan \<Longrightarrow> (x :: pyfloat) \<le> x"
  by (simp add: less_eq_pyfloat_def float_lt_irrefl)

lemma float_less_le: "(x :: pyfloat) < y \<Longrightarrow> \<not> float_lt y x \<Longrightarrow> x \<le> y"
  by (cases x; cases y) (auto simp: less_pyfloat_def less_eq_pyfloat_def)

lemma float_less_not_nan: "(x :: pyfloat) < y \<Longrightarrow> x \<noteq> FNan \<and> y \<noteq> FNan"
  by (cases x; cases y) (auto simp: less_pyfloat_def)

definition in_bounds :: "pyfloat \<Rightarrow> pyfloat \<Rightarrow> pyfloat \<Rightarrow> bool" where
  "in_bounds lo hi x \<longleftrightarrow> lo \<le> x \<and> x \<le> hi"

text \<open>A clamped value lies between the bounds, even when NaN or an infinity is clamped.\<close>

lemma clamp_within: "lo \<le> hi \<Longrightarrow> in_bounds lo hi (py_max lo (py_min hi x))"
  unfolding in_bounds_def py_max_def py_min_def less_pyfloat_def less_eq_pyfloat_def
  by (cases "float_lt x hi")
    (auto simp: float_lt_irrefl float_lt_asym less_pyfloat_def dest: float_less_not_nan [unfolded less_pyfloat_def])

section \<open>When a sum is not zero\<close>

text \<open>Exponents of binary64 values are at least \<open>-1074\<close>; the operations keep it so.\<close>

fun f_valid :: "pyfloat \<Rightarrow> bool" where
  "f_valid (Fin s m e) = (- 1074 \<le> e)"
| "f_valid x = True"

lemma f64_of_ratio_valid: "f_valid (f64_of_ratio s num den)"
proof -
  have "- 1074 \<le> max (ilog2 num den - 52) (- 1074 :: int)" by simp
  then show ?thesis
    unfolding f64_of_ratio_def round_bin_def Let_def
    by (auto simp del: max.bounded_iff max.cobounded2)
qed


lemma f64_scaled_valid: "f_valid (f64_scaled s m k)"
  by (simp add: f64_scaled_def f64_of_ratio_valid)

lemma fadd_valid: "f_valid (fadd x y)"
  by (cases "(x, y)" rule: fadd.cases) (simp_all add: Let_def f64_scaled_valid)

lemma fmul_valid: "f_valid (fmul x y)"
  by (cases "(x, y)" rule: fmul.cases) (simp_all add: f64_scaled_valid)

lemma fquot_valid: "f_valid (fquot x y)"
  by (cases "(x, y)" rule: fquot.cases) (simp_all add: f64_of_ratio_valid)

lemma py_div_valid: "py_div x y = Inr z \<Longrightarrow> f_valid z"
  by (auto simp: py_div_def fquot_valid split: if_splits)

lemma rne_pos: "0 < den \<Longrightarrow> den \<le> num \<Longrightarrow> 0 < rne num den"
  by (simp add: rne_def Let_def div_greater_zero_iff)

lemma scaled_le_iff:
  "scaled_den den e \<le> scaled_num num e \<longleftrightarrow> real den * 2 powi e \<le> real num"
proof (cases "e < 0")
  case True
  then have "2 powi e = inverse ((2::real) ^ nat (- e))"
    by (simp add: power_int_def power_one_over inverse_eq_divide)
  moreover have "den \<le> num * 2 ^ nat (- e) \<longleftrightarrow> real den \<le> real num * 2 ^ nat (- e)"
    by (metis of_nat_le_iff of_nat_mult of_nat_numeral of_nat_power)
  moreover have "real den * inverse (2 ^ nat (- e)) \<le> real num \<longleftrightarrow> real den \<le> real num * 2 ^ nat (- e)"
    by (simp add: field_simps)
  ultimately show ?thesis
    using True by (simp only: scaled_num_def scaled_den_def if_True)
next
  case False
  then have "2 powi e = (2::real) ^ nat e"
    by (simp add: power_int_def)
  moreover have "den * 2 ^ nat e \<le> num \<longleftrightarrow> real den * 2 ^ nat e \<le> real num"
    by (metis of_nat_le_iff of_nat_mult of_nat_numeral of_nat_power)
  ultimately show ?thesis
    using False by (simp add: scaled_num_def scaled_den_def)
qed

lemma ilog2_le:
  assumes "0 < num" and "0 < den"
  shows "real den * 2 powi ilog2 num den \<le> real num"
proof (cases "scaled_den den (int (blen num) - int (blen den)) \<le> scaled_num num (int (blen num) - int (blen den))")
  case True
  then show ?thesis by (simp add: ilog2_def scaled_le_iff)
next
  case False
  obtain a where a: "blen num = Suc a" "2 ^ a \<le> num"
    using blen_bounds [OF assms(1)] by (cases "blen num") auto
  have d: "den < 2 ^ blen den" using blen_bounds [OF assms(2)] by simp
  have il: "ilog2 num den = int a - int (blen den)"
    using False a by (simp add: ilog2_def)
  have "real den * 2 powi ilog2 num den \<le> 2 ^ blen den * 2 powi (int a - int (blen den))"
    unfolding il using d by (intro mult_right_mono) (metis less_imp_le of_nat_less_iff of_nat_numeral of_nat_power, simp)
  also have "\<dots> = 2 ^ a"
    by (simp add: power_int_diff)
  also have "\<dots> \<le> real num"
    using a(2) by (metis of_nat_le_iff of_nat_numeral of_nat_power)
  finally show ?thesis .
qed

lemma f64_of_ratio_nonzero:
  assumes "0 < num" and "0 < den" and "den \<le> num * 2 ^ 1074"
  shows "\<not> is_zero (f64_of_ratio s num den)"
proof -
  define e where "e = max (ilog2 num den - int 53 + 1) (- 1074)"
  have "real den * 2 powi e \<le> real num"
  proof (cases "e = - 1074")
    case True
    have "scaled_den den (- 1074) \<le> scaled_num num (- 1074)"
      using assms(3) by (simp add: scaled_den_def scaled_num_def)
    with True show ?thesis by (simp only: scaled_le_iff)
  next
    case False
    then have "e \<le> ilog2 num den" by (auto simp: e_def)
    then have "(2::real) powi e \<le> 2 powi ilog2 num den"
      by (intro power_int_increasing) auto
    then have "real den * 2 powi e \<le> real den * 2 powi ilog2 num den"
      by (intro mult_left_mono) auto
    with ilog2_le [OF assms(1,2)] show ?thesis by linarith
  qed
  then have "scaled_den den e \<le> scaled_num num e" by (simp only: scaled_le_iff)
  moreover have "0 < scaled_den den e" using assms(2) by (simp add: scaled_den_def)
  ultimately have "0 < rne (scaled_num num e) (scaled_den den e)" by (intro rne_pos)
  then show ?thesis
    using assms(1) unfolding f64_of_ratio_def round_bin_def Let_def e_def [symmetric] by auto
qed

lemma f64_scaled_nonzero: "0 < m \<Longrightarrow> - 1074 \<le> k \<Longrightarrow> \<not> is_zero (f64_scaled s m k)"
proof (cases "k < 0")
  case True
  assume "0 < m" "- 1074 \<le> k"
  then have "(2::nat) ^ nat (- k) \<le> 2 ^ 1074" by (intro power_increasing) auto
  also have "\<dots> \<le> m * 2 ^ 1074" using \<open>0 < m\<close> by simp
  finally have "(2::nat) ^ nat (- k) \<le> m * 2 ^ 1074" .
  from f64_of_ratio_nonzero [OF \<open>0 < m\<close> _ this] True show ?thesis
    by (simp add: f64_scaled_def)
next
  case False
  assume "0 < m" "- 1074 \<le> k"
  then have "1 \<le> m * 2 ^ nat k * 2 ^ 1074" by simp
  from f64_of_ratio_nonzero [OF _ _ this] False \<open>0 < m\<close> show ?thesis
    by (simp add: f64_scaled_def)
qed

lemma fadd_pos_nonzero:
  assumes "float_of_nat 0 < x" and "\<not> y \<le> float_of_nat 0" and "f_valid x" and "f_valid y"
  shows "\<not> is_zero (fadd x y)"
proof (cases x)
  case x: (Fin s m e)
  show ?thesis
  proof (cases y)
    case y: (Fin t n d)
    have sm: "\<not> s" "0 < m"
      using assms(1) x by (auto simp: less_pyfloat_def float_of_nat_def Let_def zero_less_mult_iff split: if_splits)
    have tn: "\<not> t" "0 < n"
      using assms(2) y by (auto simp: less_eq_pyfloat_def float_of_nat_def Let_def zero_less_mult_iff split: if_splits)
    have "0 < scaled_int s m e (min e d) + scaled_int t n d (min e d)"
      using sm tn by (simp add: add_pos_pos)
    moreover from this have "0 < nat \<bar>scaled_int s m e (min e d) + scaled_int t n d (min e d)\<bar>"
      by linarith
    moreover have "- 1074 \<le> min e d" using assms(3,4) x y by simp
    ultimately show ?thesis
      using f64_scaled_nonzero by (simp add: x y Let_def del: scaled_int.simps)
  qed (use x in simp_all)
qed (use assms in \<open>cases y; simp\<close>)+

end
