(* ===== verification/Heapq.thy ===== *)
theory Heapq
  imports Prelude "HOL-Library.Multiset"
begin

text \<open>
  The binary heap of Python's \<open>heapq\<close> module, as \<open>heappush\<close> and \<open>heappop\<close> work on a
  list, and the interface \<open>event_queue\<close> that its clients rely on.

  The algorithms are generic over the \<open><\<close> of the elements.  As in Python, \<open>siftdown\<close> moves a
  hole towards the root and fills it at the end, and \<open>siftup\<close> moves the hole down to a leaf
  before it lets the element rise again.
\<close>

section \<open>The algorithms\<close>

fun sift_rise :: "('a \<Rightarrow> 'a \<Rightarrow> bool) \<Rightarrow> 'a \<Rightarrow> nat \<Rightarrow> 'a list \<Rightarrow> nat \<Rightarrow> 'a list \<times> nat" where
  "sift_rise lt newitem startpos h pos =
     (if startpos < pos then
        let parentpos = (pos - 1) div 2; parent = h ! parentpos
        in if lt newitem parent then sift_rise lt newitem startpos (h[pos := parent]) parentpos
           else (h, pos)
      else (h, pos))"

declare sift_rise.simps [simp del]

definition siftdown :: "('a \<Rightarrow> 'a \<Rightarrow> bool) \<Rightarrow> 'a list \<Rightarrow> nat \<Rightarrow> nat \<Rightarrow> 'a list" where
  "siftdown lt h startpos pos =
     (let newitem = h ! pos; (h', pos') = sift_rise lt newitem startpos h pos
      in h'[pos' := newitem])"

definition smaller_child :: "('a \<Rightarrow> 'a \<Rightarrow> bool) \<Rightarrow> 'a list \<Rightarrow> nat \<Rightarrow> nat" where
  "smaller_child lt h childpos =
     (let rightpos = childpos + 1
      in if rightpos < length h \<and> \<not> lt (h ! childpos) (h ! rightpos) then rightpos else childpos)"

function sift_sink :: "('a \<Rightarrow> 'a \<Rightarrow> bool) \<Rightarrow> 'a list \<Rightarrow> nat \<Rightarrow> 'a list \<times> nat" where
  "sift_sink lt h pos =
     (let childpos = 2 * pos + 1
      in if childpos < length h then
           (let c = smaller_child lt h childpos in sift_sink lt (h[pos := h ! c]) c)
         else (h, pos))"
  by pat_completeness auto
termination
  by (relation "measure (\<lambda>(lt, h, pos). length h - pos)") (auto simp: smaller_child_def Let_def)

declare sift_sink.simps [simp del]

definition siftup :: "('a \<Rightarrow> 'a \<Rightarrow> bool) \<Rightarrow> 'a list \<Rightarrow> nat \<Rightarrow> 'a list" where
  "siftup lt h pos =
     (let newitem = h ! pos; (h', pos') = sift_sink lt h pos
      in siftdown lt (h'[pos' := newitem]) pos pos')"

definition heappush :: "('a \<Rightarrow> 'a \<Rightarrow> bool) \<Rightarrow> 'a list \<Rightarrow> 'a \<Rightarrow> 'a list" where
  "heappush lt h item = siftdown lt (h @ [item]) 0 (length h)"

text \<open>\<open>heappop\<close> of an empty list raises IndexError, as \<open>heap.pop()\<close> does.\<close>

definition heappop :: "('a \<Rightarrow> 'a \<Rightarrow> bool) \<Rightarrow> 'a list \<Rightarrow> ('a \<times> 'a list) res" where
  "heappop lt h =
     (if h = [] then Inl IndexError
      else let lastelt = last h; h' = butlast h
           in if h' = [] then Inr (lastelt, [])
              else Inr (h' ! 0, siftup lt (h'[0 := lastelt]) 0))"

section \<open>What moves where\<close>

definition parent_of :: "nat \<Rightarrow> nat" where
  "parent_of i = (i - 1) div 2"

lemma parent_less [simp]: "0 < i \<Longrightarrow> parent_of i < i"
  by (simp add: parent_of_def less_eq_Suc_le) 

lemma parent_children: "0 < i \<Longrightarrow> parent_of i = p \<longleftrightarrow> i = 2 * p + 1 \<or> i = 2 * p + 2"
  unfolding parent_of_def by presburger

lemma length_sift_rise: "length (fst (sift_rise lt x s h p)) = length h"
proof (induction lt x s h p rule: sift_rise.induct)
  case (1 lt x s h p)
  then show ?case by (subst sift_rise.simps) (auto simp: Let_def)
qed

lemma length_sift_sink: "length (fst (sift_sink lt h p)) = length h"
proof (induction lt h p rule: sift_sink.induct)
  case (1 lt h p)
  then show ?case by (subst sift_sink.simps) (auto simp: Let_def)
qed

lemma mset_update_swap:
  assumes "i < length h" and "j < length h"
  shows "mset (h[i := h ! j, j := x]) = mset (h[i := x])"
proof (cases "i = j")
  case False
  have *: "h[i := h ! j, j := x] = (h[i := x])[i := h[i := x] ! j, j := h[i := x] ! i]"
    using False assms by (simp add: list_eq_iff_nth_eq nth_list_update)
  show ?thesis
    unfolding * using assms by (intro mset_swap) simp_all
qed simp

lemma mset_sift_rise:
  assumes "p < length h" and "sift_rise lt x s h p = (h', p')"
  shows "p' < length h' \<and> mset (h'[p' := x]) = mset (h[p := x])"
  using assms
proof (induction lt x s h p arbitrary: h' p' rule: sift_rise.induct)
  case (1 lt x s h p)
  show ?case
  proof (cases "s < p \<and> lt x (h ! ((p - 1) div 2))")
    case True
    let ?q = "(p - 1) div 2"
    have q: "?q < length h" using 1(2) by linarith
    have "p' < length h' \<and> mset (h'[p' := x]) = mset (h[p := h ! ?q, ?q := x])"
      using 1(3) True q by (intro "1.IH") (simp_all add: sift_rise.simps [of lt x s h p] Let_def)
    with mset_update_swap [OF 1(2) q, of x] show ?thesis by simp
  next
    case False
    with 1 show ?thesis by (auto simp: sift_rise.simps [of lt x s h p] Let_def split: if_splits)
  qed
qed

lemma child_bounds:
  assumes "2 * p + 1 < length h" and "c = smaller_child lt h (2 * p + 1)"
  shows "c < length h" and "p < c" and "0 < c" and "parent_of c = p"
  using assms by (auto simp: smaller_child_def Let_def parent_of_def)

lemma mset_sift_sink:
  assumes "p < length h" and "sift_sink lt h p = (h', p')"
  shows "p' < length h' \<and> length h' = length h \<and> length h \<le> 2 * p' + 1 \<and> mset (h'[p' := x]) = mset (h[p := x])"
  using assms
proof (induction lt h p arbitrary: h' p' rule: sift_sink.induct)
  case (1 lt h p)
  show ?case
  proof (cases "2 * p + 1 < length h")
    case True
    let ?c = "smaller_child lt h (2 * p + 1)"
    note c = child_bounds [OF True refl, of lt]
    have "p' < length h' \<and> length h' = length (h[p := h ! ?c]) \<and> length (h[p := h ! ?c]) \<le> 2 * p' + 1
        \<and> mset (h'[p' := x]) = mset (h[p := h ! ?c, ?c := x])"
      using 1(3) True c
      by (intro "1.IH" [OF refl True refl]) (simp_all add: sift_sink.simps [of lt h p] Let_def)
    with mset_update_swap [OF 1(2) c(1), of x] show ?thesis by simp
  next
    case False
    with 1 show ?thesis by (auto simp: sift_sink.simps [of lt h p] Let_def)
  qed
qed

lemma mset_siftdown:
  assumes "p < length h"
  shows "mset (siftdown lt h s p) = mset h"
proof -
  obtain h' p' where r: "sift_rise lt (h ! p) s h p = (h', p')"
    by (cases "sift_rise lt (h ! p) s h p")
  show ?thesis
    using mset_sift_rise [OF assms r] by (simp add: siftdown_def r)
qed

lemma length_siftdown [simp]: "length (siftdown lt h s p) = length h"
  by (auto simp: siftdown_def Let_def split_beta length_sift_rise)

lemma mset_siftup:
  assumes "p < length h"
  shows "mset (siftup lt h p) = mset h"
proof -
  obtain h' p' where r: "sift_sink lt h p = (h', p')"
    by (cases "sift_sink lt h p")
  from mset_sift_sink [OF assms r, of "h ! p"] show ?thesis
    by (simp add: siftup_def r mset_siftdown)
qed

lemma mset_heappush: "mset (heappush lt h x) = mset h + {#x#}"
  by (simp add: heappush_def mset_siftdown)

lemma mset_heappop:
  assumes "heappop lt h = Inr (x, h')"
  shows "mset h = mset h' + {#x#}"
proof (cases "butlast h = []")
  case True
  have "h \<noteq> []" using assms by (auto simp: heappop_def)
  then obtain y where "h = [y]" using True by (cases h) (auto split: if_splits)
  with assms show ?thesis by (simp add: heappop_def)
next
  case False
  then have h: "h \<noteq> []" by auto
  from False obtain y ys where b: "butlast h = y # ys" by (cases "butlast h") auto
  have eq: "h = (y # ys) @ [last h]" using append_butlast_last_id [OF h] b by simp
  from assms h b have r: "x = y" "h' = siftup lt (last h # ys) 0"
    by (auto simp: heappop_def Let_def)
  have "mset h' = mset (last h # ys)" unfolding r by (rule mset_siftup) simp
  moreover have "mset h = mset ys + {#y#} + {#last h#}" by (subst eq) simp
  ultimately show ?thesis by (simp add: r)
qed

lemma heappop_total: "h \<noteq> [] \<Longrightarrow> \<exists>x h'. heappop lt h = Inr (x, h')"
  by (auto simp: heappop_def Let_def)

lemma heappop_head: "heappop lt h = Inr (x, h') \<Longrightarrow> h \<noteq> [] \<and> x = h ! 0"
  by (cases h; cases "butlast h") (auto simp: heappop_def Let_def split: if_splits)

section \<open>The order\<close>

text \<open>
  What \<open>heapq\<close> needs of \<open><\<close>: a strict weak order on the elements that are in use.  Python's
  \<open><\<close> on floats is one on the values other than NaN, so the carrier is a predicate.
\<close>

locale weak_order =
  fixes lt :: "'a \<Rightarrow> 'a \<Rightarrow> bool" and ok :: "'a \<Rightarrow> bool"
  assumes lt_asym: "ok a \<Longrightarrow> ok b \<Longrightarrow> lt a b \<Longrightarrow> \<not> lt b a"
    and lt_neg_trans: "ok a \<Longrightarrow> ok b \<Longrightarrow> ok c \<Longrightarrow> lt a c \<Longrightarrow> lt a b \<or> lt b c"

definition heap_inv :: "('a \<Rightarrow> 'a \<Rightarrow> bool) \<Rightarrow> ('a \<Rightarrow> bool) \<Rightarrow> 'a list \<Rightarrow> bool" where
  "heap_inv lt ok h \<longleftrightarrow>
     (\<forall>x \<in> set h. ok x) \<and> (\<forall>i. 0 < i \<and> i < length h \<longrightarrow> \<not> lt (h ! i) (h ! parent_of i))"

text \<open>
  The heap order with a hole at \<open>p\<close>: everywhere except from \<open>p\<close> to its parent (while the
  element rises) or except around \<open>p\<close> (while the hole sinks), with the children of \<open>p\<close> above
  its parent.
\<close>

definition rise_inv :: "('a \<Rightarrow> 'a \<Rightarrow> bool) \<Rightarrow> 'a list \<Rightarrow> nat \<Rightarrow> bool" where
  "rise_inv lt v p \<longleftrightarrow>
     (\<forall>i. 0 < i \<and> i < length v \<and> i \<noteq> p \<longrightarrow> \<not> lt (v ! i) (v ! parent_of i))
     \<and> (\<forall>i. 0 < p \<and> 0 < i \<and> i < length v \<and> parent_of i = p \<longrightarrow> \<not> lt (v ! i) (v ! parent_of p))"

definition sink_inv :: "('a \<Rightarrow> 'a \<Rightarrow> bool) \<Rightarrow> 'a list \<Rightarrow> nat \<Rightarrow> bool" where
  "sink_inv lt v p \<longleftrightarrow>
     (\<forall>i. 0 < i \<and> i < length v \<and> i \<noteq> p \<and> parent_of i \<noteq> p \<longrightarrow> \<not> lt (v ! i) (v ! parent_of i))
     \<and> (\<forall>i. 0 < p \<and> 0 < i \<and> i < length v \<and> parent_of i = p \<longrightarrow> \<not> lt (v ! i) (v ! parent_of p))"

context weak_order begin

lemma lt_irrefl: "ok a \<Longrightarrow> \<not> lt a a"
  using lt_asym by blast

lemma le_trans: "ok a \<Longrightarrow> ok b \<Longrightarrow> ok c \<Longrightarrow> \<not> lt b a \<Longrightarrow> \<not> lt c b \<Longrightarrow> \<not> lt c a"
  using lt_neg_trans by blast

lemma rise_step:
  assumes inv: "rise_inv lt (h[p := x]) p" and ok: "\<forall>y \<in> set (h[p := x]). ok y"
    and p: "0 < p" "p < length h" and lt: "lt x (h ! parent_of p)"
  shows "rise_inv lt (h[p := h ! parent_of p, parent_of p := x]) (parent_of p)"
proof -
  let ?q = "parent_of p" and ?v = "h[p := x]"
  let ?w = "h[p := h ! parent_of p, parent_of p := x]"
  have q: "?q < length h" "?q \<noteq> p" using p parent_less [of p] by linarith+
  have okv: "ok (?v ! i)" if "i < length h" for i
    using ok that nth_mem [of i ?v] by simp
  have a: "\<not> lt (?v ! i) (?v ! parent_of i)" if "0 < i" "i < length h" "i \<noteq> p" for i
    using inv that by (auto simp: rise_inv_def)
  have b: "\<not> lt (?v ! i) (?v ! ?q)" if "0 < i" "i < length h" "parent_of i = p" for i
    using inv p that by (auto simp: rise_inv_def)
  have okx: "ok x" using okv [of p] p by simp
  have vq: "?v ! ?q = h ! ?q" using q by simp
  have okq: "ok (h ! ?q)" using okv [of ?q] q vq by simp
  have le: "\<not> lt (h ! ?q) x" using lt_asym [OF okx okq lt] .
  have 1: "\<not> lt (?w ! i) (?w ! parent_of i)" if i: "0 < i" "i < length h" "i \<noteq> ?q" for i
  proof (cases "i = p")
    case True
    with q p le show ?thesis by simp
  next
    case False
    note ai = a [OF i(1,2) False]
    consider "parent_of i = p" | "parent_of i = ?q" | "parent_of i \<noteq> p" "parent_of i \<noteq> ?q" by blast
    then show ?thesis
    proof cases
      case 1
      with b [OF i(1,2) 1] False i q p vq show ?thesis by simp
    next
      case 2
      have "\<not> lt (?v ! i) x"
        using le_trans [OF okx okq okv [OF i(2)] le] ai 2 vq by simp
      with 2 False i q p show ?thesis by simp
    next
      case 3
      with ai False i show ?thesis by simp
    qed
  qed
  have 2: "\<not> lt (?w ! i) (?w ! parent_of ?q)" if i: "0 < ?q" "0 < i" "i < length h" "parent_of i = ?q" for i
  proof -
    have r: "parent_of ?q < ?q" using i(1) by simp
    then have r': "parent_of ?q \<noteq> p" "parent_of ?q \<noteq> ?q" using parent_less [OF p(1)] by linarith+
    have qr: "\<not> lt (h ! ?q) (h ! parent_of ?q)"
      using a [OF i(1) q] r' q by simp
    have iq: "i \<noteq> ?q" using i parent_less [of i] by auto
    show ?thesis
    proof (cases "i = p")
      case True
      with qr r' q p show ?thesis by simp
    next
      case False
      have hi: "\<not> lt (h ! i) (h ! ?q)" using a [OF i(2,3) False] False i(4) q by simp
      have "ok (h ! i)" "ok (h ! parent_of ?q)"
        using okv [OF i(3)] okv [of "parent_of ?q"] False r' r q by simp_all
      with le_trans [OF _ okq _ qr hi] have "\<not> lt (h ! i) (h ! parent_of ?q)" by blast
      with False iq r' show ?thesis by simp
    qed
  qed
  show ?thesis unfolding rise_inv_def using 1 2 by simp
qed

lemma rise_done:
  assumes "rise_inv lt v p" and "p = 0 \<or> \<not> lt (v ! p) (v ! parent_of p)" and "\<forall>y \<in> set v. ok y"
  shows "heap_inv lt ok v"
  using assms by (auto simp: rise_inv_def heap_inv_def)

lemma sift_rise_heap:
  assumes "rise_inv lt (h[p := x]) p" and "\<forall>y \<in> set (h[p := x]). ok y" and "p < length h"
    and "sift_rise lt x 0 h p = (h', p')"
  shows "heap_inv lt ok (h'[p' := x])"
  using assms
proof (induction p arbitrary: h rule: less_induct)
  case (less p)
  show ?case
  proof (cases "0 < p \<and> lt x (h ! parent_of p)")
    case True
    have q: "parent_of p < length h" "parent_of p < p" "parent_of p \<noteq> p"
      using True less.prems(3) parent_less [of p] by linarith+
    have "ok x" using less.prems(2,3) nth_mem [of p "h[p := x]"] by simp
    moreover have "ok (h ! parent_of p)"
      using less.prems(2) q nth_mem [of "parent_of p" "h[p := x]"] by simp
    moreover have "ok y" if "y \<in> set h" "y \<noteq> h ! p" for y
    proof -
      from that obtain i where i: "i < length h" "y = h ! i" by (auto simp: in_set_conv_nth)
      with that have "i \<noteq> p" by auto
      then show ?thesis using less.prems(2) i nth_mem [of i "h[p := x]"] by simp
    qed
    ultimately have "\<forall>y \<in> set (h[p := h ! parent_of p, parent_of p := x]). ok y"
      using less.prems(2) by (metis mset_update_swap less.prems(3) q(1) set_mset_mset)
    then show ?thesis
      using less.IH [OF q(2), of "h[p := h ! parent_of p]"] rise_step [OF less.prems(1,2) _ less.prems(3)]
        True q less.prems(4)
      by (simp add: sift_rise.simps [of lt x 0 h p] Let_def parent_of_def)
  next
    case False
    then have "h' = h" "p' = p"
      using less.prems(4) by (auto simp: sift_rise.simps [of lt x 0 h p] Let_def parent_of_def split: if_splits)
    moreover have "p = 0 \<or> \<not> lt (h[p := x] ! p) (h[p := x] ! parent_of p)"
      using False less.prems(3) parent_less [of p] by (cases "p = 0"; cases "parent_of p = p") simp_all
    ultimately show ?thesis using rise_done [OF less.prems(1) _ less.prems(2)] by simp
  qed
qed

lemma siftdown_heap:
  assumes "rise_inv lt h p" and "\<forall>y \<in> set h. ok y" and "p < length h"
  shows "heap_inv lt ok (siftdown lt h 0 p)"
proof -
  obtain h' p' where r: "sift_rise lt (h ! p) 0 h p = (h', p')"
    by (cases "sift_rise lt (h ! p) 0 h p")
  show ?thesis
    using sift_rise_heap [OF _ _ assms(3) r] assms by (simp add: siftdown_def r)
qed

lemma sink_step:
  assumes inv: "sink_inv lt h p" and ok: "\<forall>y \<in> set h. ok y" and p: "2 * p + 1 < length h"
    and c: "c = smaller_child lt h (2 * p + 1)"
  shows "sink_inv lt (h[p := h ! c]) c"
proof -
  note cb = child_bounds [OF p c]
  let ?w = "h[p := h ! c]"
  have pl: "p < length h" using p by simp
  have okn: "ok (h ! i)" if "i < length h" for i using ok that by simp
  have least: "\<not> lt (h ! i) (h ! c)" if i: "0 < i" "i < length h" "parent_of i = p" for i
  proof -
    let ?l = "2 * p + 1"
    have "i = ?l \<or> i = ?l + 1" using parent_children [of i p] i by simp
    moreover have "\<not> lt (h ! (?l + 1)) (h ! ?l)" if "i = ?l + 1" "lt (h ! ?l) (h ! (?l + 1))"
      using lt_asym [OF okn okn that(2)] i p that(1) by simp
    ultimately show ?thesis
      using lt_irrefl [OF okn [OF i(2)]] i(2) by (auto simp: c smaller_child_def Let_def)
  qed
  have 1: "\<not> lt (?w ! i) (?w ! parent_of i)"
    if i: "0 < i" "i < length h" "i \<noteq> c" "parent_of i \<noteq> c" for i
  proof (cases "i = p")
    case True
    then have "0 < p" using i(1) by simp
    then have "parent_of p \<noteq> p" using less_imp_neq [OF parent_less] by blast
    moreover have "\<not> lt (h ! c) (h ! parent_of p)"
      using inv cb \<open>0 < p\<close> unfolding sink_inv_def by blast
    ultimately show ?thesis using True pl by simp
  next
    case False
    show ?thesis
    proof (cases "parent_of i = p")
      case True
      with False least [OF i(1,2) True] pl show ?thesis by simp
    next
      case no: False
      then have "\<not> lt (h ! i) (h ! parent_of i)"
        using inv i False unfolding sink_inv_def by blast
      with False no show ?thesis by simp
    qed
  qed
  have 2: "\<not> lt (?w ! i) (?w ! parent_of c)" if i: "0 < i" "i < length h" "parent_of i = c" for i
  proof -
    have "i \<noteq> p" "parent_of i \<noteq> p" using i cb parent_less [of i] by auto
    then have "\<not> lt (h ! i) (h ! c)" using inv i unfolding sink_inv_def by blast
    with \<open>i \<noteq> p\<close> cb pl show ?thesis by simp
  qed
  show ?thesis unfolding sink_inv_def using 1 2 by simp
qed

lemma sift_sink_rise_inv:
  assumes "sink_inv lt h p" and "\<forall>y \<in> set h. ok y" and "p < length h"
    and "sift_sink lt h p = (h', p')"
  shows "rise_inv lt (h'[p' := x]) p'"
  using assms
proof (induction "length h - p" arbitrary: h p rule: less_induct)
  case less
  show ?case
  proof (cases "2 * p + 1 < length h")
    case True
    let ?c = "smaller_child lt h (2 * p + 1)"
    note c = child_bounds [OF True refl, of lt]
    have "\<forall>y \<in> set (h[p := h ! ?c]). ok y"
      using less.prems(2) c(1) set_update_subset_insert [of h p "h ! ?c"] by auto
    then show ?thesis
      using less.hyps [of "h[p := h ! ?c]" ?c] sink_step [OF less.prems(1,2) True refl] c True less.prems(3,4)
      by (simp add: sift_sink.simps [of lt h p] Let_def diff_less_mono2)
  next
    case False
    then have r: "h' = h" "p' = p" and leaf: "\<And>i. 0 < i \<Longrightarrow> i < length h \<Longrightarrow> parent_of i \<noteq> p"
      using less.prems(4) by (auto simp: sift_sink.simps [of lt h p] Let_def parent_children)
    have "\<not> lt (h[p := x] ! i) (h[p := x] ! parent_of i)" if "0 < i" "i < length h" "i \<noteq> p" for i
      using less.prems(1) that leaf [of i] unfolding sink_inv_def by auto
    then show ?thesis unfolding r rise_inv_def using leaf by auto
  qed
qed

lemma siftup_heap:
  assumes "sink_inv lt h 0" and "\<forall>y \<in> set h. ok y" and "h \<noteq> []"
  shows "heap_inv lt ok (siftup lt h 0)"
proof -
  obtain h' p' where r: "sift_sink lt h 0 = (h', p')"
    by (cases "sift_sink lt h 0")
  have m: "p' < length h'" "mset (h'[p' := h ! 0]) = mset h"
    using mset_sift_sink [OF _ r, of "h ! 0"] assms(3) by auto
  then have "\<forall>y \<in> set (h'[p' := h ! 0]). ok y"
    using assms(2) by (metis set_mset_mset)
  then show ?thesis
    using siftdown_heap [OF sift_sink_rise_inv [OF assms(1,2) _ r]] assms(3) m(1)
    by (simp add: siftup_def r)
qed

lemma heap_inv_Nil [simp]: "heap_inv lt ok []"
  by (simp add: heap_inv_def)

lemma heappush_inv:
  assumes "heap_inv lt ok h" and "ok x"
  shows "heap_inv lt ok (heappush lt h x)"
proof -
  have "parent_of i < length h" if "0 < i" "i \<le> length h" for i
    using parent_less [OF that(1)] that(2) by linarith
  then have "rise_inv lt (h @ [x]) (length h)"
    using assms(1) by (auto simp: rise_inv_def heap_inv_def nth_append less_Suc_eq_le parent_children)
  then show ?thesis
    using assms unfolding heappush_def by (intro siftdown_heap) (auto simp: heap_inv_def)
qed

lemma heappop_inv:
  assumes "heap_inv lt ok h" and "heappop lt h = Inr (x, h')"
  shows "heap_inv lt ok h'"
proof (cases "butlast h = []")
  case True
  with assms(2) show ?thesis by (auto simp: heappop_def Let_def split: if_splits)
next
  case False
  let ?b = "(butlast h)[0 := last h]"
  have h': "h' = siftup lt ?b 0" "h \<noteq> []"
    using assms(2) False by (auto simp: heappop_def Let_def split: if_splits)
  have "\<not> lt (?b ! i) (?b ! parent_of i)" if "0 < i" "i < length ?b" "parent_of i \<noteq> 0" for i
  proof -
    have "parent_of i < length (butlast h)" using parent_less [OF that(1)] that(2) by simp
    with that assms(1) show ?thesis by (simp add: heap_inv_def nth_butlast)
  qed
  then have "sink_inv lt ?b 0" by (simp add: sink_inv_def)
  moreover have "\<forall>y \<in> set ?b. ok y"
    using assms(1) h'(2) set_update_subset_insert [of "butlast h" 0 "last h"] in_set_butlastD [of _ h]
    by (auto simp: heap_inv_def)
  ultimately show ?thesis unfolding h'(1) using False by (intro siftup_heap) auto
qed

lemma heap_head_least:
  assumes "heap_inv lt ok h" and "i < length h"
  shows "\<not> lt (h ! i) (h ! 0)"
  using assms(2)
proof (induction i rule: less_induct)
  case (less i)
  have okn: "ok (h ! j)" if "j < length h" for j using assms(1) that by (auto simp: heap_inv_def)
  show ?case
  proof (cases "i = 0")
    case True
    with less lt_irrefl okn show ?thesis by simp
  next
    case False
    then have "parent_of i < i" by simp
    with less.prems have p: "parent_of i < i" "parent_of i < length h" by linarith+
    have "\<not> lt (h ! i) (h ! parent_of i)" using assms(1) False less.prems by (simp add: heap_inv_def)
    moreover have "ok (h ! 0)" using okn [of 0] less.prems by force
    ultimately show ?thesis
      using le_trans [OF _ okn [OF p(2)] okn [OF less.prems] less.IH [OF p]] by blast
  qed
qed

lemma heappop_least:
  assumes "heap_inv lt ok h" and "heappop lt h = Inr (x, h')"
  shows "\<forall>y \<in># mset h. \<not> lt y x"
  using heappop_head [OF assms(2)] heap_head_least [OF assms(1)] by (auto simp: in_set_conv_nth)

end

section \<open>The queue interface\<close>

text \<open>
  What a client of the event queue relies on.  \<open>elems\<close> is the multiset of the queued events;
  a pop returns an event that no queued event precedes.
\<close>

locale event_queue = weak_order lt ok
  for lt :: "'a \<Rightarrow> 'a \<Rightarrow> bool" and ok :: "'a \<Rightarrow> bool" +
  fixes push :: "'q \<Rightarrow> 'a \<Rightarrow> 'q" and pop :: "'q \<Rightarrow> ('a \<times> 'q) option"
    and elems :: "'q \<Rightarrow> 'a multiset" and inv :: "'q \<Rightarrow> bool"
  assumes push_inv: "inv q \<Longrightarrow> ok x \<Longrightarrow> inv (push q x)"
    and push_elems: "elems (push q x) = elems q + {#x#}"
    and pop_empty: "pop q = None \<longleftrightarrow> elems q = {#}"
    and pop_inv: "inv q \<Longrightarrow> pop q = Some (x, q') \<Longrightarrow> inv q'"
    and pop_elems: "pop q = Some (x, q') \<Longrightarrow> elems q = elems q' + {#x#}"
    and pop_least: "inv q \<Longrightarrow> pop q = Some (x, q') \<Longrightarrow> y \<in># elems q \<Longrightarrow> \<not> lt y x"
    and inv_ok: "inv q \<Longrightarrow> x \<in># elems q \<Longrightarrow> ok x"

text \<open>
  The loop of a client: pop an event, handle it in state \<open>s\<close>, queue the events that the
  handler schedules.  A handler may end the loop (\<open>None\<close>).  The result is the list of the
  handled events with the final state and queue; \<open>fuel\<close> bounds the number of turns.
\<close>

fun event_loop ::
    "('q \<Rightarrow> 'a \<Rightarrow> 'q) \<Rightarrow> ('q \<Rightarrow> ('a \<times> 'q) option) \<Rightarrow> ('s \<Rightarrow> 'a \<Rightarrow> ('s \<times> 'a list) option)
     \<Rightarrow> nat \<Rightarrow> 's \<Rightarrow> 'q \<Rightarrow> 'a list \<times> 's \<times> 'q" where
  "event_loop push pop handle 0 s q = ([], s, q)"
| "event_loop push pop handle (Suc fuel) s q =
     (case pop q of
        None \<Rightarrow> ([], s, q)
      | Some (x, q') \<Rightarrow>
          (case handle s x of
             None \<Rightarrow> ([], s, q')
           | Some (s', new) \<Rightarrow>
               (let (trace, rest) = event_loop push pop handle fuel s' (foldl push q' new)
                in (x # trace, rest))))"

context event_queue begin

lemma pushes_inv: "inv q \<Longrightarrow> \<forall>x \<in> set xs. ok x \<Longrightarrow> inv (foldl push q xs)"
  by (induction xs arbitrary: q) (auto intro: push_inv)

lemma pushes_elems: "elems (foldl push q xs) = elems q + mset xs"
  by (induction xs arbitrary: q) (auto simp: push_elems)

text \<open>
  When no handler schedules an event before the one it handles, the events are handled in
  order, whatever the handlers schedule.
\<close>

lemma event_loop_sorted:
  assumes "inv q" and "event_loop push pop handle n s q = (trace, s', q')"
    and handlers: "\<And>s x s' new e. handle s x = Some (s', new) \<Longrightarrow> e \<in> set new \<Longrightarrow> ok e \<and> \<not> lt e x"
  shows "sorted_wrt (\<lambda>a b. \<not> lt b a) trace"
    and "\<forall>b. ok b \<and> (\<forall>e \<in># elems q. \<not> lt e b) \<longrightarrow> (\<forall>x \<in> set trace. \<not> lt x b)"
    and "\<forall>x \<in> set trace. ok x"
proof -
  have "sorted_wrt (\<lambda>a b. \<not> lt b a) trace
      \<and> (\<forall>b. ok b \<and> (\<forall>e \<in># elems q. \<not> lt e b) \<longrightarrow> (\<forall>x \<in> set trace. \<not> lt x b))
      \<and> (\<forall>x \<in> set trace. ok x)"
    using assms(1,2)
  proof (induction n arbitrary: s q trace)
    case 0
    then show ?case by simp
  next
    case (Suc n)
    show ?case
    proof (cases "trace = []")
      case False
      then obtain x q1 s1 new trace' where
        pop: "pop q = Some (x, q1)" and h: "handle s x = Some (s1, new)"
        and tr: "trace = x # trace'" and run: "event_loop push pop handle n s1 (foldl push q1 new) = (trace', s', q')"
        using Suc.prems(2) by (auto split: option.splits prod.splits)
      have okx: "ok x" using inv_ok [OF Suc.prems(1)] pop_elems [OF pop] by simp
      have i: "inv (foldl push q1 new)"
        using pop_inv [OF Suc.prems(1) pop] handlers [OF h] by (intro pushes_inv) auto
      note IH = Suc.IH [OF i run]
      have "\<forall>e \<in># elems (foldl push q1 new). \<not> lt e x"
        using pop_least [OF Suc.prems(1) pop] pop_elems [OF pop] handlers [OF h]
        by (auto simp: pushes_elems)
      with IH okx have after: "\<forall>y \<in> set trace'. \<not> lt y x" by blast
      have below: "\<not> lt y b" if "ok b" "\<forall>e \<in># elems q. \<not> lt e b" "y \<in> set trace" for b y
      proof -
        have "\<not> lt x b" using that(2) pop_elems [OF pop] by simp
        show ?thesis
        proof (cases "y = x")
          case False
          then have "y \<in> set trace'" using that(3) tr by simp
          with le_trans [OF that(1) okx _ \<open>\<not> lt x b\<close>] after IH show ?thesis by blast
        qed (use \<open>\<not> lt x b\<close> in simp)
      qed
      have "sorted_wrt (\<lambda>a b. \<not> lt b a) trace" "\<forall>y \<in> set trace. ok y"
        unfolding tr using IH after okx by simp_all
      with below show ?thesis by blast
    qed simp
  qed
  then show "sorted_wrt (\<lambda>a b. \<not> lt b a) trace"
    and "\<forall>b. ok b \<and> (\<forall>e \<in># elems q. \<not> lt e b) \<longrightarrow> (\<forall>x \<in> set trace. \<not> lt x b)"
    and "\<forall>x \<in> set trace. ok x" by blast+
qed

text \<open>Without new events the loop empties the queue: it handles each event exactly once.\<close>

lemma event_loop_drain:
  assumes "size (elems q) \<le> n" and "\<And>s x. \<exists>s'. handle s x = Some (s', [])"
  shows "\<exists>trace s' q'. event_loop push pop handle n s q = (trace, s', q')
           \<and> mset trace = elems q \<and> elems q' = {#}"
  using assms(1)
proof (induction n arbitrary: s q)
  case 0
  then show ?case by simp
next
  case (Suc n)
  show ?case
  proof (cases "pop q")
    case None
    then show ?thesis using pop_empty [of q] by simp
  next
    case (Some xq)
    then obtain x q1 where p: "pop q = Some (x, q1)" by (cases xq) auto
    from assms(2) obtain s1 where s1: "handle s x = Some (s1, [])" by blast
    have "size (elems q1) \<le> n" using Suc.prems pop_elems [OF p] by simp
    from Suc.IH [OF this, of s1] obtain trace s' q' where
      "event_loop push pop handle n s1 q1 = (trace, s', q')" "mset trace = elems q1" "elems q' = {#}"
      by blast
    with p s1 pop_elems [OF p] show ?thesis by simp
  qed
qed

end

end
