(* ===== verification/Scheduler.thy ===== *)
theory Scheduler
  imports Complex_Main FloatOps Heapq
begin

text \<open>
  \<open>backend/app/traffic_generator/scheduler.py\<close>: the event queue of the packet generator, a
  heap of \<open>ScheduledEvent\<close>s that compare by their timestamp alone (\<open>order=True\<close> with
  \<open>event_data\<close> excluded).  Timestamps are floats, so the order is a strict weak order only
  among the timestamps that are not NaN.
\<close>

section \<open>The order of floats\<close>

fun fin_real :: "pyfloat \<Rightarrow> real" where
  "fin_real (Fin s m e) = (if s then - 1 else 1) * real m * 2 powi e"
| "fin_real _ = 0"

lemma scaled_int_real:
  assumes "k \<le> e"
  shows "of_int (scaled_int s m e k) = fin_real (Fin s m e) / 2 powi k"
proof -
  have "(2::real) powi e = 2 powi k * 2 ^ nat (e - k)"
    using assms power_int_add [of "2::real" k "e - k"] by (simp add: power_int_def)
  then show ?thesis by simp
qed

lemma float_lt_Fin: "float_lt (Fin s m e) (Fin s' m' e') \<longleftrightarrow> fin_real (Fin s m e) < fin_real (Fin s' m' e')"
proof -
  let ?k = "min e e'"
  have "float_lt (Fin s m e) (Fin s' m' e')
      \<longleftrightarrow> (of_int (scaled_int s m e ?k) :: real) < of_int (scaled_int s' m' e' ?k)"
    by (simp add: Let_def del: scaled_int.simps)
  also have "\<dots> \<longleftrightarrow> fin_real (Fin s m e) < fin_real (Fin s' m' e')"
  proof -
    have "0 < (2::real) powi ?k" by simp
    then have "\<not> (2::real) powi ?k < 0" and "0 < (2::real) powi ?k" by linarith+
    then show ?thesis
      by (simp only: scaled_int_real divide_less_cancel min.cobounded1 min.cobounded2) simp
  qed
  finally show ?thesis .
qed

lemma float_less_cases:
  "x < y \<longleftrightarrow> (case (x, y) of
      (FNan, _) \<Rightarrow> False | (_, FNan) \<Rightarrow> False
    | (FInf s, FInf s') \<Rightarrow> s \<and> \<not> s' | (FInf s, Fin _ _ _) \<Rightarrow> s | (Fin _ _ _, FInf s') \<Rightarrow> \<not> s'
    | (Fin _ _ _, Fin _ _ _) \<Rightarrow> fin_real x < fin_real y)"
  unfolding less_pyfloat_def
  by (cases x; cases y) (simp_all add: float_lt_Fin del: fin_real.simps float_lt.simps(7))

lemma float_less_asym: "(x :: pyfloat) < y \<Longrightarrow> \<not> y < x"
  by (auto simp: float_less_cases simp del: fin_real.simps split: pyfloat.splits)

lemma float_less_irrefl [simp]: "\<not> (x :: pyfloat) < x"
  by (metis float_less_asym)

lemma float_less_neg_trans: "y \<noteq> FNan \<Longrightarrow> (x :: pyfloat) < z \<Longrightarrow> x < y \<or> y < z"
  by (auto simp: float_less_cases simp del: fin_real.simps split: pyfloat.splits prod.splits)

section \<open>The scheduler\<close>

record 'e scheduled_event =
  timestamp_ms :: pyfloat
  event_data :: 'e

definition ev_lt :: "'e scheduled_event \<Rightarrow> 'e scheduled_event \<Rightarrow> bool" where
  "ev_lt a b = (timestamp_ms a < timestamp_ms b)"

record 'e scheduler =
  heap :: "'e scheduled_event list"

definition new_scheduler :: "'e scheduler" where
  "new_scheduler = \<lparr>heap = []\<rparr>"

definition schedule :: "'e scheduler \<Rightarrow> pyfloat \<Rightarrow> 'e \<Rightarrow> 'e scheduler" where
  "schedule q t e =
     (let scheduled_event = \<lparr>timestamp_ms = t, event_data = e\<rparr>
      in q\<lparr>heap := heappush ev_lt (heap q) scheduled_event\<rparr>)"

definition pop_next :: "'e scheduler \<Rightarrow> ((pyfloat \<times> 'e) \<times> 'e scheduler) option" where
  "pop_next q =
     (case heappop ev_lt (heap q) of
        Inl _ \<Rightarrow> None
      | Inr (ev, h) \<Rightarrow> Some ((timestamp_ms ev, event_data ev), q\<lparr>heap := h\<rparr>))"

definition peek_next :: "'e scheduler \<Rightarrow> (pyfloat \<times> 'e) option" where
  "peek_next q =
     (case heap q of
        [] \<Rightarrow> None
      | ev # _ \<Rightarrow> Some (timestamp_ms ev, event_data ev))"

definition has_events :: "'e scheduler \<Rightarrow> bool" where
  "has_events q = (length (heap q) > 0)"

definition has_events_before :: "'e scheduler \<Rightarrow> pyfloat \<Rightarrow> bool" where
  "has_events_before q t =
     (case heap q of [] \<Rightarrow> False | ev # _ \<Rightarrow> timestamp_ms ev < t)"

definition clear :: "'e scheduler \<Rightarrow> 'e scheduler" where
  "clear q = q\<lparr>heap := []\<rparr>"

definition scheduler_len :: "'e scheduler \<Rightarrow> nat" where
  "scheduler_len q = length (heap q)"

section \<open>The scheduler as an event queue\<close>

definition ev_ok :: "'e scheduled_event \<Rightarrow> bool" where
  "ev_ok a = (timestamp_ms a \<noteq> FNan)"

definition stamp_lt :: "pyfloat \<times> 'e \<Rightarrow> pyfloat \<times> 'e \<Rightarrow> bool" where
  "stamp_lt a b = (fst a < fst b)"

definition stamp_ok :: "pyfloat \<times> 'e \<Rightarrow> bool" where
  "stamp_ok a = (fst a \<noteq> FNan)"

definition queued :: "'e scheduler \<Rightarrow> (pyfloat \<times> 'e) multiset" where
  "queued q = mset (map (\<lambda>ev. (timestamp_ms ev, event_data ev)) (heap q))"

definition sched_inv :: "'e scheduler \<Rightarrow> bool" where
  "sched_inv q = heap_inv ev_lt ev_ok (heap q)"

definition sched_push :: "'e scheduler \<Rightarrow> pyfloat \<times> 'e \<Rightarrow> 'e scheduler" where
  "sched_push q = (\<lambda>(t, e). schedule q t e)"

interpretation ev_order: weak_order ev_lt ev_ok
  by unfold_locales (auto simp: ev_lt_def ev_ok_def dest: float_less_asym float_less_neg_trans)


lemma pop_nextE:
  assumes "pop_next q = Some (x, q')"
  obtains ev h where "heappop ev_lt (heap q) = Inr (ev, h)"
    and "x = (timestamp_ms ev, event_data ev)" and "q' = q\<lparr>heap := h\<rparr>"
  using assms by (auto simp: pop_next_def split: sum.splits)

lemma pop_next_None: "pop_next q = None \<longleftrightarrow> heap q = []"
proof (cases "heap q = []")
  case False
  from heappop_total [OF this, of ev_lt] False show ?thesis
    by (auto simp: pop_next_def)
qed (simp add: pop_next_def heappop_def)

interpretation sched: event_queue stamp_lt stamp_ok sched_push pop_next queued sched_inv
proof unfold_locales
  fix q :: "'e scheduler" and q' x y
  show "pop_next q = None \<longleftrightarrow> queued q = {#}"
    by (simp add: pop_next_None queued_def)
  show "queued (sched_push q x) = queued q + {#x#}"
    by (cases x) (simp add: queued_def sched_push_def schedule_def mset_heappush)
  show "sched_inv (sched_push q x)" if "sched_inv q" "stamp_ok x"
    using that
    by (cases x) (simp add: sched_inv_def sched_push_def schedule_def stamp_ok_def ev_ok_def ev_order.heappush_inv)
  show "sched_inv q'" if "sched_inv q" "pop_next q = Some (x, q')"
    using that ev_order.heappop_inv by (elim pop_nextE) (simp add: sched_inv_def)
  show "queued q = queued q' + {#x#}" if "pop_next q = Some (x, q')"
    using that by (elim pop_nextE) (auto simp: queued_def dest!: mset_heappop)
  show "\<not> stamp_lt y x" if "sched_inv q" "pop_next q = Some (x, q')" "y \<in># queued q"
    using that ev_order.heappop_least
    by (elim pop_nextE) (fastforce simp: sched_inv_def queued_def stamp_lt_def ev_lt_def)
  show "stamp_ok x" if "sched_inv q" "x \<in># queued q"
    using that by (auto simp: sched_inv_def heap_inv_def queued_def stamp_ok_def ev_ok_def)
qed (auto simp: stamp_lt_def stamp_ok_def dest: float_less_asym float_less_neg_trans)

section \<open>The properties\<close>

lemma new_scheduler_inv [simp]: "sched_inv new_scheduler" "queued new_scheduler = {#}"
  by (simp_all add: sched_inv_def new_scheduler_def queued_def)

lemma has_events_queued: "has_events q \<longleftrightarrow> queued q \<noteq> {#}"
  by (simp add: has_events_def queued_def)

lemma size_queued: "size (queued q) = scheduler_len q"
  by (simp add: queued_def scheduler_len_def)

lemma peek_pop: "peek_next q = map_option fst (pop_next q)"
proof (cases "pop_next q")
  case None
  then show ?thesis by (simp add: pop_next_None peek_next_def)
next
  case (Some xq)
  then obtain x q' where p: "pop_next q = Some (x, q')" by (cases xq) auto
  then show ?thesis
    by (elim pop_nextE) (auto simp: peek_next_def p dest!: heappop_head split: list.splits)
qed

text \<open>
  C2: Whatever events are scheduled, in whatever order, as long as no timestamp is NaN:
  popping until the queue is empty hands out each scheduled event exactly once, in order of
  the timestamps.
\<close>

theorem scheduler_drains_in_order:
  assumes "\<forall>(t, e) \<in> set evs. t \<noteq> FNan"
  shows "\<exists>trace q. event_loop sched_push pop_next (\<lambda>s x. Some (s, [])) (length evs) ()
            (foldl sched_push new_scheduler evs) = (trace, (), q)
        \<and> mset trace = mset evs \<and> sorted_wrt (\<lambda>a b. \<not> fst b < fst a) trace \<and> \<not> has_events q"
proof -
  let ?q = "foldl sched_push new_scheduler evs"
  have ok: "\<forall>x \<in> set evs. stamp_ok x" using assms by (auto simp: stamp_ok_def)
  have elems: "queued ?q = mset evs" by (simp add: sched.pushes_elems)
  obtain trace s q where run:
      "event_loop sched_push pop_next (\<lambda>s x. Some (s, [])) (length evs) () ?q = (trace, s, q)"
      "mset trace = queued ?q" "queued q = {#}"
    using sched.event_loop_drain [of ?q "length evs" "\<lambda>s x. Some (s, [])" "()"] by (auto simp: elems)
  have "sched_inv ?q" by (rule sched.pushes_inv [OF _ ok]) simp
  from sched.event_loop_sorted(1) [OF this run(1)] show ?thesis
    using run elems by (auto simp: stamp_lt_def has_events_queued)
qed

theorem scheduler_drains_in_order_witness:
  "\<exists>trace q. event_loop sched_push pop_next (\<lambda>s x. Some (s, [])) 3 ()
      (foldl sched_push new_scheduler [(Fin False 3 0, ''c''), (Fin False 1 (- 1), ''a''), (Fin False 1 1, ''b'')])
        = (trace, (), q)
     \<and> sorted_wrt (\<lambda>a b. \<not> fst b < fst a) trace \<and> size (mset trace) = 3"
proof -
  let ?evs = "[(Fin False 3 0, ''c''), (Fin False 1 (- 1), ''a''), (Fin False 1 1, ''b'')]"
  have n: "length ?evs = 3" and s: "size (mset ?evs) = 3" by simp_all
  have "\<forall>(t, e) \<in> set ?evs. t \<noteq> FNan" by simp
  from scheduler_drains_in_order [OF this] obtain trace q where
    "event_loop sched_push pop_next (\<lambda>s x. Some (s, [])) (length ?evs) () (foldl sched_push new_scheduler ?evs)
       = (trace, (), q)" "mset trace = mset ?evs" "sorted_wrt (\<lambda>a b. \<not> fst b < fst a) trace" by blast
  then show ?thesis using s unfolding n by metis
qed

text \<open>
  In every queue that \<open>schedule\<close> and \<open>pop_next\<close> can produce, \<open>pop_next\<close> returns an
  event that is queued and that no queued event precedes, removes exactly that event, and
  leaves the others; \<open>peek_next\<close> announces it and \<open>has_events_before\<close> says whether it is
  due.
\<close>

theorem pop_next_earliest:
  assumes "sched_inv q" and "has_events q"
  shows "\<exists>t e q'. pop_next q = Some ((t, e), q') \<and> queued q = queued q' + {#(t, e)#}
        \<and> (\<forall>(t', e') \<in># queued q. \<not> t' < t) \<and> sched_inv q'
        \<and> peek_next q = Some (t, e) \<and> (has_events_before q d \<longleftrightarrow> t < d)"
proof -
  obtain t e q' where p: "pop_next q = Some ((t, e), q')"
    using assms(2) pop_next_None [of q] by (cases "pop_next q") (auto simp: has_events_def)
  have k: "peek_next q = Some (t, e)" by (simp add: peek_pop p)
  then have "has_events_before q d \<longleftrightarrow> t < d"
    by (auto simp: peek_next_def has_events_before_def split: list.splits)
  moreover have "\<forall>(t', e') \<in># queued q. \<not> t' < t"
    using sched.pop_least [OF assms(1) p] by (force simp: stamp_lt_def)
  ultimately show ?thesis
    using p k sched.pop_elems [OF p] sched.pop_inv [OF assms(1) p] by blast
qed

theorem pop_next_earliest_witness:
  "\<exists>t e q'. pop_next (schedule (schedule new_scheduler (Fin False 2 0) ''late'') (Fin False 1 0) ''early'')
      = Some ((t, e), q')
     \<and> (\<forall>(t', e') \<in># queued (schedule (schedule new_scheduler (Fin False 2 0) ''late'') (Fin False 1 0) ''early'').
          \<not> t' < t)"
proof -
  let ?q = "foldl sched_push new_scheduler [(Fin False 2 0, ''late''), (Fin False 1 0, ''early'')]"
  have "sched_inv ?q" by (rule sched.pushes_inv) (auto simp: stamp_ok_def)
  moreover have "has_events ?q" by (simp add: has_events_queued sched.push_elems)
  ultimately have "\<exists>t e q'. pop_next ?q = Some ((t, e), q') \<and> (\<forall>(t', e') \<in># queued ?q. \<not> t' < t)"
    using pop_next_earliest [of ?q] by blast
  then show ?thesis by (simp add: sched_push_def)
qed

end
