(* ===== verification/Orchestrator.thy ===== *)
theory Orchestrator
  imports Scheduler
begin

text \<open>
  The main loop of \<open>backend/app/protocol_engines/unified_orchestrator.py\<close>
  (\<open>UnifiedOrchestrator.run\<close>, phases 3 and 4) with the hot-attach of an attack playbook
  (\<open>_check_pending_attack_injection\<close>, \<open>register_attack_orchestrator\<close>, and
  \<open>schedule_initial_events\<close> of \<open>attacks/attack_orchestrator.py\<close>).

  The protocol engines, the generators of noise and attack packets and the packet output run
  behind the fields of \<open>hooks\<close>; they work on a state \<open>'w\<close> of their own.  A hook that
  schedules events returns them as a list.
\<close>

section \<open>State\<close>

datatype ('p, 'c) event = Packet 'p | AttackTick | Control 'c

record ('w, 'p, 'c) hooks =
  injection_pending :: "'w \<Rightarrow> bool"
  find_playbook :: "'w \<Rightarrow> bool res"
  build_attack :: "'w \<Rightarrow> ('w \<times> bool) res"
  set_virtual_time :: "'w \<Rightarrow> pyfloat option \<Rightarrow> 'w"
  attack_started :: "'w \<Rightarrow> pyfloat \<Rightarrow> 'w"
  advance_stage :: "'w \<Rightarrow> pyfloat \<Rightarrow> 'w \<times> (pyfloat \<times> ('p, 'c) event) list"
  stop_set :: "'w \<Rightarrow> bool"
  write_packet :: "'w \<Rightarrow> 'p \<Rightarrow> pyfloat \<Rightarrow> 'w res"
  attack_tick :: "'w \<Rightarrow> pyfloat \<Rightarrow> 'w \<times> (pyfloat \<times> ('p, 'c) event) list"
  control :: "'w \<Rightarrow> 'c \<Rightarrow> pyfloat \<Rightarrow> 'w \<times> (pyfloat \<times> ('p, 'c) event) list"
  take_injection :: "'w \<Rightarrow> 'w"
  shutdown :: "'w \<Rightarrow> pyfloat \<Rightarrow> 'w \<times> (pyfloat \<times> 'p) list"

record ('w, 'p, 'c) orch =
  now :: pyfloat
  queue :: "('p, 'c) event scheduler"
  world :: 'w
  written :: "(pyfloat \<times> 'p) list"

datatype loop_exit = Emptied | Stopped | DurationReached

record ('w, 'p, 'c) result =
  final :: "('w, 'p, 'c) orch"
  stopped_by_event :: bool
  error :: "pyexn option"

section \<open>One turn\<close>

definition enqueue :: "(pyfloat \<times> ('p, 'c) event) list \<Rightarrow> ('w, 'p, 'c) orch \<Rightarrow> ('w, 'p, 'c) orch" where
  "enqueue evs st = st\<lparr>queue := foldl sched_push (queue st) evs\<rparr>"

text \<open>
  The warm-up of \<open>register_attack_orchestrator\<close>: ten seconds, in timed mode at most a fifth
  of the duration but at least half a second.  \<open>fifth\<close> is the product
  \<open>duration_ms * 0.2\<close>.
\<close>

definition attack_warmup :: "(pyfloat \<times> pyfloat) option \<Rightarrow> pyfloat" where
  "attack_warmup duration =
     (case duration of
        None \<Rightarrow> float_of_nat 10000
      | Some (_, fifth) \<Rightarrow> py_min (float_of_nat 10000) (py_max (float_of_nat 500) fifth))"

text \<open>
  \<open>register_attack_orchestrator\<close>: the playbook is told the clock it runs on, and its
  \<open>schedule_initial_events\<close> schedules the first tick at \<open>warmup_ms\<close>, a point of
  the virtual time and not a delay from now, and starts it; in manual start mode it schedules
  nothing and waits for a command.
\<close>

definition register_attack_orchestrator ::
    "('w, 'p, 'c) hooks \<Rightarrow> (pyfloat \<times> pyfloat) option \<Rightarrow> bool \<Rightarrow> ('w, 'p, 'c) orch \<Rightarrow> ('w, 'p, 'c) orch" where
  "register_attack_orchestrator h duration manual st =
     (let warmup = attack_warmup duration;
          st = st\<lparr>world := set_virtual_time h (world st) (map_option fst duration)\<rparr>
      in if manual then st
         else enqueue [(warmup, AttackTick)] (st\<lparr>world := attack_started h (world st) warmup\<rparr>))"

text \<open>
  The hot-attach of a pending injection, which is taken first.  A playbook that is not in
  the registry is only logged; so is an exception of the lookup, of the configuration or of
  the constructor.  \<open>build_attack\<close> yields the world with the playbook in it and whether its
  start mode is manual.
\<close>

definition check_pending_injection ::
    "('w, 'p, 'c) hooks \<Rightarrow> (pyfloat \<times> pyfloat) option \<Rightarrow> ('w, 'p, 'c) orch \<Rightarrow> ('w, 'p, 'c) orch" where
  "check_pending_injection h duration st =
     (if \<not> injection_pending h (world st) then st
      else
        let st = st\<lparr>world := take_injection h (world st)\<rparr>
        in (case find_playbook h (world st) of
              Inl _ \<Rightarrow> st
            | Inr found \<Rightarrow>
                if \<not> found then st
                else (case build_attack h (world st) of
                        Inl _ \<Rightarrow> st
                      | Inr (w, manual) \<Rightarrow>
                          register_attack_orchestrator h duration manual (st\<lparr>world := w\<rparr>))))"

lemmas hot_attach_defs = check_pending_injection_def register_attack_orchestrator_def

definition check_stage :: "('w, 'p, 'c) hooks \<Rightarrow> ('w, 'p, 'c) orch \<Rightarrow> ('w, 'p, 'c) orch" where
  "check_stage h st =
     (let (w, evs) = advance_stage h (world st) (now st) in enqueue evs (st\<lparr>world := w\<rparr>))"

definition dispatch :: "('w, 'p, 'c) hooks \<Rightarrow> ('p, 'c) event \<Rightarrow> ('w, 'p, 'c) orch \<Rightarrow> ('w, 'p, 'c) orch" where
  "dispatch h ev st =
     (case ev of
        Packet p \<Rightarrow>
          (case write_packet h (world st) p (now st) of
             Inl _ \<Rightarrow> st
           | Inr w \<Rightarrow> st\<lparr>world := w, written := written st @ [(now st, p)]\<rparr>)
      | AttackTick \<Rightarrow> (let (w, evs) = attack_tick h (world st) (now st) in enqueue evs (st\<lparr>world := w\<rparr>))
      | Control c \<Rightarrow> (let (w, evs) = control h (world st) c (now st) in enqueue evs (st\<lparr>world := w\<rparr>)))"

text \<open>A turn of the loop: the next state, or the state in which the loop ends and why.\<close>

definition main_turn ::
    "('w, 'p, 'c) hooks \<Rightarrow> (pyfloat \<times> pyfloat) option \<Rightarrow> ('w, 'p, 'c) orch
     \<Rightarrow> ('w, 'p, 'c) orch \<times> loop_exit option" where
  "main_turn h duration st =
     (if \<not> has_events (queue st) then (st, Some Emptied)
      else
        let st = check_stage h (check_pending_injection h duration st)
        in if stop_set h (world st) then (st, Some Stopped)
           else
             (case pop_next (queue st) of
                None \<Rightarrow> (st, Some Emptied)
              | Some ((t, ev), q) \<Rightarrow>
                  let st = st\<lparr>queue := q, now := t\<rparr>
                  in (case duration of
                        Some (d, _) \<Rightarrow> if d < t then (st, Some DurationReached) else (dispatch h ev st, None)
                      | None \<Rightarrow> (dispatch h ev st, None))))"

fun main_loop ::
    "('w, 'p, 'c) hooks \<Rightarrow> (pyfloat \<times> pyfloat) option \<Rightarrow> nat \<Rightarrow> ('w, 'p, 'c) orch
     \<Rightarrow> (('w, 'p, 'c) orch \<times> loop_exit) option" where
  "main_loop h duration 0 st = None"
| "main_loop h duration (Suc fuel) st =
     (case main_turn h duration st of
        (st', Some why) \<Rightarrow> Some (st', why)
      | (st', None) \<Rightarrow> main_loop h duration fuel st')"

section \<open>Shutdown\<close>

text \<open>
  The loop of phase 4 empties the queue: packets are written, and an exception of the output
  ends the run; other events are dropped.  Each turn takes an event and schedules none, so
  the length of the queue bounds the turns.
\<close>

fun shutdown_loop ::
    "('w, 'p, 'c) hooks \<Rightarrow> nat \<Rightarrow> ('w, 'p, 'c) orch \<Rightarrow> ('w, 'p, 'c) orch \<times> pyexn option" where
  "shutdown_loop h 0 st = (st, None)"
| "shutdown_loop h (Suc fuel) st =
     (case pop_next (queue st) of
        None \<Rightarrow> (st, None)
      | Some ((t, ev), q) \<Rightarrow>
          let st = st\<lparr>queue := q, now := t\<rparr>
          in (case ev of
                Packet p \<Rightarrow>
                  (case write_packet h (world st) p t of
                     Inl e \<Rightarrow> (st, Some e)
                   | Inr w \<Rightarrow> shutdown_loop h fuel (st\<lparr>world := w, written := written st @ [(t, p)]\<rparr>))
              | _ \<Rightarrow> shutdown_loop h fuel st))"

definition schedule_shutdown :: "('w, 'p, 'c) hooks \<Rightarrow> ('w, 'p, 'c) orch \<Rightarrow> ('w, 'p, 'c) orch" where
  "schedule_shutdown h st =
     (let (w, pkts) = shutdown h (world st) (now st)
      in enqueue (map (\<lambda>(t, p). (t, Packet p)) pkts) (st\<lparr>world := w\<rparr>))"

definition run_from ::
    "('w, 'p, 'c) hooks \<Rightarrow> (pyfloat \<times> pyfloat) option \<Rightarrow> nat \<Rightarrow> ('w, 'p, 'c) orch
     \<Rightarrow> ('w, 'p, 'c) result option" where
  "run_from h duration fuel st =
     (case main_loop h duration fuel st of
        None \<Rightarrow> None
      | Some (st1, why) \<Rightarrow>
          let st2 = schedule_shutdown h st1;
              (st3, err) = shutdown_loop h (scheduler_len (queue st2)) st2
          in Some \<lparr>final = st3, stopped_by_event = (why = Stopped), error = err\<rparr>)"

section \<open>Time never runs backwards\<close>

text \<open>
  \<open>timed_hooks h\<close>: no hook schedules an event before the current time.  The engines add
  non-negative delays to the time they are called with; the hot-attach is not among the
  hooks.
\<close>

definition not_before :: "pyfloat \<Rightarrow> (pyfloat \<times> 'e) list \<Rightarrow> bool" where
  "not_before t evs = (\<forall>(t', _) \<in> set evs. t' \<noteq> FNan \<and> \<not> t' < t)"

definition timed_hooks :: "('w, 'p, 'c) hooks \<Rightarrow> bool" where
  "timed_hooks h =
     (\<forall>w t. not_before t (snd (advance_stage h w t)) \<and> not_before t (snd (attack_tick h w t))
          \<and> (\<forall>c. not_before t (snd (control h w c t))))"

text \<open>
  What holds between two turns: the queue is well-formed, no queued event lies before the
  current time, and the written packets are in order and not after the current time.
\<close>

definition orch_inv :: "('w, 'p, 'c) orch \<Rightarrow> bool" where
  "orch_inv st =
     (now st \<noteq> FNan \<and> sched_inv (queue st) \<and> (\<forall>(t, _) \<in># queued (queue st). \<not> t < now st)
      \<and> sorted_wrt (\<lambda>a b. \<not> fst b < fst a) (written st)
      \<and> (\<forall>(t, _) \<in> set (written st). t \<noteq> FNan \<and> \<not> now st < t))"

lemma orch_inv_world [simp]: "orch_inv (st\<lparr>world := w\<rparr>) = orch_inv st"
  by (simp add: orch_inv_def)

lemma enqueue_inv:
  assumes "orch_inv st" and "not_before (now st) evs"
  shows "orch_inv (enqueue evs st)"
proof -
  have "sched_inv (foldl sched_push (queue st) evs)"
    using assms by (intro sched.pushes_inv) (auto simp: orch_inv_def not_before_def stamp_ok_def)
  with assms show ?thesis
    by (auto simp: orch_inv_def enqueue_def sched.pushes_elems not_before_def)
qed

lemma enqueue_simps [simp]:
  "now (enqueue evs st) = now st" "world (enqueue evs st) = world st" "written (enqueue evs st) = written st"
  by (simp_all add: enqueue_def)

lemma dispatch_inv:
  assumes "timed_hooks h" and "orch_inv st"
  shows "orch_inv (dispatch h ev st)"
proof (cases ev)
  case (Packet p)
  with assms(2) show ?thesis
    by (auto simp: dispatch_def orch_inv_def sorted_wrt_append dest: float_less_asym split: sum.split)
next
  case AttackTick
  with assms show ?thesis
    by (auto simp: dispatch_def timed_hooks_def split_beta intro!: enqueue_inv)
next
  case (Control c)
  with assms show ?thesis
    by (auto simp: dispatch_def timed_hooks_def split_beta intro!: enqueue_inv)
qed

lemma pop_inv:
  assumes "orch_inv st" and "pop_next (queue st) = Some ((t, ev), q)"
  shows "orch_inv (st\<lparr>queue := q, now := t\<rparr>)" and "\<not> t < now st"
proof -
  note i = assms(1) [unfolded orch_inv_def]
  have inv: "sched_inv (queue st)" using i by simp
  have e: "queued (queue st) = queued q + {#(t, ev)#}" using sched.pop_elems [OF assms(2)] .
  have least: "\<forall>(t', _) \<in># queued (queue st). \<not> t' < t"
    using sched.pop_least [OF inv assms(2)] by (force simp: stamp_lt_def)
  have t: "t \<noteq> FNan" using sched.inv_ok [OF inv, of "(t, ev)"] e by (simp add: stamp_ok_def)
  show nt: "\<not> t < now st" using i e by auto
  have "\<not> t < u" if "u \<noteq> FNan" "\<not> now st < u" for u
    using float_less_neg_trans [of "now st" t u] i nt that by blast
  with i e least t show "orch_inv (st\<lparr>queue := q, now := t\<rparr>)"
    using sched.pop_inv [OF inv assms(2)] by (auto simp: orch_inv_def)
qed

lemma main_turn_inv:
  assumes "timed_hooks h" and "\<And>w. \<not> injection_pending h w" and "orch_inv st"
    and "main_turn h duration st = (st', why)"
  shows "orch_inv st'"
proof -
  have s: "orch_inv (check_stage h (check_pending_injection h duration st))"
    using assms(1-3) by (auto simp: check_stage_def hot_attach_defs timed_hooks_def
        split_beta intro!: enqueue_inv)
  show ?thesis
    using assms(3,4) s pop_inv(1) [OF s] dispatch_inv [OF assms(1)]
    by (auto simp: main_turn_def Let_def split: if_splits option.splits prod.splits)
qed

lemma main_loop_inv:
  assumes "timed_hooks h" and "\<And>w. \<not> injection_pending h w" and "orch_inv st"
    and "main_loop h duration fuel st = Some (st', why)"
  shows "orch_inv st'"
  using assms(3,4)
proof (induction fuel arbitrary: st)
  case (Suc fuel)
  obtain st1 w where t: "main_turn h duration st = (st1, w)" by (cases "main_turn h duration st")
  with main_turn_inv [OF assms(1,2) Suc.prems(1) t] Suc show ?case
    by (cases w) auto
qed simp

lemma dispatch_written:
  "written (dispatch h ev st) = written st \<or> (\<exists>p. written (dispatch h ev st) = written st @ [(now st, p)])"
  by (auto simp: dispatch_def split_beta split: event.splits sum.splits)

lemma check_written [simp]:
  "written (check_stage h (check_pending_injection h duration st)) = written st"
  by (simp add: check_stage_def hot_attach_defs split_beta Let_def split: sum.split)

lemma main_turn_written:
  assumes "main_turn h (Some (d, fifth)) st = (st', why)" and "\<forall>x \<in> set (written st). \<not> d < fst x"
  shows "\<forall>x \<in> set (written st'). \<not> d < fst x"
proof -
  let ?s = "check_stage h (check_pending_injection h (Some (d, fifth)) st)"
  consider "written st' = written st"
    | t ev q where "st' = dispatch h ev (?s\<lparr>queue := q, now := t\<rparr>)" "\<not> d < t"
    using assms(1) by (auto simp: main_turn_def Let_def split: if_splits option.splits)
  then show ?thesis
  proof cases
    case 2
    with assms(2) dispatch_written [of h ev "?s\<lparr>queue := q, now := t\<rparr>"] show ?thesis by auto
  qed (use assms(2) in simp)
qed

lemma main_loop_written:
  assumes "main_loop h (Some (d, fifth)) fuel st = Some (st', why)"
    and "\<forall>x \<in> set (written st). \<not> d < fst x"
  shows "\<forall>x \<in> set (written st'). \<not> d < fst x"
  using assms
proof (induction fuel arbitrary: st)
  case (Suc fuel)
  obtain st1 w where t: "main_turn h (Some (d, fifth)) st = (st1, w)"
    by (cases "main_turn h (Some (d, fifth)) st")
  from main_turn_written [OF t Suc.prems(2)] Suc t show ?case by (cases w) auto
qed simp

lemma has_events_len: "has_events q \<longleftrightarrow> 0 < scheduler_len q"
  by (simp add: has_events_def scheduler_len_def)

lemma pop_len: "pop_next q = Some (x, q') \<Longrightarrow> scheduler_len q = Suc (scheduler_len q')"
  by (drule sched.pop_elems) (simp flip: size_queued)

text \<open>
  Phase 4 with an output that does not fail: the queue ends empty, and exactly the packets
  that were queued are written, each once.
\<close>

lemma shutdown_loop_writes:
  assumes "\<And>w p t. is_ok (write_packet h w p t)" and "scheduler_len (queue st) \<le> n"
  shows "\<exists>st' ps. shutdown_loop h n st = (st', None) \<and> \<not> has_events (queue st') \<and> written st' = written st @ ps
    \<and> mset (map (\<lambda>(t, p). (t, Packet p)) ps)
      = filter_mset (\<lambda>(t, ev). \<exists>p. ev = Packet p) (queued (queue st))"
  using assms(2)
proof (induction n arbitrary: st)
  case 0
  then have "queued (queue st) = {#}" by (simp flip: size_queued)
  then show ?case using 0 by (simp add: has_events_len)
next
  case (Suc n)
  show ?case
  proof (cases "pop_next (queue st)")
    case None
    then have "queued (queue st) = {#}" by (simp add: sched.pop_empty)
    then show ?thesis using None by (simp add: has_events_queued)
  next
    case (Some xq)
    then obtain t ev q where p: "pop_next (queue st) = Some ((t, ev), q)" by (cases xq) auto
    note e = sched.pop_elems [OF p]
    have len: "scheduler_len q \<le> n" using pop_len [OF p] Suc.prems by simp
    show ?thesis
    proof (cases ev)
      case (Packet pk)
      obtain w where w: "write_packet h (world st) pk t = Inr w"
        using assms(1) [of "world st" pk t] by (auto simp: is_ok_iff)
      let ?st = "st\<lparr>queue := q, now := t, world := w, written := written st @ [(t, pk)]\<rparr>"
      from Suc.IH [of ?st] len obtain st' ps where
        "shutdown_loop h n ?st = (st', None)" "\<not> has_events (queue st')"
        "written st' = (written st @ [(t, pk)]) @ ps"
        "mset (map (\<lambda>(t, p). (t, Packet p)) ps) = filter_mset (\<lambda>(t, ev). \<exists>p. ev = Packet p) (queued q)"
        by auto
      then show ?thesis using p w e Packet by (intro exI [of _ st'] exI [of _ "(t, pk) # ps"]) simp
    qed (use Suc.IH [of "st\<lparr>queue := q, now := t\<rparr>"] len p e in auto)
  qed
qed

section \<open>The properties\<close>

text \<open>A run without engines, for the witnesses: an output that accepts every packet.\<close>

definition quiet :: "bool \<Rightarrow> (unit, string, unit) hooks" where
  "quiet inject = \<lparr>injection_pending = (\<lambda>w. inject), find_playbook = (\<lambda>w. Inr True),
     build_attack = (\<lambda>w. Inr (w, False)), set_virtual_time = (\<lambda>w d. w),
     attack_started = (\<lambda>w t. w), advance_stage = (\<lambda>w t. (w, [])),
     stop_set = (\<lambda>w. False), write_packet = (\<lambda>w p t. Inr w), attack_tick = (\<lambda>w t. (w, [])),
     control = (\<lambda>w c t. (w, [])), take_injection = (\<lambda>w. w), shutdown = (\<lambda>w t. (w, []))\<rparr>"

definition start_with :: "pyfloat \<Rightarrow> (pyfloat \<times> string) list \<Rightarrow> (unit, string, unit) orch" where
  "start_with t pkts = enqueue (map (\<lambda>(t, p). (t, Packet p)) pkts)
     \<lparr>now = t, queue = new_scheduler, world = (), written = []\<rparr>"

lemma start_with_inv:
  assumes "t \<noteq> FNan" and "\<forall>(t', p) \<in> set pkts. t' \<noteq> FNan \<and> \<not> t' < t"
  shows "orch_inv (start_with t pkts)"
  unfolding start_with_def using assms
  by (intro enqueue_inv) (auto simp: orch_inv_def not_before_def)

lemma timed_quiet: "timed_hooks (quiet b)"
  by (simp add: timed_hooks_def quiet_def not_before_def)

text \<open>The queue operations on small queues, for evaluating runs.\<close>

lemmas queue_eval =
  sched_push_def schedule_def pop_next_def has_events_def new_scheduler_def heappush_def heappop_def
  siftdown_def siftup_def sift_rise.simps sift_sink.simps smaller_child_def Let_def ev_lt_def less_pyfloat_def

text \<open>
  C1: In timed mode, when the engines schedule no event before the current time and no
  playbook is attached during the run, the packets written by the main loop are in order of
  their timestamps and none lies after the duration limit.
\<close>

theorem timed_capture_in_order:
  assumes "timed_hooks h" and "\<And>w. \<not> injection_pending h w" and "orch_inv st" and "written st = []"
    and "main_loop h (Some (d, fifth)) fuel st = Some (st', why)"
  shows "sorted_wrt (\<lambda>a b. \<not> fst b < fst a) (written st') \<and> (\<forall>x \<in> set (written st'). \<not> d < fst x)"
  using main_loop_inv [OF assms(1,2,3,5)] main_loop_written [OF assms(5)] assms(4)
  by (simp add: orch_inv_def)

lemma demo_main_loop:
  "\<exists>st'. main_loop (quiet False) (Some (Fin False 10 0, Fin False 2 0)) 5
     (start_with (Fin False 0 0) [(Fin False 7 0, ''b''), (Fin False 3 0, ''a'')]) = Some (st', Emptied)
   \<and> map snd (written st') = [''a'', ''b'']"
  by (simp add: start_with_def enqueue_def main_turn_def check_stage_def check_pending_injection_def
      dispatch_def quiet_def queue_eval eval_nat_numeral)

theorem timed_capture_in_order_witness:
  "\<exists>st'. main_loop (quiet False) (Some (Fin False 10 0, Fin False 2 0)) 5
     (start_with (Fin False 0 0) [(Fin False 7 0, ''b''), (Fin False 3 0, ''a'')]) = Some (st', Emptied)
   \<and> sorted_wrt (\<lambda>a b. \<not> fst b < fst a) (written st') \<and> (\<forall>x \<in> set (written st'). \<not> Fin False 10 0 < fst x)"
proof -
  obtain st' where r: "main_loop (quiet False) (Some (Fin False 10 0, Fin False 2 0)) 5
     (start_with (Fin False 0 0) [(Fin False 7 0, ''b''), (Fin False 3 0, ''a'')]) = Some (st', Emptied)"
    using demo_main_loop by blast
  have "orch_inv (start_with (Fin False 0 0) [(Fin False 7 0, ''b''), (Fin False 3 0, ''a'')])"
    by (rule start_with_inv) (auto simp: less_pyfloat_def)
  from timed_capture_in_order [OF timed_quiet _ this _ r] r show ?thesis
    by (auto simp: quiet_def start_with_def)
qed


lemma demo_overrun:
  "\<exists>st'. main_loop (quiet False) (Some (Fin False 10 0, Fin False 2 0)) 5
     (start_with (Fin False 0 0) [(Fin False 20 0, ''lost''), (Fin False 30 0, ''late'')])
       = Some (st', DurationReached)
   \<and> written st' = [] \<and> queued (queue st') = {#(Fin False 30 0, Packet ''late'')#}"
  by (simp add: start_with_def enqueue_def main_turn_def check_stage_def check_pending_injection_def
      dispatch_def quiet_def queued_def queue_eval eval_nat_numeral)


text \<open>
  The duration limit is not a limit of the capture: a run of 10 ms with packets queued
  for 20 ms and 30 ms stops at the first, discards it, and then writes the second in the
  shutdown phase, past the limit.
\<close>

theorem duration_limit_overrun:
  "\<exists>r. run_from (quiet False) (Some (Fin False 10 0, Fin False 2 0)) 5
     (start_with (Fin False 0 0) [(Fin False 20 0, ''lost''), (Fin False 30 0, ''late'')]) = Some r
   \<and> written (final r) = [(Fin False 30 0, ''late'')]"
  by (simp add: run_from_def start_with_def enqueue_def main_turn_def check_stage_def
      check_pending_injection_def dispatch_def quiet_def schedule_shutdown_def scheduler_len_def
      queue_eval eval_nat_numeral)

text \<open>
  Attaching a playbook to a run that is past ten seconds of virtual time turns the clock
  back: in perpetual mode, whatever is queued, when the playbook is found and its start is
  not manual, the next turn handles its first tick at 10000 ms.
\<close>

theorem hot_attach_rewinds_clock:
  assumes "orch_inv st" and "has_events (queue st)" and "float_of_nat 10000 < now st"
    and "injection_pending h (world st)" and "\<And>w. advance_stage h w (now st) = (w, [])"
    and "\<And>w. \<not> stop_set h w" and "find_playbook h (take_injection h (world st)) = Inr True"
    and "build_attack h (take_injection h (world st)) = Inr (w', False)"
  shows "\<exists>st' st1. main_turn h None st = (st', None) \<and> st' = dispatch h AttackTick st1
      \<and> now st1 = float_of_nat 10000 \<and> now st1 < now st"
proof -
  let ?t0 = "float_of_nat 10000"
  let ?s = "check_stage h (check_pending_injection h None st)"
  have s: "queue ?s = sched_push (queue st) (?t0, AttackTick)"
    using assms(4,5,7,8) by (simp add: check_stage_def hot_attach_defs attack_warmup_def enqueue_def Let_def)
  have inv: "sched_inv (queue ?s)"
    unfolding s using assms(1) by (intro sched.push_inv) (auto simp: orch_inv_def stamp_ok_def float_of_nat_def)
  have q: "queued (queue ?s) = queued (queue st) + {#(?t0, AttackTick)#}"
    unfolding s by (rule sched.push_elems)
  then obtain t ev q' where p: "pop_next (queue ?s) = Some ((t, ev), q')"
    using sched.pop_empty [of "queue ?s"] by (cases "pop_next (queue ?s)") auto
  have in_q: "(t, ev) \<in># queued (queue ?s)" using sched.pop_elems [OF p] by simp
  have least: "\<not> ?t0 < t" using sched.pop_least [OF inv p, of "(?t0, AttackTick)"] q by (simp add: stamp_lt_def)
  have t: "t \<noteq> FNan" using sched.inv_ok [OF inv in_q] by (simp add: stamp_ok_def)
  have "(t, ev) = (?t0, AttackTick)"
  proof (rule ccontr)
    assume "(t, ev) \<noteq> (?t0, AttackTick)"
    with in_q q have "(t, ev) \<in># queued (queue st)" by auto
    with assms(1) have "\<not> t < now st" by (auto simp: orch_inv_def)
    with least assms(3) float_less_neg_trans [OF t] show False by blast
  qed
  then show ?thesis
    using assms(2,3,6) p by (intro exI conjI) (auto simp: main_turn_def Let_def)
qed

theorem hot_attach_rewinds_clock_witness:
  "\<exists>st' st1. main_turn (quiet True) None (start_with (Fin False 60000 0) [(Fin False 60001 0, ''x'')]) = (st', None)
     \<and> st' = dispatch (quiet True) AttackTick st1 \<and> now st1 = float_of_nat 10000"
proof -
  let ?st = "start_with (Fin False 60000 0) [(Fin False 60001 0, ''x'')]"
  have "orch_inv ?st" by (rule start_with_inv) (auto simp: less_pyfloat_def)
  moreover have "has_events (queue ?st)"
    by (simp add: start_with_def enqueue_def has_events_queued sched.push_elems)
  moreover have "float_of_nat 10000 < now ?st"
    by (simp add: start_with_def float_of_nat_def less_pyfloat_def)
  ultimately show ?thesis
    using hot_attach_rewinds_clock [of ?st "quiet True" "()"] by (auto simp: quiet_def start_with_def)
qed

end
