(* ===== verification/Crc16.thy ===== *)
theory Crc16
  imports PyBytes
begin

text \<open>
  Reflected CRC-16 with a byte table, as the Modbus RTU and DNP3 builders compute it, and the
  interface that the integrity theorems of both rest on.

  The Python code keeps the register in an \<open>int\<close>; it never leaves 16 bits, so it is a
  \<open>16 word\<close> here.  The table is a list of 256 entries indexed by a byte.
\<close>

type_synonym crc_reg = "16 word"

section \<open>The algorithm\<close>

definition crc_update :: "crc_reg list \<Rightarrow> crc_reg \<Rightarrow> byte \<Rightarrow> crc_reg" where
  "crc_update table crc b = drop_bit 8 crc XOR table ! unat ((crc XOR ucast b) AND 255)"

definition crc_fold :: "crc_reg list \<Rightarrow> crc_reg \<Rightarrow> bytes \<Rightarrow> crc_reg" where
  "crc_fold table crc data = foldl (crc_update table) crc data"

text \<open>One step of the bitwise register for a reflected polynomial.\<close>

definition crc_bit :: "crc_reg \<Rightarrow> crc_reg \<Rightarrow> crc_reg" where
  "crc_bit poly crc = (if crc AND 1 \<noteq> 0 then drop_bit 1 crc XOR poly else drop_bit 1 crc)"

definition crc_table_of :: "crc_reg \<Rightarrow> crc_reg list" where
  "crc_table_of poly = map (\<lambda>b. (crc_bit poly ^^ 8) (of_nat b)) [0..<256]"

text \<open>The bitwise reference: shift the eight bits of each byte through the register.\<close>

definition crc_bitwise :: "crc_reg \<Rightarrow> crc_reg \<Rightarrow> bytes \<Rightarrow> crc_reg" where
  "crc_bitwise poly crc data = foldl (\<lambda>c b. (crc_bit poly ^^ 8) (c XOR ucast b)) crc data"

lemma crc_fold_simps [simp]:
  "crc_fold table crc [] = crc"
  "crc_fold table crc (b # bs) = crc_fold table (crc_update table crc b) bs"
  by (simp_all add: crc_fold_def)

lemma crc_fold_append: "crc_fold table crc (bs @ cs) = crc_fold table (crc_fold table crc bs) cs"
  by (simp add: crc_fold_def)

section \<open>The bitwise step is linear\<close>

lemma and_one_bit: "(x AND 1 \<noteq> 0) \<longleftrightarrow> bit (x :: crc_reg) 0"
  using and_exp_eq_0_iff_not_bit [of x 0] by simp

lemma xor_left_cancel [simp]: "a XOR (a XOR b) = (b :: 'a :: len word)"
  by (metis xor.assoc xor.left_neutral xor_self_eq)

lemma xor_eq_0_iff: "a XOR b = 0 \<longleftrightarrow> a = (b :: 'a :: len word)"
  by (metis xor_left_cancel xor.right_neutral xor_self_eq)

lemma crc_bit_xor: "crc_bit poly (a XOR b) = crc_bit poly a XOR crc_bit poly b"
  by (auto simp: crc_bit_def and_one_bit bit_xor_iff xor.assoc xor.left_commute [of poly]
      xor.commute [of _ poly])

lemma crc_bit_pow_xor: "(crc_bit poly ^^ n) (a XOR b) = (crc_bit poly ^^ n) a XOR (crc_bit poly ^^ n) b"
  by (induction n) (simp_all add: crc_bit_xor)

lemma crc_bit_pow_0 [simp]: "(crc_bit poly ^^ n) 0 = 0"
  by (induction n) (simp_all add: crc_bit_def)

text \<open>Eight steps shift the high byte down and feed the low byte through the polynomial.\<close>

lemma crc_bit_pow_even:
  assumes "\<And>i. i < n \<Longrightarrow> \<not> bit c i"
  shows "(crc_bit poly ^^ n) c = drop_bit n c"
  using assms
proof (induction n)
  case (Suc n)
  have "\<not> bit (drop_bit n c) 0" using Suc.prems [of n] by (simp add: bit_drop_bit_eq)
  with Suc show ?case by (simp add: crc_bit_def and_one_bit)
qed simp

lemma and_255: "c AND 255 = take_bit 8 (c :: crc_reg)"
  by (simp add: take_bit_eq_mask mask_eq_exp_minus_1)

lemma byte_bit: "bit (b :: byte) n \<Longrightarrow> n < 8"
  using bit_imp_le_length [of b n] by simp

lemma ucast_byte_down [simp]: "(ucast (ucast (b :: byte) :: crc_reg) :: byte) = b"
  by (rule bit_word_eqI) (auto simp: bit_simps dest: byte_bit)

lemma split_low: "c = push_bit 8 (drop_bit 8 c) XOR take_bit 8 (c :: crc_reg)"
  by (rule bit_word_eqI) (auto simp: bit_simps dest: byte_bit bit_imp_le_length)

lemma crc_bit_pow_8: "(crc_bit poly ^^ 8) c = drop_bit 8 c XOR (crc_bit poly ^^ 8) (take_bit 8 c)"
proof -
  let ?h = "push_bit 8 (drop_bit 8 c)"
  have "(crc_bit poly ^^ 8) ?h = drop_bit 8 ?h"
    by (rule crc_bit_pow_even) (simp add: bit_simps)
  also have "\<dots> = drop_bit 8 c" by (rule bit_word_eqI) (auto simp: bit_simps dest: byte_bit bit_imp_le_length)
  finally have h: "(crc_bit poly ^^ 8) ?h = drop_bit 8 c" .
  have "(crc_bit poly ^^ 8) c = (crc_bit poly ^^ 8) (?h XOR take_bit 8 c)"
    by (subst split_low [of c]) (rule refl)
  then show ?thesis by (simp only: crc_bit_pow_xor h)
qed

text \<open>The table-driven computation is the bitwise one.\<close>

lemma crc_table_nth: "n < 256 \<Longrightarrow> crc_table_of poly ! n = (crc_bit poly ^^ 8) (of_nat n)"
  by (simp add: crc_table_of_def)

lemma unat_byte_less [simp]: "unat (b :: byte) < 256"
  using unsigned_less [of b] by simp

lemma unat_ucast_byte: "unat (ucast (b :: byte) :: crc_reg) = unat b"
  by (simp add: unsigned_ucast_eq take_bit_nat_eq_self less_trans [OF unat_byte_less])

lemma map2_xor_self: "map2 (XOR) us us = replicate (length us) (0 :: byte)"
  by (induction us) simp_all

lemma low_byte_index: "unat ((crc XOR ucast b) AND 255 :: crc_reg) = unat (ucast crc XOR b :: byte)"
proof -
  have "(crc XOR ucast b) AND 255 = (ucast (ucast crc XOR b :: byte) :: crc_reg)"
    unfolding and_255 by (rule bit_word_eqI) (auto simp: bit_simps dest: byte_bit bit_imp_le_length)
  then show ?thesis by (simp only: unat_ucast_byte)
qed

lemma crc_update_bitwise:
  "crc_update (crc_table_of poly) crc b = (crc_bit poly ^^ 8) (crc XOR ucast b)"
proof -
  have "drop_bit 8 (crc XOR ucast b) = drop_bit 8 crc"
    by (rule bit_word_eqI) (auto simp: bit_simps dest: byte_bit bit_imp_le_length)
  moreover have "(of_nat (unat ((crc XOR ucast b) AND 255 :: crc_reg)) :: crc_reg) = take_bit 8 (crc XOR ucast b)"
    by (simp add: and_255)
  moreover have "unat ((crc XOR ucast b) AND 255 :: crc_reg) < 256"
    unfolding low_byte_index by simp
  ultimately show ?thesis
    unfolding crc_update_def
    by (simp only: crc_table_nth crc_bit_pow_8 [of poly "crc XOR ucast b"])
qed

lemma crc_fold_bitwise: "crc_fold (crc_table_of poly) crc data = crc_bitwise poly crc data"
  unfolding crc_fold_def crc_bitwise_def
  by (rule foldl_cong) (simp_all add: crc_update_bitwise)

section \<open>What the table must satisfy\<close>

text \<open>
  The laws of a table for which the checksum detects every change of up to two adjacent
  bytes: it is linear, and only entry 0 has a zero high byte.
\<close>

locale reflected_crc16 =
  fixes table :: "crc_reg list"
  assumes tab_xor: "table ! unat (a XOR b :: byte) = table ! unat a XOR table ! unat b"
    and tab_high: "drop_bit 8 (table ! unat (a :: byte)) = 0 \<Longrightarrow> a = 0"

context reflected_crc16 begin

lemma tab_0: "table ! unat (0 :: byte) = 0"
  using tab_xor [of 0 0] by simp

lemma update_def: "crc_update table crc b = drop_bit 8 crc XOR table ! unat (ucast crc XOR b :: byte)"
  unfolding crc_update_def low_byte_index ..

lemma update_xor:
  "crc_update table (c XOR d) (a XOR b) = crc_update table c a XOR crc_update table d b"
proof -
  have "(ucast (c XOR d) XOR (a XOR b) :: byte) = (ucast c XOR a) XOR (ucast d XOR b)"
    by (rule bit_word_eqI) (auto simp: bit_simps dest: byte_bit bit_imp_le_length)
  then show ?thesis by (simp add: update_def tab_xor xor.assoc xor.left_commute)
qed

lemma fold_xor:
  "length xs = length ys \<Longrightarrow>
   crc_fold table (c XOR d) (map2 (XOR) xs ys) = crc_fold table c xs XOR crc_fold table d ys"
  by (induction xs ys arbitrary: c d rule: list_induct2) (simp_all add: update_xor)

lemma update_eq_0: "crc_update table c b = 0 \<longleftrightarrow> c = ucast b"
proof
  assume "crc_update table c b = 0"
  then have e: "drop_bit 8 c = table ! unat (ucast c XOR b :: byte)"
    by (simp add: update_def xor_eq_0_iff)
  have "drop_bit 8 (drop_bit 8 c) = 0" by (rule bit_word_eqI) (auto simp: bit_simps dest: byte_bit bit_imp_le_length)
  then have z: "ucast c XOR b = 0" unfolding e by (rule tab_high)
  then have "drop_bit 8 c = 0" using e tab_0 by simp
  with z show "c = ucast b"
  proof -
    have "c = take_bit 8 c" using split_low [of c] \<open>drop_bit 8 c = 0\<close> by simp
    also have "\<dots> = ucast (ucast c :: byte)"
      by (rule bit_word_eqI) (auto simp: bit_simps dest: byte_bit)
    also have "(ucast c :: byte) = b" using z by (simp add: xor_eq_0_iff)
    finally show ?thesis .
  qed
next
  assume "c = ucast b"
  moreover have "drop_bit 8 (ucast b :: crc_reg) = 0" by (rule bit_word_eqI) (auto simp: bit_simps dest: byte_bit bit_imp_le_length)
  ultimately show "crc_update table c b = 0" using tab_0 by (simp add: update_def)
qed

lemma fold_zeros: "crc_fold table 0 (replicate n 0) = 0"
  by (induction n) (simp_all add: update_eq_0 [THEN iffD2])

lemma fold_zeros_nonzero: "c \<noteq> 0 \<Longrightarrow> crc_fold table c (replicate n 0) \<noteq> 0"
  by (induction n arbitrary: c) (simp_all add: update_eq_0)

lemma update_eq_byte:
  "crc_update table c b0 = ucast (b1 :: byte) \<longleftrightarrow> b0 = ucast c \<and> b1 = ucast (drop_bit 8 c)"
proof
  assume e: "crc_update table c b0 = ucast b1"
  have "drop_bit 8 (drop_bit 8 c) = 0" "drop_bit 8 (ucast b1 :: crc_reg) = 0"
    by (rule bit_word_eqI; auto simp: bit_simps dest: byte_bit bit_imp_le_length)+
  with arg_cong [OF e, of "drop_bit 8"]
  have "drop_bit 8 (table ! unat (ucast c XOR b0 :: byte)) = 0"
    by (simp add: update_def drop_bit_xor)
  then have z: "ucast c XOR b0 = 0" by (rule tab_high)
  then have "drop_bit 8 c = ucast b1" using e tab_0 by (simp add: update_def)
  then have "ucast (drop_bit 8 c) = b1" by simp
  with z show "b0 = ucast c \<and> b1 = ucast (drop_bit 8 c)" by (simp add: xor_eq_0_iff)
next
  assume b: "b0 = ucast c \<and> b1 = ucast (drop_bit 8 c)"
  have "(ucast (ucast (drop_bit 8 c) :: byte) :: crc_reg) = drop_bit 8 c"
    by (rule bit_word_eqI) (auto simp: bit_simps dest: byte_bit bit_imp_le_length)
  with b tab_0 show "crc_update table c b0 = ucast b1" by (simp add: update_def)
qed

lemma le_bytes_reg: "le_bytes 2 (uint (c :: crc_reg)) = [ucast c, ucast (drop_bit 8 c)]"
proof -
  have "uint (drop_bit 8 c) = uint c div 256"
    by (simp add: drop_bit_eq_div uint_div_distrib)
  then have "uint (ucast (drop_bit 8 c) :: byte) = uint (word_of_int (uint c div 256) :: byte)"
    by (simp only: unsigned_ucast_eq uint_byte) (simp add: take_bit_eq_mod)
  then have "(ucast (drop_bit 8 c) :: byte) = word_of_int (uint c div 256)"
    by (simp only: word_uint_eq_iff)
  moreover have "(ucast c :: byte) = word_of_int (uint c)"
    by (simp only: word_uint_eq_iff unsigned_ucast_eq uint_byte) (simp add: take_bit_eq_mod)
  ultimately have "[word_of_int (uint c), word_of_int (uint c div 256)] = [ucast c, ucast (drop_bit 8 c) :: byte]"
    by simp
  then show ?thesis by (simp only: numeral_2_eq_2 le_bytes.simps)
qed

text \<open>
  A message followed by two bytes leaves the register at zero exactly when the two bytes are
  the register after the message, low byte first.
\<close>

lemma fold_residue:
  "crc_fold table c (data @ [b0, b1]) = 0 \<longleftrightarrow> [b0, b1] = le_bytes 2 (uint (crc_fold table c data))"
  by (simp add: crc_fold_append update_eq_0 update_eq_byte le_bytes_reg)

text \<open>
  A change of up to two adjacent bytes, anywhere in a message, changes the register.
\<close>

lemma burst_residue:
  assumes "x \<noteq> 0 \<or> y \<noteq> 0"
  shows "crc_fold table 0 (replicate i 0 @ [x, y] @ replicate j 0) \<noteq> 0"
proof -
  have "crc_fold table 0 [x, y] \<noteq> 0"
  proof
    assume "crc_fold table 0 [x, y] = 0"
    then have "crc_update table 0 x = ucast y" by (simp add: update_eq_0)
    then show False using assms by (simp add: update_eq_byte)
  qed
  then show ?thesis
    using fold_zeros_nonzero by (simp add: crc_fold_append fold_zeros)
qed

lemma burst_detected:
  assumes "[x', y'] \<noteq> [x, y]"
  shows "crc_fold table c (us @ [x', y'] @ vs) \<noteq> crc_fold table c (us @ [x, y] @ vs)"
proof -
  let ?a = "us @ [x', y'] @ vs" and ?b = "us @ [x, y] @ vs"
  have diff: "map2 (XOR) ?a ?b
      = replicate (length us) 0 @ [x' XOR x, y' XOR y] @ replicate (length vs) 0"
    by (simp add: map2_xor_self)
  have "crc_fold table c ?a XOR crc_fold table c ?b = crc_fold table (c XOR c) (map2 (XOR) ?a ?b)"
    by (rule fold_xor [symmetric]) simp
  also have "\<dots> \<noteq> 0"
    unfolding diff using burst_residue [of "x' XOR x" "y' XOR y"] assms by (auto simp: xor_eq_0_iff)
  finally show ?thesis by (simp add: xor_eq_0_iff)
qed

end

section \<open>Tables that satisfy the laws\<close>

text \<open>
  When the polynomial has its top bit, bit 15 of the register after a step is the bit that
  the step shifted out.  So if the top \<open>n\<close> bits are clear after \<open>n\<close> steps, every step was a
  plain shift of an even register.
\<close>

lemma crc_bit_top: "bit poly 15 \<Longrightarrow> bit (crc_bit poly c) 15 \<longleftrightarrow> bit c 0"
  by (auto simp: crc_bit_def and_one_bit bit_simps dest: bit_imp_le_length)

lemma crc_bit_pow_clear:
  assumes "bit poly 15" and "n \<le> 16" and "\<And>i. 16 - n \<le> i \<Longrightarrow> \<not> bit ((crc_bit poly ^^ n) c) i"
  shows "\<forall>i < n. \<not> bit c i"
  using assms(2,3)
proof (induction n)
  case (Suc n)
  let ?c = "(crc_bit poly ^^ n) c"
  have "\<not> bit (crc_bit poly ?c) 15" using Suc.prems(2) [of 15] by simp
  then have low: "\<not> bit ?c 0" using crc_bit_top [OF assms(1)] by simp
  then have shift: "crc_bit poly ?c = drop_bit 1 ?c" by (simp add: crc_bit_def and_one_bit)
  have "\<not> bit ?c i" if "16 - n \<le> i" for i
  proof (cases i)
    case (Suc j)
    then have "\<not> bit (crc_bit poly ?c) j" using Suc.prems(2) [of j] that by simp
    then show ?thesis unfolding shift Suc by (simp add: bit_drop_bit_eq)
  qed (use low in simp)
  then have IH: "\<forall>i < n. \<not> bit c i" using Suc.IH Suc.prems(1) by simp
  then have "?c = drop_bit n c" using crc_bit_pow_even [of n c poly] by simp
  with low have "\<not> bit c n" by (simp add: bit_drop_bit_eq)
  with IH show ?case using less_Suc_eq by auto
qed simp

lemma table_byte: "crc_table_of poly ! unat (b :: byte) = (crc_bit poly ^^ 8) (ucast b)"
proof -
  have "(of_nat (unat b) :: crc_reg) = ucast b" by simp
  then show ?thesis by (simp only: crc_table_nth [OF unat_byte_less])
qed

lemma reflected_table:
  assumes "bit poly 15"
  shows "reflected_crc16 (crc_table_of poly)"
proof
  fix a b :: byte
  have "(ucast (a XOR b) :: crc_reg) = ucast a XOR ucast b"
    by (rule bit_word_eqI) (auto simp: bit_simps)
  then show "crc_table_of poly ! unat (a XOR b) = crc_table_of poly ! unat a XOR crc_table_of poly ! unat b"
    by (simp only: table_byte crc_bit_pow_xor)
  assume h: "drop_bit 8 (crc_table_of poly ! unat a) = 0"
  have "\<not> bit ((crc_bit poly ^^ 8) (ucast a)) i" if "16 - 8 \<le> i" for i
  proof -
    have "bit ((crc_bit poly ^^ 8) (ucast a)) i = bit (drop_bit 8 ((crc_bit poly ^^ 8) (ucast a))) (i - 8)"
      using that by (simp add: bit_drop_bit_eq)
    then show ?thesis using h by (simp add: table_byte)
  qed
  from crc_bit_pow_clear [OF assms _ this] have "\<forall>i < 8. \<not> bit (ucast a :: crc_reg) i" by simp
  then show "a = 0" by (intro bit_word_eqI) (auto simp: bit_simps)
qed

text \<open>The table over integers, for comparing it with a table of literals.\<close>

definition int_bit :: "int \<Rightarrow> int \<Rightarrow> int" where
  "int_bit p n = (if odd n then (n div 2) XOR p else n div 2)"

definition int_entry :: "int \<Rightarrow> int \<Rightarrow> int" where
  "int_entry p n = int_bit p (int_bit p (int_bit p (int_bit p
     (int_bit p (int_bit p (int_bit p (int_bit p n)))))))"

lemma int_bit_range:
  "0 \<le> p \<Longrightarrow> p < 65536 \<Longrightarrow> 0 \<le> n \<Longrightarrow> n < 65536 \<Longrightarrow> 0 \<le> int_bit p n \<and> int_bit p n < 65536"
  using XOR_upper [of "n div 2" 16 p] by (auto simp: int_bit_def)

lemma crc_bit_int:
  assumes "0 \<le> p" "p < 65536" "0 \<le> n" "n < 65536"
  shows "crc_bit (word_of_int p) (word_of_int n) = word_of_int (int_bit p n)"
proof -
  have u: "uint (word_of_int n :: crc_reg) = n" using assms by (simp add: unsigned_of_int take_bit_int_eq_self)
  then have "uint (drop_bit 1 (word_of_int n :: crc_reg)) = uint (word_of_int (n div 2) :: crc_reg)"
    using assms by (simp add: drop_bit_eq_div uint_div_distrib unsigned_of_int take_bit_int_eq_self)
  then have d: "drop_bit 1 (word_of_int n :: crc_reg) = word_of_int (n div 2)"
    by (simp only: word_uint_eq_iff)
  have "bit (word_of_int n :: crc_reg) 0 = odd n" unfolding bit_word_of_int_iff by (simp add: bit_0)
  with d show ?thesis
    by (simp add: crc_bit_def and_one_bit int_bit_def) (simp add: bit_eq_iff bit_simps)
qed

lemma crc_table_of_int:
  assumes "0 \<le> p" and "p < 65536"
  shows "crc_table_of (word_of_int p) = map (\<lambda>n. word_of_int (int_entry p n)) (map int [0..<256])"
proof -
  have "(crc_bit (word_of_int p) ^^ 8) (word_of_int n) = word_of_int (int_entry p n)"
    if "0 \<le> n" "n < 65536" for n
    using that assms int_bit_range [OF assms]
    by (simp add: eval_nat_numeral(2,3) int_entry_def crc_bit_int)
  from this [of "int _"] show ?thesis by (simp add: crc_table_of_def)
qed

end
