(* ===== verification/TcpBuilder.thy ===== *)
theory TcpBuilder
  imports PyBytes
begin

text \<open>
  \<open>backend/app/protocol_engines/tcp_builder.py\<close>: the TCP/IP headers that the engines share.

  The headers are the layer objects that the code hands to scapy; turning them into octets is
  scapy's \<open>bytes(packet)\<close>, the parameter \<open>to_bytes\<close>.  The options of a fingerprint and the
  fields of a device that the headers use are records.
\<close>

section \<open>Layers\<close>

record tcp_fingerprint =
  opt_ttl :: int
  window_size :: int
  mss :: int
  window_scaling :: "int option"
  sack_permitted :: bool
  timestamps_enabled :: bool
  df_flag :: bool
  nop_padding :: bool

record device =
  mac_address :: string
  ip_address :: string
  device_port :: int
  unit_id :: "int option"
  tcp_opts :: "tcp_fingerprint option"

datatype tcp_option = NOP | MSS int | SAckOK | Timestamp | WScale int

record ip_layer =
  ip_src :: string
  ip_dst :: string
  ip_ttl :: int
  ip_df :: bool

record tcp_layer =
  sport :: int
  dport :: int
  tcp_seq :: int
  tcp_ack :: int
  tcp_flags :: string
  tcp_window :: int
  seg_options :: "tcp_option list"

record layers =
  eth_src :: string
  eth_dst :: string
  ip :: ip_layer
  tcp :: tcp_layer
  raw :: "bytes option"

section \<open>Options\<close>

definition option_list :: "tcp_fingerprint \<Rightarrow> bool \<Rightarrow> tcp_option list" where
  "option_list fp is_syn =
     (let options =
        (if mss fp \<noteq> 0 \<and> is_syn then [MSS (mss fp)] else [])
        @ (if sack_permitted fp \<and> is_syn then [SAckOK] else [])
        @ (if timestamps_enabled fp then [Timestamp] else [])
        @ (case window_scaling fp of Some w \<Rightarrow> if is_syn then [WScale w] else [] | None \<Rightarrow> [])
      in if options \<noteq> [] \<and> nop_padding fp then NOP # options else options)"

definition extract_tcp_options ::
    "tcp_fingerprint option \<Rightarrow> string \<Rightarrow> int \<times> int \<times> tcp_option list \<times> bool" where
  "extract_tcp_options tcp_options flags =
     (case tcp_options of
        None \<Rightarrow> (64, 65535, [], True)
      | Some fp \<Rightarrow> (opt_ttl fp, window_size fp, option_list fp (CHR ''S'' \<in> set flags), df_flag fp))"

section \<open>Packets\<close>

definition tcp_packet_layers ::
    "device \<Rightarrow> device \<Rightarrow> bytes \<Rightarrow> int \<Rightarrow> int \<Rightarrow> string \<Rightarrow> tcp_fingerprint option \<Rightarrow> layers" where
  "tcp_packet_layers src dst payload seq ack flags tcp_options =
     (let (ttl, window, options, df) = extract_tcp_options tcp_options flags
      in \<lparr>eth_src = mac_address src, eth_dst = mac_address dst,
          ip = \<lparr>ip_src = ip_address src, ip_dst = ip_address dst, ip_ttl = ttl, ip_df = df\<rparr>,
          tcp = \<lparr>sport = device_port src, dport = device_port dst, tcp_seq = seq, tcp_ack = ack,
                 tcp_flags = flags, tcp_window = window, seg_options = options\<rparr>,
          raw = (if payload \<noteq> [] then Some payload else None)\<rparr>)"

definition build_tcp_packet ::
    "(layers \<Rightarrow> bytes res) \<Rightarrow> device \<Rightarrow> device \<Rightarrow> bytes \<Rightarrow> int \<Rightarrow> int \<Rightarrow> string
     \<Rightarrow> tcp_fingerprint option \<Rightarrow> bytes res" where
  "build_tcp_packet to_bytes src dst payload seq ack flags tcp_options =
     to_bytes (tcp_packet_layers src dst payload seq ack flags tcp_options)"

definition build_tcp_packet_fingerprinted ::
    "(layers \<Rightarrow> bytes res) \<Rightarrow> device \<Rightarrow> device \<Rightarrow> bytes \<Rightarrow> int \<Rightarrow> int \<Rightarrow> string \<Rightarrow> bytes res" where
  "build_tcp_packet_fingerprinted to_bytes src dst payload seq ack flags =
     build_tcp_packet to_bytes src dst payload seq ack flags (tcp_opts src)"

definition build_tcp_syn where
  "build_tcp_syn to_bytes src dst seq opts = build_tcp_packet to_bytes src dst [] seq 0 ''S'' opts"

definition build_tcp_syn_ack where
  "build_tcp_syn_ack to_bytes src dst seq ack opts = build_tcp_packet to_bytes src dst [] seq ack ''SA'' opts"

definition build_tcp_ack where
  "build_tcp_ack to_bytes src dst seq ack opts = build_tcp_packet to_bytes src dst [] seq ack ''A'' opts"

definition build_tcp_fin where
  "build_tcp_fin to_bytes src dst seq ack opts = build_tcp_packet to_bytes src dst [] seq ack ''FA'' opts"

definition build_tcp_fin_ack where
  "build_tcp_fin_ack to_bytes src dst seq ack opts = build_tcp_packet to_bytes src dst [] seq ack ''FA'' opts"

section \<open>The options of the Modbus RTU gateway builder\<close>

text \<open>\<open>build_rtu_over_tcp_packet\<close> of \<open>modbus/rtu_packets.py\<close> has its own copy of the option logic.\<close>

definition rtu_packet_layers ::
    "device \<Rightarrow> device \<Rightarrow> bytes \<Rightarrow> int \<Rightarrow> int \<Rightarrow> string \<Rightarrow> tcp_fingerprint option \<Rightarrow> layers" where
  "rtu_packet_layers src dst rtu_frame seq ack flags tcp_options =
     (let (ttl, window, options) =
        (case tcp_options of
           Some fp \<Rightarrow>
             (let is_syn = (CHR ''S'' \<in> set flags);
                  options =
                    (if mss fp \<noteq> 0 \<and> is_syn then [MSS (mss fp)] else [])
                    @ (if sack_permitted fp \<and> is_syn then [SAckOK] else [])
                    @ (if timestamps_enabled fp then [Timestamp] else [])
                    @ (case window_scaling fp of Some w \<Rightarrow> if is_syn then [WScale w] else [] | None \<Rightarrow> [])
              in (opt_ttl fp, window_size fp,
                  if options \<noteq> [] \<and> nop_padding fp then NOP # options else options))
         | None \<Rightarrow> (64, 65535, []))
      in \<lparr>eth_src = mac_address src, eth_dst = mac_address dst,
          ip = \<lparr>ip_src = ip_address src, ip_dst = ip_address dst, ip_ttl = ttl,
                ip_df = (case tcp_options of Some fp \<Rightarrow> df_flag fp | None \<Rightarrow> False)\<rparr>,
          tcp = \<lparr>sport = device_port src, dport = device_port dst, tcp_seq = seq, tcp_ack = ack,
                 tcp_flags = flags, tcp_window = window, seg_options = options\<rparr>,
          raw = Some rtu_frame\<rparr>)"

definition build_rtu_over_tcp_packet ::
    "(layers \<Rightarrow> bytes res) \<Rightarrow> device \<Rightarrow> device \<Rightarrow> bytes \<Rightarrow> int \<Rightarrow> int \<Rightarrow> string
     \<Rightarrow> tcp_fingerprint option \<Rightarrow> bytes res" where
  "build_rtu_over_tcp_packet to_bytes src dst rtu_frame seq ack flags tcp_options =
     to_bytes (rtu_packet_layers src dst rtu_frame seq ack flags tcp_options)"

section \<open>What scapy serialises\<close>

text \<open>
  \<open>bytes(packet)\<close> packs each field at its width: sequence numbers in 32 bits, ports, window, MSS
  and the length of the datagram in 16, TTL and window scale in 8, the options in 40 octets.  A
  value that does not fit raises.  \<open>scapy_serialises\<close> is what the engines rely on: a segment that
  fits, between addresses of the two devices, has octets.
\<close>

definition fits :: "nat \<Rightarrow> int \<Rightarrow> bool" where
  "fits w v = (0 \<le> v \<and> v < 2 ^ w)"

fun option_fits :: "tcp_option \<Rightarrow> bool" where
  "option_fits (MSS n) = fits 16 n"
| "option_fits (WScale n) = fits 8 n"
| "option_fits _ = True"

fun option_size :: "tcp_option \<Rightarrow> nat" where
  "option_size NOP = 1"
| "option_size (MSS n) = 4"
| "option_size SAckOK = 2"
| "option_size Timestamp = 10"
| "option_size (WScale n) = 3"

definition segment_fits :: "layers \<Rightarrow> bool" where
  "segment_fits l =
     (let t = tcp l
      in fits 8 (ip_ttl (ip l)) \<and> fits 16 (sport t) \<and> fits 16 (dport t) \<and> fits 32 (tcp_seq t) \<and> fits 32 (tcp_ack t)
         \<and> fits 16 (tcp_window t) \<and> set (tcp_flags t) \<subseteq> set ''FSRPAU'' \<and> list_all option_fits (seg_options t)
         \<and> sum_list (map option_size (seg_options t)) \<le> 40
         \<and> (case raw l of Some p \<Rightarrow> length p \<le> 65455 | None \<Rightarrow> True))"

definition scapy_serialises :: "(layers \<Rightarrow> bytes res) \<Rightarrow> device \<Rightarrow> device \<Rightarrow> bool" where
  "scapy_serialises to_bytes a b \<longleftrightarrow>
     (\<forall>l. segment_fits l \<and> {eth_src l, eth_dst l} \<subseteq> {mac_address a, mac_address b}
        \<and> {ip_src (ip l), ip_dst (ip l)} \<subseteq> {ip_address a, ip_address b} \<longrightarrow> is_ok (to_bytes l))"

text \<open>The port and the fingerprint of a device fit the headers.\<close>

definition device_fits :: "device \<Rightarrow> bool" where
  "device_fits d =
     (fits 16 (device_port d)
      \<and> (case tcp_opts d of
           None \<Rightarrow> True
         | Some fp \<Rightarrow> fits 8 (opt_ttl fp) \<and> fits 16 (window_size fp) \<and> fits 16 (mss fp)
             \<and> (case window_scaling fp of Some w \<Rightarrow> fits 8 w | None \<Rightarrow> True)))"

definition link_ok :: "(layers \<Rightarrow> bytes res) \<Rightarrow> device \<Rightarrow> device \<Rightarrow> bool" where
  "link_ok to_bytes a b \<longleftrightarrow> scapy_serialises to_bytes a b \<and> device_fits a \<and> device_fits b"

lemma link_ok_sym: "link_ok to_bytes a b \<Longrightarrow> link_ok to_bytes b a"
  by (simp add: link_ok_def scapy_serialises_def insert_commute)

lemma options_fit:
  assumes "device_fits d" and "tcp_opts d = Some fp"
  shows "list_all option_fits (option_list fp is_syn)" "sum_list (map option_size (option_list fp is_syn)) \<le> 40"
  using assms by (auto simp: option_list_def device_fits_def Let_def split: option.splits)

lemma tcp_packet_fits:
  assumes "device_fits src" "device_fits dst" and "opts = None \<or> opts = tcp_opts src"
    and "fits 32 seq" "fits 32 ack" and "set flags \<subseteq> set ''FSRPAU''" and "length payload \<le> 65455"
  shows "segment_fits (tcp_packet_layers src dst payload seq ack flags opts)"
proof (cases opts)
  case None
  with assms show ?thesis
    by (simp add: segment_fits_def tcp_packet_layers_def extract_tcp_options_def Let_def device_fits_def fits_def)
next
  case (Some fp)
  then have "tcp_opts src = Some fp" using assms(3) by simp
  with assms Some options_fit [OF assms(1) this] show ?thesis
    by (simp add: segment_fits_def tcp_packet_layers_def extract_tcp_options_def Let_def device_fits_def)
qed

lemma build_tcp_packet_total:
  assumes "link_ok to_bytes src dst" and "opts = None \<or> opts = tcp_opts src"
    and "fits 32 seq" "fits 32 ack" and "set flags \<subseteq> set ''FSRPAU''" and "length payload \<le> 65455"
  shows "is_ok (build_tcp_packet to_bytes src dst payload seq ack flags opts)"
proof -
  have "segment_fits (tcp_packet_layers src dst payload seq ack flags opts)"
    using assms tcp_packet_fits unfolding link_ok_def by blast
  moreover have "eth_src (tcp_packet_layers src dst payload seq ack flags opts) = mac_address src"
    "eth_dst (tcp_packet_layers src dst payload seq ack flags opts) = mac_address dst"
    "ip_src (ip (tcp_packet_layers src dst payload seq ack flags opts)) = ip_address src"
    "ip_dst (ip (tcp_packet_layers src dst payload seq ack flags opts)) = ip_address dst"
    by (simp_all add: tcp_packet_layers_def split_beta)
  ultimately show ?thesis
    using assms(1) by (simp add: link_ok_def scapy_serialises_def build_tcp_packet_def)
qed

text \<open>A scapy for the examples: it serialises what fits and raises for the rest.\<close>

definition demo_scapy :: "layers \<Rightarrow> bytes res" where
  "demo_scapy l = (if segment_fits l then Inr (case raw l of Some p \<Rightarrow> p | None \<Rightarrow> []) else Inl StructError)"

lemma demo_scapy_serialises [simp]: "scapy_serialises demo_scapy a b"
  by (simp add: scapy_serialises_def demo_scapy_def)

section \<open>The properties\<close>

text \<open>
  MSS, SACK and window scaling are offered in SYN segments only: a segment without the
  SYN flag carries no option but a timestamp and its padding, whatever the fingerprint says.
\<close>

theorem syn_only_options:
  assumes "CHR ''S'' \<notin> set flags"
  shows "set (seg_options (tcp (tcp_packet_layers src dst payload seq ack flags opts))) \<subseteq> {NOP, Timestamp}"
  using assms
  by (auto simp: tcp_packet_layers_def extract_tcp_options_def option_list_def Let_def
      split: option.splits if_splits)

definition demo_fp :: tcp_fingerprint where
  "demo_fp = \<lparr>opt_ttl = 128, window_size = 8192, mss = 1460, window_scaling = Some 8,
     sack_permitted = True, timestamps_enabled = False, df_flag = True, nop_padding = True\<rparr>"

definition demo_dev :: "string \<Rightarrow> device" where
  "demo_dev a = \<lparr>mac_address = ''00:00:00:00:00:01'', ip_address = a, device_port = 502,
     unit_id = None, tcp_opts = Some demo_fp\<rparr>"

theorem syn_only_options_witness:
  "set (seg_options (tcp (tcp_packet_layers (demo_dev ''10.0.0.1'') (demo_dev ''10.0.0.2'') [1] 5 6 ''PA''
     (Some demo_fp)))) \<subseteq> {NOP, Timestamp}"
  by (rule syn_only_options) simp

text \<open>
  The RTU gateway's copy of the option logic builds the same segment as the shared
  builder for every fingerprint and every non-empty frame; without a fingerprint the two
  differ in exactly the DF flag.
\<close>

theorem rtu_copy_agrees:
  assumes "frame \<noteq> []"
  shows "rtu_packet_layers src dst frame seq ack flags opts =
     (let l = tcp_packet_layers src dst frame seq ack flags opts
      in if opts = None then l\<lparr>ip := (ip l)\<lparr>ip_df := False\<rparr>\<rparr> else l)
     \<and> ip_df (ip (tcp_packet_layers src dst frame seq ack flags None))"
  using assms
  by (simp add: rtu_packet_layers_def tcp_packet_layers_def extract_tcp_options_def option_list_def
      Let_def split: option.splits)

theorem rtu_copy_agrees_witness:
  "rtu_packet_layers (demo_dev ''10.0.0.1'') (demo_dev ''10.0.0.2'') [1] 5 6 ''PA'' (Some demo_fp)
     = tcp_packet_layers (demo_dev ''10.0.0.1'') (demo_dev ''10.0.0.2'') [1] 5 6 ''PA'' (Some demo_fp)"
  using rtu_copy_agrees [of "[1]" _ _ 5 6 "''PA''" "Some demo_fp"] by (simp add: Let_def)

end
