(* ===== verification/TcpStream.thy ===== *)
theory TcpStream
  imports TcpBuilder
begin

text \<open>
  The events of a TCP conversation as the engines yield them, and what the two ends make of
  them: a receiver follows the sequence numbers and takes the frames of the protocol off the
  bytes it collected.  The locale \<open>framing\<close> states what a protocol's frames must satisfy for
  that; the Modbus and the Class D framing are its interpretations.
\<close>

section \<open>Events\<close>

record packet_event =
  segment :: "layers option"
  from_client :: bool
  kind :: string

definition tcp_event ::
    "bool \<Rightarrow> device \<Rightarrow> device \<Rightarrow> bytes \<Rightarrow> int \<Rightarrow> int \<Rightarrow> string \<Rightarrow> tcp_fingerprint option \<Rightarrow> string \<Rightarrow> packet_event" where
  "tcp_event client src dst payload seq ack flags opts k =
     \<lparr>segment = Some (tcp_packet_layers src dst payload seq ack flags opts), from_client = client, kind = k\<rparr>"

text \<open>
  An event is made of octets: \<open>build_tcp_packet\<close> has scapy serialise the segment first, and
  where that raises there is no event.  The event keeps the layers.
\<close>

definition tcp_send ::
    "(layers \<Rightarrow> bytes res) \<Rightarrow> bool \<Rightarrow> device \<Rightarrow> device \<Rightarrow> bytes \<Rightarrow> int \<Rightarrow> int \<Rightarrow> string \<Rightarrow> tcp_fingerprint option
     \<Rightarrow> string \<Rightarrow> packet_event res" where
  "tcp_send to_bytes client src dst payload seq ack flags opts k =
     bnd (build_tcp_packet to_bytes src dst payload seq ack flags opts) (\<lambda>packet.
     Inr (tcp_event client src dst payload seq ack flags opts k))"

lemma tcp_send_Inr [res_simps]:
  "tcp_send to_bytes c src dst p s a fl opts k = Inr e \<longleftrightarrow>
     is_ok (build_tcp_packet to_bytes src dst p s a fl opts) \<and> e = tcp_event c src dst p s a fl opts k"
  by (auto simp: tcp_send_def is_ok_iff res_simps)

lemma tcp_send_total:
  assumes "link_ok to_bytes src dst" and "opts = None \<or> opts = tcp_opts src"
    and "fits 32 s" "fits 32 a" and "set fl \<subseteq> set ''FSRPAU''" and "length p \<le> 65455"
  shows "tcp_send to_bytes c src dst p s a fl opts k = Inr (tcp_event c src dst p s a fl opts k)"
  using build_tcp_packet_total [OF assms] by (simp add: tcp_send_Inr)

text \<open>The payloads of one direction with their sequence numbers.\<close>

definition data_of :: "bool \<Rightarrow> packet_event list \<Rightarrow> (int \<times> bytes) list" where
  "data_of side evs = concat (map (\<lambda>e.
     case segment e of
       Some l \<Rightarrow> (case raw l of Some p \<Rightarrow> if from_client e = side then [(tcp_seq (tcp l), p)] else [] | None \<Rightarrow> [])
     | None \<Rightarrow> []) evs)"

lemma data_of_append [simp]: "data_of side (xs @ ys) = data_of side xs @ data_of side ys"
  by (simp add: data_of_def)

lemma data_of_Nil [simp]: "data_of side [] = []"
  by (simp add: data_of_def)

lemma data_of_event [simp]:
  "data_of side (tcp_event c src dst p s a fl opts k # evs)
     = (if c = side \<and> p \<noteq> [] then [(s, p)] else []) @ data_of side evs"
  by (auto simp: data_of_def tcp_event_def tcp_packet_layers_def split_beta)

lemma data_of_marker [simp]:
  "data_of side (\<lparr>segment = None, from_client = c, kind = k\<rparr> # evs) = data_of side evs"
  by (simp add: data_of_def)

section \<open>The receiver\<close>

text \<open>
  A receiver of one direction takes the segments whose sequence number is the one it expects
  next; \<open>parse_frames\<close> takes frames off the bytes it collected.
\<close>

fun receive :: "int \<Rightarrow> bytes \<Rightarrow> (int \<times> bytes) list \<Rightarrow> int \<times> bytes" where
  "receive expected buf [] = (expected, buf)"
| "receive expected buf ((s, p) # segs) =
     (if s = expected then receive (expected + int (length p)) (buf @ p) segs
      else receive expected buf segs)"

fun parse_frames :: "(bytes \<Rightarrow> ('f \<times> bytes) option) \<Rightarrow> nat \<Rightarrow> bytes \<Rightarrow> 'f list \<times> bytes" where
  "parse_frames parse 0 s = ([], s)"
| "parse_frames parse (Suc n) s =
     (case parse s of
        None \<Rightarrow> ([], s)
      | Some (f, rest) \<Rightarrow> (let (fs, left) = parse_frames parse n rest in (f # fs, left)))"

text \<open>Frames sent back to back, one in each segment.\<close>

fun segments :: "('f \<Rightarrow> bytes) \<Rightarrow> int \<Rightarrow> 'f list \<Rightarrow> (int \<times> bytes) list" where
  "segments enc s [] = []"
| "segments enc s (f # fs) = (s, enc f) # segments enc (s + int (length (enc f))) fs"

definition stream_length :: "('f \<Rightarrow> bytes) \<Rightarrow> 'f list \<Rightarrow> int" where
  "stream_length enc fs = int (length (concat (map enc fs)))"

lemma stream_length_simps [simp]:
  "stream_length enc [] = 0"
  "stream_length enc (f # fs) = int (length (enc f)) + stream_length enc fs"
  by (simp_all add: stream_length_def)

lemma receive_segments:
  "receive s buf (segments enc s fs) = (s + stream_length enc fs, buf @ concat (map enc fs))"
  by (induction fs arbitrary: s buf) simp_all

locale framing =
  fixes parse :: "bytes \<Rightarrow> ('f \<times> bytes) option"
    and ok :: "'f \<Rightarrow> bool"
    and enc :: "'f \<Rightarrow> bytes"
  assumes parse_enc: "ok f \<Longrightarrow> parse (enc f @ rest) = Some (f, rest)"
begin

lemma parse_concat:
  "\<forall>f \<in> set fs. ok f \<Longrightarrow> parse_frames parse (length fs) (concat (map enc fs) @ rest) = (fs, rest)"
  by (induction fs) (simp_all add: parse_enc)

text \<open>The far end receives every frame of a run of segments, and nothing else.\<close>

lemma delivered:
  assumes "data = segments enc s fs" and "\<forall>f \<in> set fs. ok f"
  shows "fst (receive s [] data) = s + stream_length enc fs
    \<and> parse_frames parse (length fs) (snd (receive s [] data)) = (fs, [])"
  using parse_concat [OF assms(2), of "[]"] by (simp add: assms(1) receive_segments)

end

end
