(* ===== verification/Modbus.thy ===== *)
theory Modbus
  imports PyValue TcpStream
begin

text \<open>
  \<open>backend/app/protocol_engines/modbus/function_codes.py\<close> and \<open>build_mbap_header\<close> of
  \<open>modbus/packets.py\<close>: the request and response PDUs of the Modbus function codes.

  A handler object is a constructor of \<open>handler\<close>; \<open>config\<close> and \<open>payload\<close> are JSON
  objects, so every access, comparison and packing can raise as in Python.
\<close>

section \<open>Exceptions and the MBAP header\<close>

definition build_exception_response :: "int \<Rightarrow> int \<Rightarrow> bytes res" where
  "build_exception_response function_code exception_code =
     struct_pack ''>BB'' [128 OR function_code, exception_code]"

definition build_mbap_header :: "int \<Rightarrow> int \<Rightarrow> nat \<Rightarrow> bytes res" where
  "build_mbap_header transaction_id uid pdu_length =
     (let protocol_id = 0; len = int pdu_length + 1
      in struct_pack ''>HHHB'' [transaction_id, protocol_id, len, uid])"

section \<open>The handlers\<close>

datatype handler =
    FC01ReadCoils | FC02ReadDiscreteInputs | FC03ReadHoldingRegisters | FC04ReadInputRegisters
  | FC05WriteSingleCoil | FC06WriteSingleRegister | FC07ReadExceptionStatus | FC08Diagnostics
  | FC15WriteMultipleCoils | FC16WriteMultipleRegisters | FC43ReadDeviceIdentification

fun function_code :: "handler \<Rightarrow> int" where
  "function_code FC01ReadCoils = 0x01"
| "function_code FC02ReadDiscreteInputs = 0x02"
| "function_code FC03ReadHoldingRegisters = 0x03"
| "function_code FC04ReadInputRegisters = 0x04"
| "function_code FC05WriteSingleCoil = 0x05"
| "function_code FC06WriteSingleRegister = 0x06"
| "function_code FC07ReadExceptionStatus = 0x07"
| "function_code FC08Diagnostics = 0x08"
| "function_code FC15WriteMultipleCoils = 0x0F"
| "function_code FC16WriteMultipleRegisters = 0x10"
| "function_code FC43ReadDeviceIdentification = 0x2B"

definition FUNCTION_CODE_HANDLERS :: "(int \<times> handler) list" where
  "FUNCTION_CODE_HANDLERS =
     [(0x01, FC01ReadCoils), (0x02, FC02ReadDiscreteInputs), (0x03, FC03ReadHoldingRegisters),
      (0x04, FC04ReadInputRegisters), (0x05, FC05WriteSingleCoil), (0x06, FC06WriteSingleRegister),
      (0x07, FC07ReadExceptionStatus), (0x08, FC08Diagnostics), (0x0F, FC15WriteMultipleCoils),
      (0x10, FC16WriteMultipleRegisters), (0x2B, FC43ReadDeviceIdentification)]"

definition get_handler :: "int \<Rightarrow> handler res" where
  "get_handler fc =
     (case map_of FUNCTION_CODE_HANDLERS fc of None \<Rightarrow> Inl ValueError | Some h \<Rightarrow> Inr h)"

text \<open>Packing bits: \<open>for i, value in enumerate(values): if value: data[i // 8] |= 1 << (i % 8)\<close>.\<close>

fun pack_bits :: "nat \<Rightarrow> pyval list \<Rightarrow> bytes \<Rightarrow> bytes res" where
  "pack_bits i [] data = Inr data"
| "pack_bits i (v # vs) data =
     (if truthy v then
        if i div 8 < length data
        then pack_bits (Suc i) vs (data[i div 8 := data ! (i div 8) OR push_bit (i mod 8) 1])
        else Inl IndexError
      else pack_bits (Suc i) vs data)"

definition bytearray :: "int \<Rightarrow> bytes res" where
  "bytearray n = (if 0 \<le> n then Inr (replicate (nat n) 0) else Inl ValueError)"

text \<open>\<open>[x] * quantity\<close>\<close>

definition repeat_val :: "pyval \<Rightarrow> pyval \<Rightarrow> pyval res" where
  "repeat_val x quantity = bnd (as_int TypeError quantity) (\<lambda>q. Inr (PList (replicate (nat q) x)))"

subsection \<open>Reading (FC01 to FC04)\<close>

definition read_request :: "int \<Rightarrow> pydict \<Rightarrow> bytes res" where
  "read_request fc config =
     (let start_address = pd_get config ''start_address'' (PInt 0);
          quantity = pd_get config ''quantity'' (PInt 1)
      in pack_vals ''>BHH'' [PInt fc, start_address, quantity])"

definition read_bits_response :: "int \<Rightarrow> pydict \<Rightarrow> pydict \<Rightarrow> bytes res" where
  "read_bits_response fc config payload =
     (let quantity = pd_get config ''quantity'' (PInt 1)
      in bnd (repeat_val (PBool False) quantity) (\<lambda>dflt.
         let values = pd_get payload ''values'' dflt
         in bnd (as_int TypeError quantity) (\<lambda>q.
            let byte_count = (q + 7) div 8
            in bnd (bytearray byte_count) (\<lambda>data0.
               bnd (py_slice_to values q) (\<lambda>vs.
               bnd (pack_bits 0 vs data0) (\<lambda>data.
               bnd (struct_pack ''>BB'' [fc, byte_count]) (\<lambda>hdr.
               Inr (hdr @ data))))))))"

text \<open>\<open>pdu += struct.pack(">H", value & 0xFFFF)\<close> over the values.\<close>

definition pack_register :: "pyval \<Rightarrow> bytes res" where
  "pack_register v = bnd (as_int TypeError v) (\<lambda>n. struct_pack ''>H'' [n AND 65535])"

definition read_regs_response :: "int \<Rightarrow> pydict \<Rightarrow> pydict \<Rightarrow> bytes res" where
  "read_regs_response fc config payload =
     (let quantity = pd_get config ''quantity'' (PInt 1)
      in bnd (repeat_val (PInt 0) quantity) (\<lambda>dflt.
         let values = pd_get payload ''values'' dflt
         in bnd (as_int TypeError quantity) (\<lambda>q.
            let byte_count = q * 2
            in bnd (struct_pack ''>BB'' [fc, byte_count]) (\<lambda>hdr.
               bnd (py_slice_to values q) (\<lambda>vs.
               bnd (concatM pack_register vs) (\<lambda>regs.
               Inr (hdr @ regs)))))))"

subsection \<open>Writing (FC05, FC06, FC15, FC16)\<close>

definition write_coil_pdu :: "pydict \<Rightarrow> bytes res" where
  "write_coil_pdu config =
     (let address = pd_get config ''address'' (PInt 0);
          v = pd_get config ''value'' (PBool False);
          coil_value = (if truthy v then 0xFF00 else 0)
      in pack_vals ''>BHH'' [PInt 0x05, address, PInt coil_value])"

definition write_register_pdu :: "pydict \<Rightarrow> bytes res" where
  "write_register_pdu config =
     (let address = pd_get config ''address'' (PInt 0);
          v = pd_get config ''value'' (PInt 0)
      in bnd (as_int TypeError v) (\<lambda>n.
         pack_vals ''>BHH'' [PInt 0x06, address, PInt (n AND 65535)]))"

definition write_coils_request :: "pydict \<Rightarrow> bytes res" where
  "write_coils_request config =
     (let start_address = pd_get config ''start_address'' (PInt 0);
          values = pd_get config ''values'' (PList [PBool False])
      in bnd (py_len values) (\<lambda>quantity.
         let byte_count = (quantity + 7) div 8
         in bnd (bytearray byte_count) (\<lambda>data0.
            bnd (py_iter values) (\<lambda>vs.
            bnd (pack_bits 0 vs data0) (\<lambda>data.
            bnd (pack_vals ''>BHHB'' [PInt 0x0F, start_address, PInt quantity, PInt byte_count]) (\<lambda>pdu.
            Inr (pdu @ data)))))))"

definition write_coils_response :: "pydict \<Rightarrow> bytes res" where
  "write_coils_response config =
     (let start_address = pd_get config ''start_address'' (PInt 0);
          values = pd_get config ''values'' (PList [PBool False])
      in bnd (py_len values) (\<lambda>quantity.
         pack_vals ''>BHH'' [PInt 0x0F, start_address, PInt quantity]))"

definition write_regs_request :: "pydict \<Rightarrow> bytes res" where
  "write_regs_request config =
     (let start_address = pd_get config ''start_address'' (PInt 0);
          values = pd_get config ''values'' (PList [PInt 0])
      in bnd (py_len values) (\<lambda>quantity.
         let byte_count = quantity * 2
         in bnd (pack_vals ''>BHHB'' [PInt 0x10, start_address, PInt quantity, PInt byte_count]) (\<lambda>pdu.
            bnd (py_iter values) (\<lambda>vs.
            bnd (concatM pack_register vs) (\<lambda>regs.
            Inr (pdu @ regs))))))"

definition write_regs_response :: "pydict \<Rightarrow> bytes res" where
  "write_regs_response config =
     (let start_address = pd_get config ''start_address'' (PInt 0);
          values = pd_get config ''values'' (PList [PInt 0])
      in bnd (py_len values) (\<lambda>quantity.
         pack_vals ''>BHH'' [PInt 0x10, start_address, PInt quantity]))"

subsection \<open>Diagnostics (FC07, FC08)\<close>

definition exception_status_response :: "pydict \<Rightarrow> bytes res" where
  "exception_status_response payload =
     (let status = pd_get payload ''exception_status'' (PInt 0)
      in bnd (as_int TypeError status) (\<lambda>n. struct_pack ''>BB'' [0x07, n AND 255]))"

definition RETURN_QUERY_DATA :: int where "RETURN_QUERY_DATA = 0x0000"
definition RETURN_DIAGNOSTIC_REGISTER :: int where "RETURN_DIAGNOSTIC_REGISTER = 0x0002"
definition counter_functions :: "int list" where "counter_functions = [0x000B, 0x000C, 0x000E]"

definition diagnostics_request :: "pydict \<Rightarrow> bytes res" where
  "diagnostics_request config =
     (let sub_function = pd_get config ''sub_function'' (PInt RETURN_QUERY_DATA);
          data = pd_get config ''data'' (PInt 0)
      in pack_vals ''>BHH'' [PInt 0x08, sub_function, data])"

definition diagnostics_response :: "pydict \<Rightarrow> pydict \<Rightarrow> bytes res" where
  "diagnostics_response config payload =
     (let sub_function = pd_get config ''sub_function'' (PInt RETURN_QUERY_DATA);
          data = (if py_eq sub_function (PInt RETURN_QUERY_DATA) then pd_get config ''data'' (PInt 0)
                  else if list_ex (\<lambda>n. py_eq sub_function (PInt n)) counter_functions
                    then pd_get payload ''counter_value'' (PInt 0)
                  else if py_eq sub_function (PInt RETURN_DIAGNOSTIC_REGISTER)
                    then pd_get payload ''diagnostic_register'' (PInt 0)
                  else pd_get config ''data'' (PInt 0))
      in pack_vals ''>BHH'' [PInt 0x08, sub_function, data])"

subsection \<open>Device identification (FC43)\<close>

definition MEI_TYPE :: int where "MEI_TYPE = 0x0E"

definition device_id_request :: "pydict \<Rightarrow> bytes res" where
  "device_id_request config =
     (let device_id_code = pd_get config ''device_id_code'' (PInt 1);
          object_id = pd_get config ''object_id'' (PInt 0)
      in pack_vals ''>BBBB'' [PInt 0x2B, PInt MEI_TYPE, device_id_code, object_id])"

text \<open>\<open>v >= n\<close> and \<open>min(v, 3) | 0x80\<close> of a JSON value.\<close>

fun val_ge :: "pyval \<Rightarrow> nat \<Rightarrow> bool res" where
  "val_ge (PInt k) n = Inr (int n \<le> k)"
| "val_ge (PBool b) n = Inr (int n \<le> (if b then 1 else 0))"
| "val_ge (PFloat x) n = Inr (Fin False n 0 \<le> x)"
| "val_ge v n = Inl TypeError"

fun conformity_level :: "pyval \<Rightarrow> int res" where
  "conformity_level (PInt k) = Inr (min k 3 OR 128)"
| "conformity_level (PBool b) = Inr ((if b then 1 else 0) OR 128)"
| "conformity_level (PFloat x) = (if Fin False 3 0 < x then Inr (3 OR 128) else Inl TypeError)"
| "conformity_level v = Inl TypeError"

text \<open>The objects of the basic level have defaults, those of the higher levels are optional.\<close>

definition basic_object :: "pyval \<Rightarrow> int \<times> string \<times> string \<Rightarrow> (int \<times> pyval) list res" where
  "basic_object identity = (\<lambda>(obj_id, key, dflt).
     bnd (py_in (PStr key) identity) (\<lambda>present.
     if present then bnd (py_item identity key) (\<lambda>v. Inr [(obj_id, v)])
     else Inr [(obj_id, PStr dflt)]))"

definition optional_object :: "pyval \<Rightarrow> int \<times> string \<Rightarrow> (int \<times> pyval) list res" where
  "optional_object identity = (\<lambda>(obj_id, key).
     bnd (py_get identity key PNone) (\<lambda>v. Inr (if truthy v then [(obj_id, v)] else [])))"

definition basic_objects :: "(int \<times> string \<times> string) list" where
  "basic_objects = [(0x00, ''vendor_name'', ''PacketArch''), (0x01, ''product_code'', ''Simulated''),
     (0x02, ''major_minor_revision'', ''1.0.0'')]"

definition regular_objects :: "(int \<times> string) list" where
  "regular_objects = [(0x03, ''vendor_url''), (0x04, ''product_name''), (0x05, ''model_name'')]"

definition extended_objects :: "(int \<times> string) list" where
  "extended_objects = [(0x06, ''user_application_name'')]"

definition device_objects :: "pyval \<Rightarrow> pyval \<Rightarrow> (int \<times> pyval) list res" where
  "device_objects code identity =
     bnd (val_ge code 1) (\<lambda>g1.
     bnd (if g1 then concatM (basic_object identity) basic_objects else Inr []) (\<lambda>o1.
     bnd (val_ge code 2) (\<lambda>g2.
     bnd (if g2 then concatM (optional_object identity) regular_objects else Inr []) (\<lambda>o2.
     bnd (val_ge code 3) (\<lambda>g3.
     bnd (if g3 then concatM (optional_object identity) extended_objects else Inr []) (\<lambda>o3.
     Inr (o1 @ o2 @ o3)))))))"

fun object_bytes :: "pyval \<Rightarrow> bytes res" where
  "object_bytes (PStr s) = Inr (utf8 s)"
| "object_bytes v = bytes_of v"

definition pack_object :: "int \<times> pyval \<Rightarrow> bytes res" where
  "pack_object = (\<lambda>(obj_id, v).
     bnd (object_bytes v) (\<lambda>obj.
     bnd (struct_pack ''>BB'' [obj_id, int (length obj)]) (\<lambda>hdr. Inr (hdr @ obj))))"

definition device_id_response :: "pydict \<Rightarrow> pydict \<Rightarrow> bytes res" where
  "device_id_response config payload =
     (let device_id_code = pd_get config ''device_id_code'' (PInt 1);
          identity = pd_get payload ''modbus_identity'' (PDict [])
      in bnd (device_objects device_id_code identity) (\<lambda>objects.
         bnd (conformity_level device_id_code) (\<lambda>conformity.
         bnd (pack_vals ''>BBBBBBB'' [PInt 0x2B, PInt MEI_TYPE, device_id_code, PInt conformity,
                PInt 0, PInt 0, PInt (int (length objects))]) (\<lambda>response.
         bnd (concatM pack_object objects) (\<lambda>data.
         Inr (response @ data))))))"

text \<open>
  With a fingerprint, the identity builder's bytes are used as they are when there are any.
\<close>

definition response_from_fingerprint :: "pydict \<Rightarrow> bytes \<Rightarrow> bytes res" where
  "response_from_fingerprint config raw_bytes =
     (if raw_bytes \<noteq> [] then bnd (struct_pack ''>B'' [0x2B]) (\<lambda>fc. Inr (fc @ raw_bytes))
      else device_id_response config [])"

section \<open>The two operations of a handler\<close>

fun build_request :: "handler \<Rightarrow> pydict \<Rightarrow> bytes res" where
  "build_request FC05WriteSingleCoil config = write_coil_pdu config"
| "build_request FC06WriteSingleRegister config = write_register_pdu config"
| "build_request FC07ReadExceptionStatus config = struct_pack ''>B'' [0x07]"
| "build_request FC08Diagnostics config = diagnostics_request config"
| "build_request FC15WriteMultipleCoils config = write_coils_request config"
| "build_request FC16WriteMultipleRegisters config = write_regs_request config"
| "build_request FC43ReadDeviceIdentification config = device_id_request config"
| "build_request h config = read_request (function_code h) config"

fun build_response :: "handler \<Rightarrow> pydict \<Rightarrow> pydict \<Rightarrow> bytes res" where
  "build_response FC01ReadCoils config payload = read_bits_response 0x01 config payload"
| "build_response FC02ReadDiscreteInputs config payload = read_bits_response 0x02 config payload"
| "build_response FC03ReadHoldingRegisters config payload = read_regs_response 0x03 config payload"
| "build_response FC04ReadInputRegisters config payload = read_regs_response 0x04 config payload"
| "build_response FC05WriteSingleCoil config payload = write_coil_pdu config"
| "build_response FC06WriteSingleRegister config payload = write_register_pdu config"
| "build_response FC07ReadExceptionStatus config payload = exception_status_response payload"
| "build_response FC08Diagnostics config payload = diagnostics_response config payload"
| "build_response FC15WriteMultipleCoils config payload = write_coils_response config"
| "build_response FC16WriteMultipleRegisters config payload = write_regs_response config"
| "build_response FC43ReadDeviceIdentification config payload = device_id_response config payload"

definition build_exception :: "handler \<Rightarrow> int \<Rightarrow> bytes res" where
  "build_exception h exception_code = build_exception_response (function_code h) exception_code"

section \<open>What a receiver reads back\<close>

definition decode_registers :: "bytes \<Rightarrow> int list" where
  "decode_registers data = map be_val (chunks 2 data)"

definition coil :: "bytes \<Rightarrow> nat \<Rightarrow> bool" where
  "coil data k = bit (data ! (k div 8)) (k mod 8)"

text \<open>One frame off a TCP stream, by the length field of its MBAP header.\<close>

definition parse_adu :: "bytes \<Rightarrow> ((int \<times> int \<times> bytes) \<times> bytes) option" where
  "parse_adu s =
     (if length s < 7 \<or> be_val (slice 2 4 s) \<noteq> 0 then None
      else let n = nat (be_val (slice 4 6 s))
           in if n = 0 \<or> length s < 6 + n then None
              else Some ((be_val (slice 0 2 s), be_val (slice 6 7 s), slice 7 (6 + n) s), drop (6 + n) s))"

lemma coil_update:
  assumes "k < 8 * length data" and "i < 8 * length data"
  shows "coil (data[i div 8 := data ! (i div 8) OR push_bit (i mod 8) 1]) k \<longleftrightarrow> coil data k \<or> k = i"
proof (cases "k div 8 = i div 8")
  case True
  have "(k = i) = (k mod 8 = i mod 8)" using True by (metis div_mult_mod_eq)
  moreover have "i div 8 < length data" using assms(2) by linarith
  ultimately show ?thesis
    using True by (auto simp: coil_def bit_or_iff bit_exp_iff)
next
  case False
  then show ?thesis by (auto simp: coil_def)
qed

lemma pack_bits_coils:
  assumes "i + length vs \<le> 8 * length data"
  shows "\<exists>data'. pack_bits i vs data = Inr data' \<and> length data' = length data
    \<and> (\<forall>k < 8 * length data. coil data' k \<longleftrightarrow>
          coil data k \<or> (i \<le> k \<and> k < i + length vs \<and> truthy (vs ! (k - i))))"
  using assms
proof (induction vs arbitrary: i data)
  case (Cons v vs)
  let ?d = "if truthy v then data[i div 8 := data ! (i div 8) OR push_bit (i mod 8) 1] else data"
  have i: "i < 8 * length data" using Cons.prems by simp
  then have "i div 8 < length data" by linarith
  then have step: "pack_bits i (v # vs) data = pack_bits (Suc i) vs ?d" and len: "length ?d = length data"
    by simp_all
  have c: "coil ?d k \<longleftrightarrow> coil data k \<or> (truthy v \<and> k = i)" if "k < 8 * length data" for k
    using coil_update [OF that i] by simp
  from Cons.IH [of "Suc i" ?d] Cons.prems obtain data' where
    IH: "pack_bits (Suc i) vs ?d = Inr data'" "length data' = length data"
      "\<forall>k < 8 * length data. coil data' k \<longleftrightarrow>
          coil ?d k \<or> (Suc i \<le> k \<and> k < Suc i + length vs \<and> truthy (vs ! (k - Suc i)))"
    unfolding len by auto
  have "coil data' k \<longleftrightarrow> coil data k \<or> (i \<le> k \<and> k < i + length (v # vs) \<and> truthy ((v # vs) ! (k - i)))"
    if "k < 8 * length data" for k
  proof (cases "k = i")
    case False
    then have "(v # vs) ! (k - i) = vs ! (k - Suc i)" if "i \<le> k"
      using that by (cases "k - i") (auto simp: Suc_diff_Suc diff_Suc)
    with False IH(3) c that show ?thesis by auto
  qed (use IH(3) c that in auto)
  with step IH show ?case by auto
qed auto

lemma coil_zeros: "coil (replicate n 0) k = False" if "k < 8 * n"
  using that by (simp add: coil_def less_mult_imp_div_less mult.commute)

lemma pack_bits_fresh:
  assumes "length vs \<le> 8 * n"
  shows "\<exists>data. pack_bits 0 vs (replicate n 0) = Inr data \<and> length data = n
    \<and> (\<forall>k < 8 * n. coil data k \<longleftrightarrow> k < length vs \<and> truthy (vs ! k))"
  using pack_bits_coils [of 0 vs "replicate n 0"] assms by (auto simp: coil_zeros)

lemma pack_register_PInt: "pack_register (PInt n) = Inr (be_bytes 2 n)"
proof -
  have "be_bytes 2 (n mod 65536) = be_bytes 2 n"
    using be_bytes_mod [of 2 n] by simp
  then show ?thesis by (simp add: pack_register_def and_mask_16)
qed

lemma pack_registers: "concatM pack_register (map PInt ns) = Inr (concat (map (be_bytes 2) ns))"
  by (induction ns) (simp_all add: pack_register_PInt)

lemma chunks_registers: "chunks 2 (concat (map (be_bytes 2) ns)) = map (be_bytes 2) ns"
  by (induction ns) (simp_all add: chunks.simps [of 2 "_ @ _"] flip: length_greater_0_conv)

lemma decode_packed: "decode_registers (concat (map (be_bytes 2) ns)) = map (\<lambda>n. n mod 65536) ns"
  by (simp add: decode_registers_def chunks_registers comp_def)

lemma length_registers: "length (concat (map (be_bytes 2) ns)) = 2 * length ns"
  by (induction ns) simp_all

lemmas pdu_defs =
  read_regs_response_def read_bits_response_def write_coils_request_def write_regs_request_def
  repeat_val_def bytearray_def pd_get_def slice_to_def

lemma take_map_PInt: "take n (map PInt ns) = map PInt (take n ns)"
  by (simp add: take_map)

lemma parse_adu_frame:
  assumes "build_mbap_header tid uid (length pdu) = Inr hdr"
  shows "parse_adu (hdr @ pdu @ rest) = Some ((tid, uid, pdu), rest)"
proof -
  have r: "0 \<le> tid" "tid < 65536" "int (length pdu) + 1 < 65536" "0 \<le> uid" "uid < 256"
    and h: "hdr = be_bytes 2 tid @ be_bytes 2 0 @ be_bytes 2 (int (length pdu) + 1) @ [word_of_int uid]"
    using assms by (auto simp: build_mbap_header_def Let_def res_simps split: if_splits)
  have v: "be_val (be_bytes 2 tid) = tid" "be_val (be_bytes 2 0) = 0"
    "be_val (be_bytes 2 (int (length pdu) + 1)) = int (length pdu) + 1"
    using r by simp_all
  have u: "be_val [word_of_int uid] = uid" using r by (simp add: be_val_def uint_byte)
  have s: "slice 0 2 (hdr @ pdu @ rest) = be_bytes 2 tid"
    "slice 2 4 (hdr @ pdu @ rest) = be_bytes 2 0"
    "slice 4 6 (hdr @ pdu @ rest) = be_bytes 2 (int (length pdu) + 1)"
    "slice 6 7 (hdr @ pdu @ rest) = [word_of_int uid]"
    "slice 7 (7 + length pdu) (hdr @ pdu @ rest) = pdu"
    "drop (7 + length pdu) (hdr @ pdu @ rest) = rest"
    unfolding h by (simp_all add: slice_def)
  have n: "nat (int (length pdu) + 1) = Suc (length pdu)" by simp
  show ?thesis
    unfolding parse_adu_def s v n using s(5,6) by (simp add: h u)
qed

text \<open>The frames of a conversation: transaction, unit and PDU.\<close>

fun adu_ok :: "int \<times> int \<times> bytes \<Rightarrow> bool" where
  "adu_ok (tid, uid, pdu) =
     (0 \<le> tid \<and> tid < 65536 \<and> 0 \<le> uid \<and> uid < 256 \<and> int (length pdu) + 1 < 65536)"

fun adu_bytes :: "int \<times> int \<times> bytes \<Rightarrow> bytes" where
  "adu_bytes (tid, uid, pdu) =
     be_bytes 2 tid @ be_bytes 2 0 @ be_bytes 2 (int (length pdu) + 1) @ [word_of_int uid] @ pdu"

lemma mbap_adu:
  "build_mbap_header tid uid (length pdu) = Inr hdr \<longleftrightarrow>
     adu_ok (tid, uid, pdu) \<and> hdr = be_bytes 2 tid @ be_bytes 2 0 @ be_bytes 2 (int (length pdu) + 1) @ [word_of_int uid]"
  by (auto simp: build_mbap_header_def Let_def res_simps split: if_splits)

lemma mbap_adu_bytes:
  "build_mbap_header tid uid (length pdu) = Inr hdr \<Longrightarrow> adu_ok (tid, uid, pdu) \<and> hdr @ pdu = adu_bytes (tid, uid, pdu)"
  by (simp add: mbap_adu)

interpretation adu: framing parse_adu adu_ok adu_bytes
proof
  fix f rest
  assume "adu_ok f"
  then show "parse_adu (adu_bytes f @ rest) = Some (f, rest)"
    using parse_adu_frame [OF mbap_adu [THEN iffD2]] by (cases f) simp
qed

section \<open>The properties\<close>

text \<open>
  C36: Reading registers: for a quantity of up to 127 and at least that many values, the
  response is the function code, the byte count of the data, and data from which a receiver
  reads back the requested number of values, each reduced to 16 bits.
\<close>

theorem read_registers_roundtrip:
  assumes "h \<in> {FC03ReadHoldingRegisters, FC04ReadInputRegisters}"
    and "map_of config ''quantity'' = Some (PInt q)" and "0 \<le> q" and "q \<le> 127"
    and "map_of payload ''values'' = Some (PList (map PInt ns))" and "q \<le> int (length ns)"
  shows "\<exists>data. build_response h config payload
        = Inr (word_of_int (function_code h) # word_of_int (int (length data)) # data)
      \<and> length data = 2 * nat q \<and> decode_registers data = map (\<lambda>n. n mod 65536) (take (nat q) ns)"
proof -
  let ?data = "concat (map (be_bytes 2) (take (nat q) ns))"
  have len: "length ?data = 2 * nat q" using assms(6) by (simp add: length_registers)
  have "build_response h config payload
      = Inr (word_of_int (function_code h) # word_of_int (q * 2) # ?data)"
    using assms by (auto simp: pdu_defs take_map_PInt pack_registers)
  moreover have "q * 2 = int (length ?data)" using assms(3) unfolding len by simp
  ultimately show ?thesis
    using len decode_packed by (intro exI [of _ ?data]) simp
qed

theorem read_registers_roundtrip_witness:
  "\<exists>data. build_response FC03ReadHoldingRegisters [(''quantity'', PInt 2)]
        [(''values'', PList (map PInt [70000, -1, 5]))]
      = Inr (word_of_int (function_code FC03ReadHoldingRegisters) # word_of_int (int (length data)) # data)
    \<and> decode_registers data = [4464, 65535]"
proof -
  have "\<exists>data. build_response FC03ReadHoldingRegisters [(''quantity'', PInt 2)]
        [(''values'', PList (map PInt [70000, -1, 5]))]
      = Inr (word_of_int (function_code FC03ReadHoldingRegisters) # word_of_int (int (length data)) # data)
    \<and> length data = 2 * nat 2 \<and> decode_registers data = map (\<lambda>n. n mod 65536) (take (nat 2) [70000, -1, 5])"
    by (rule read_registers_roundtrip) simp_all
  then show ?thesis by (simp add: numeral_2_eq_2) metis
qed

text \<open>
  With fewer values than the requested quantity the response is malformed: its byte
  count announces twice the quantity although fewer bytes follow.
\<close>

theorem read_registers_short:
  assumes "map_of config ''quantity'' = Some (PInt q)" and "q \<le> 127"
    and "map_of payload ''values'' = Some (PList (map PInt ns))" and "int (length ns) < q"
  shows "\<exists>data. build_response FC03ReadHoldingRegisters config payload
        = Inr (0x03 # word_of_int (2 * q) # data) \<and> int (length data) < 2 * q"
  using assms by (auto simp: pdu_defs take_map_PInt pack_registers length_registers mult.commute)

theorem read_registers_short_witness:
  "\<exists>data. build_response FC03ReadHoldingRegisters [(''quantity'', PInt 10)]
        [(''values'', PList (map PInt [1]))] = Inr (0x03 # word_of_int (2 * 10) # data)
    \<and> int (length data) < 2 * 10"
  by (rule read_registers_short [where ns = "[1]"]) simp_all

text \<open>
  Reading bits: for a quantity of up to 2040 and at least that many values, the response
  has as many data bytes as its byte count says, bit \<open>k\<close> of the data is the truth value of
  the \<open>k\<close>-th value, and the padding bits are clear.
\<close>

theorem read_bits_roundtrip:
  assumes "h \<in> {FC01ReadCoils, FC02ReadDiscreteInputs}"
    and "map_of config ''quantity'' = Some (PInt q)" and "0 \<le> q" and "q \<le> 2040"
    and "map_of payload ''values'' = Some (PList vs)" and "q \<le> int (length vs)"
  shows "\<exists>data. build_response h config payload
        = Inr (word_of_int (function_code h) # word_of_int (int (length data)) # data)
      \<and> length data = (nat q + 7) div 8
      \<and> (\<forall>k < 8 * length data. coil data k \<longleftrightarrow> k < nat q \<and> truthy (vs ! k))"
proof -
  let ?n = "(nat q + 7) div 8" and ?vs = "take (nat q) vs"
  have n: "nat ((q + 7) div 8) = ?n" using assms(3) by (simp add: nat_div_distrib nat_add_distrib)
  have q8: "0 \<le> (q + 7) div 8" "(q + 7) div 8 < 256" using assms(3,4) by linarith+
  have "length ?vs = nat q" using assms(3,6) by simp
  moreover have "nat q \<le> 8 * ?n" by linarith
  ultimately obtain data where d: "pack_bits 0 ?vs (replicate ?n 0) = Inr data" "length data = ?n"
    "\<forall>k < 8 * ?n. coil data k \<longleftrightarrow> k < nat q \<and> truthy (?vs ! k)"
    using pack_bits_fresh [of ?vs ?n] by auto
  have "build_response h config payload
      = Inr (word_of_int (function_code h) # word_of_int ((q + 7) div 8) # data)"
    using assms(1-3,5) q8 d(1) by (auto simp: pdu_defs n)
  moreover have "int (length data) = (q + 7) div 8" using q8 d(2) n by linarith
  ultimately show ?thesis using d by (intro exI [of _ data]) auto
qed

theorem read_bits_roundtrip_witness:
  "\<exists>data. build_response FC01ReadCoils [(''quantity'', PInt 3)]
        [(''values'', PList [PBool True, PInt 0, PInt 7])]
      = Inr (word_of_int (function_code FC01ReadCoils) # word_of_int (int (length data)) # data)
    \<and> length data = (nat 3 + 7) div 8
    \<and> (\<forall>k < 8 * length data. coil data k \<longleftrightarrow> k < nat 3 \<and> truthy ([PBool True, PInt 0, PInt 7] ! k))"
  by (rule read_bits_roundtrip) simp_all

text \<open>
  Writing: the request for several coils or registers names the start address and the
  number of values, its byte count is the length of the data, and the data reads back as the
  values; the requests the code cannot represent (more than 2040 coils or 127 registers) are
  refused with \<open>struct.error\<close>.
\<close>

theorem write_requests_roundtrip:
  assumes "map_of config ''start_address'' = Some (PInt a)" and "0 \<le> a" and "a < 65536"
    and "map_of config ''values'' = Some (PList (map PInt ns))"
  shows "(if length ns \<le> 127
      then \<exists>data. build_request FC16WriteMultipleRegisters config
              = Inr (0x10 # be_bytes 2 a @ be_bytes 2 (int (length ns)) @ word_of_int (int (length data)) # data)
            \<and> decode_registers data = map (\<lambda>n. n mod 65536) ns
      else build_request FC16WriteMultipleRegisters config = Inl StructError)
    \<and> (if length ns \<le> 2040
      then \<exists>data. build_request FC15WriteMultipleCoils config
              = Inr (0x0F # be_bytes 2 a @ be_bytes 2 (int (length ns)) @ word_of_int (int (length data)) # data)
            \<and> (\<forall>k < 8 * length data. coil data k \<longleftrightarrow> k < length ns \<and> ns ! k \<noteq> 0)
      else build_request FC15WriteMultipleCoils config = Inl StructError)"
proof -
  let ?regs = "concat (map (be_bytes 2) ns)"
  have regs: "if length ns \<le> 127
      then \<exists>data. build_request FC16WriteMultipleRegisters config
              = Inr (0x10 # be_bytes 2 a @ be_bytes 2 (int (length ns)) @ word_of_int (int (length data)) # data)
            \<and> decode_registers data = map (\<lambda>n. n mod 65536) ns
      else build_request FC16WriteMultipleRegisters config = Inl StructError"
    using assms
    by (auto simp: pdu_defs pack_vals_def pack_registers length_registers decode_packed mult.commute
        intro!: exI [of _ ?regs])
  let ?n = "(length ns + 7) div 8"
  obtain data where d: "pack_bits 0 (map PInt ns) (replicate ?n 0) = Inr data" "length data = ?n"
    "\<forall>k < 8 * ?n. coil data k \<longleftrightarrow> k < length ns \<and> truthy (map PInt ns ! k)"
  proof -
    have "length (map PInt ns) \<le> 8 * ?n" unfolding length_map by linarith
    from pack_bits_fresh [OF this] that show ?thesis by auto
  qed
  have i: "(int (length ns) + 7) div 8 = int ?n" by (simp add: zdiv_int)
  have bits: "if length ns \<le> 2040
      then \<exists>data. build_request FC15WriteMultipleCoils config
              = Inr (0x0F # be_bytes 2 a @ be_bytes 2 (int (length ns)) @ word_of_int (int (length data)) # data)
            \<and> (\<forall>k < 8 * length data. coil data k \<longleftrightarrow> k < length ns \<and> ns ! k \<noteq> 0)
      else build_request FC15WriteMultipleCoils config = Inl StructError"
  proof (cases "length ns \<le> 2040")
    case True
    then have "?n < 256" by linarith
    then have "build_request FC15WriteMultipleCoils config
        = Inr (0x0F # be_bytes 2 a @ be_bytes 2 (int (length ns)) @ word_of_int (int (length data)) # data)"
      using assms d(1,2) True by (simp add: pdu_defs pack_vals_def i)
    with True d show ?thesis by (auto intro!: exI [of _ data])
  next
    case False
    then have "\<not> ?n < 256" by linarith
    with False assms d(1) show ?thesis by (auto simp: pdu_defs pack_vals_def i)
  qed
  from regs bits show ?thesis by blast
qed

theorem write_requests_roundtrip_witness:
  "\<exists>data. build_request FC16WriteMultipleRegisters [(''start_address'', PInt 16), (''values'', PList (map PInt [1, 2]))]
      = Inr (0x10 # be_bytes 2 16 @ be_bytes 2 (int (length [1, 2 :: int])) @ word_of_int (int (length data)) # data)
    \<and> decode_registers data = [1, 2]"
  using write_requests_roundtrip
    [of "[(''start_address'', PInt 16), (''values'', PList (map PInt [1, 2]))]" 16 "[1, 2]"] by simp

text \<open>
  A TCP stream of Modbus frames comes apart again: from a frame built by
  \<open>build_mbap_header\<close> and followed by anything, the receiver recovers the transaction, the
  unit and the PDU by the length field, and is left with exactly what follows.
\<close>

theorem mbap_stream_framing:
  assumes "build_mbap_header tid uid (length pdu) = Inr hdr"
  shows "parse_adu (hdr @ pdu @ rest) = Some ((tid, uid, pdu), rest)"
  by (rule parse_adu_frame [OF assms])

theorem mbap_stream_framing_witness:
  "parse_adu ([0, 5, 0, 0, 0, 3, 9] @ [7, 255] @ [1, 2, 3]) = Some ((5, 9, [7, 255]), [1, 2, 3])"
  by (rule mbap_stream_framing)
    (simp add: build_mbap_header_def be_bytes_def numeral_2_eq_2)

end
