(* ===== verification/ModbusRtu.thy ===== *)
theory ModbusRtu
  imports Crc16
begin

text \<open>
  \<open>backend/app/protocol_engines/modbus/rtu_packets.py\<close>: RTU frames with their CRC-16.

  \<open>_init_crc_table\<close> fills a module-level table once; every call computes the same table, so
  it is the constant \<open>CRC_TABLE\<close>.
\<close>

definition init_crc_table :: "crc_reg list" where
  "init_crc_table = crc_table_of 0xA001"

definition CRC_TABLE :: "crc_reg list" where
  "CRC_TABLE = init_crc_table"

definition calculate_crc16 :: "bytes \<Rightarrow> crc_reg" where
  "calculate_crc16 data = crc_fold CRC_TABLE 0xFFFF data"

definition verify_crc16 :: "bytes \<Rightarrow> bool" where
  "verify_crc16 frame =
     (if length frame < 4 then False
      else let data = take (length frame - 2) frame;
               received_crc = le_val (drop (length frame - 2) frame);
               calculated_crc = calculate_crc16 data
           in received_crc = uint calculated_crc)"

definition build_rtu_frame :: "int \<Rightarrow> bytes \<Rightarrow> bytes res" where
  "build_rtu_frame uid pdu =
     bnd (py_bytes [uid]) (\<lambda>u.
     let frame_data = u @ pdu; crc = calculate_crc16 frame_data
     in bnd (struct_pack ''<H'' [uint crc]) (\<lambda>c. Inr (frame_data @ c)))"

section \<open>The table is a CRC table\<close>

interpretation modbus: reflected_crc16 CRC_TABLE
  unfolding CRC_TABLE_def init_crc_table_def
  by (rule reflected_table) (simp add: bit_numeral_rec)

lemma calculate_bitwise: "calculate_crc16 data = crc_bitwise 0xA001 0xFFFF data"
  by (simp add: calculate_crc16_def CRC_TABLE_def init_crc_table_def crc_fold_bitwise)

lemma verify_residue:
  assumes "4 \<le> length frame"
  shows "verify_crc16 frame \<longleftrightarrow> crc_fold CRC_TABLE 0xFFFF frame = 0"
proof -
  define data where "data = take (length frame - 2) frame"
  obtain b0 b1 where t: "drop (length frame - 2) frame = [b0, b1]"
  proof -
    have "length (drop (length frame - 2) frame) = 2" using assms by simp
    then show ?thesis using that
      by (auto simp: length_Suc_conv numeral_2_eq_2 simp del: length_drop)
  qed
  have f: "frame = data @ [b0, b1]" unfolding data_def t [symmetric] by simp
  have "le_val [b0, b1] = uint (calculate_crc16 data) \<longleftrightarrow> [b0, b1] = le_bytes 2 (uint (calculate_crc16 data))"
  proof -
    have "uint (calculate_crc16 data) < 65536"
      using unsigned_less [of "calculate_crc16 data"] by simp
    then have "le_val (le_bytes 2 (uint (calculate_crc16 data))) = uint (calculate_crc16 data)"
      by simp
    then show ?thesis
      using le_val_inject [of "[b0, b1]" "le_bytes 2 (uint (calculate_crc16 data))"] by simp
  qed
  moreover have "\<not> length frame < 4" using assms by simp
  moreover have "verify_crc16 frame \<longleftrightarrow> le_val [b0, b1] = uint (calculate_crc16 data)"
    using \<open>\<not> length frame < 4\<close> by (simp add: verify_crc16_def Let_def t flip: data_def)
  ultimately show ?thesis
    by (subst f) (simp add: modbus.fold_residue calculate_crc16_def)
qed

lemma build_rtu_frame_eq:
  assumes "build_rtu_frame uid pdu = Inr frame"
  shows "0 \<le> uid \<and> uid < 256 \<and>
    frame = (word_of_int uid # pdu) @ le_bytes 2 (uint (calculate_crc16 (word_of_int uid # pdu)))"
  using assms by (auto simp: build_rtu_frame_def Let_def res_simps py_byte_eq_Inr split: if_splits)

lemma built_frame_valid:
  assumes "build_rtu_frame uid pdu = Inr frame" and "pdu \<noteq> []"
  shows "4 \<le> length frame" and "verify_crc16 frame"
proof -
  let ?d = "word_of_int uid # pdu"
  have f: "frame = ?d @ le_bytes 2 (uint (calculate_crc16 ?d))"
    using build_rtu_frame_eq [OF assms(1)] by simp
  then show l: "4 \<le> length frame" using assms(2) by (cases pdu) simp_all
  have "frame = ?d @ [ucast (calculate_crc16 ?d), ucast (drop_bit 8 (calculate_crc16 ?d))]"
    unfolding f modbus.le_bytes_reg ..
  then have "crc_fold CRC_TABLE 0xFFFF frame = 0"
    by (simp only: modbus.fold_residue) (simp add: modbus.le_bytes_reg calculate_crc16_def)
  with verify_residue [OF l] show "verify_crc16 frame" by simp
qed

section \<open>The properties\<close>

text \<open>
  C34: The table-driven CRC of the RTU module is the bitwise CRC-16 with the reflected
  polynomial 0xA001 and the initial value 0xFFFF, for every input.
\<close>

theorem modbus_crc_is_bitwise:
  "calculate_crc16 data = crc_bitwise 0xA001 0xFFFF data"
  by (rule calculate_bitwise)

text \<open>
  C35: A frame that \<open>build_rtu_frame\<close> returns for a non-empty PDU passes \<open>verify_crc16\<close>, and
  no change of one byte or of two adjacent bytes, checksum included, goes unnoticed.
\<close>

theorem rtu_frame_integrity:
  assumes "build_rtu_frame uid pdu = Inr (us @ [x, y] @ vs)" and "pdu \<noteq> []"
  shows "verify_crc16 (us @ [x, y] @ vs)
    \<and> (verify_crc16 (us @ [x', y'] @ vs) \<longleftrightarrow> [x', y'] = [x, y])"
proof -
  note valid = built_frame_valid [OF assms]
  then have "4 \<le> length (us @ [x', y'] @ vs)" by simp
  with valid verify_residue modbus.burst_detected [of x' y' x y "0xFFFF" us vs]
  show ?thesis by metis
qed

theorem rtu_frame_integrity_witness:
  "\<exists>us x y. build_rtu_frame 17 [3, 0, 107, 0, 3] = Inr (us @ [x, y])
     \<and> verify_crc16 (us @ [x, y] @ []) \<and> \<not> verify_crc16 (us @ [x, y XOR 1] @ [])"
proof -
  let ?d = "[17, 3, 0, 107, 0, 3] :: bytes"
  let ?c = "calculate_crc16 ?d"
  have b: "build_rtu_frame 17 [3, 0, 107, 0, 3] = Inr (?d @ le_bytes 2 (uint ?c))"
    using unsigned_less [of ?c] by (simp add: build_rtu_frame_def Let_def)
  obtain x y where xy: "le_bytes 2 (uint ?c) = [x, y]"
    using modbus.le_bytes_reg by blast
  have "y XOR 1 \<noteq> y" by (metis xor_left_cancel xor.right_neutral xor_self_eq zero_neq_one)
  with rtu_frame_integrity [of 17 "[3, 0, 107, 0, 3]" ?d x y "[]" x "y XOR 1"] b
  show ?thesis unfolding xy by fastforce
qed

end
