(* ===== verification/ModbusEngine.thy ===== *)
theory ModbusEngine
  imports Modbus
begin

text \<open>
  \<open>backend/app/protocol_engines/modbus/engine.py\<close>: the conversation of a Modbus TCP client
  and server: handshake, device identification, poll cycles with retries and injected
  exceptions, and the closing handshake.

  The random draws and the fingerprint's decisions of a poll are the fields of \<open>choice\<close>; the
  times of the events are drawn as well and are left out.  An event carries the layers that the
  code passes to scapy, or no layers for the timeout marker; \<open>wire\<close> is scapy's \<open>bytes(packet)\<close>,
  and where it raises the sequence ends.
\<close>

section \<open>State\<close>

record conv =
  transaction_id :: int
  tcp_seq_client :: int
  tcp_seq_server :: int
  tcp_ack_client :: int
  tcp_ack_server :: int
  retry_count :: int
  pending_request :: bool

record flow =
  source :: device
  destination :: device
  config :: pydict
  payload_template :: pydict
  payload_generator :: bool
  wire :: "layers \<Rightarrow> bytes res"

record choice =
  sampled_fc :: "pyval option"
  sampled_range :: "(int \<times> int) option"
  should_timeout :: bool
  max_retries :: int
  should_retry :: bool
  inject_error :: bool
  exception_code :: int
  identity_bytes :: bytes
  generated :: "string \<Rightarrow> int res"

definition unit_of :: "device \<Rightarrow> int" where
  "unit_of d = (case unit_id d of None \<Rightarrow> 1 | Some u \<Rightarrow> if u = 0 then 1 else u)"

definition client_seg :: "flow \<Rightarrow> bytes \<Rightarrow> int \<Rightarrow> int \<Rightarrow> string \<Rightarrow> tcp_fingerprint option \<Rightarrow> string \<Rightarrow> packet_event" where
  "client_seg f payload seq ack flags opts k =
     tcp_event True (source f) (destination f) payload seq ack flags opts k"

definition server_seg :: "flow \<Rightarrow> bytes \<Rightarrow> int \<Rightarrow> int \<Rightarrow> string \<Rightarrow> tcp_fingerprint option \<Rightarrow> string \<Rightarrow> packet_event" where
  "server_seg f payload seq ack flags opts k =
     tcp_event False (destination f) (source f) payload seq ack flags opts k"

text \<open>The segments as they are sent.\<close>

definition client_send :: "flow \<Rightarrow> bytes \<Rightarrow> int \<Rightarrow> int \<Rightarrow> string \<Rightarrow> tcp_fingerprint option \<Rightarrow> string \<Rightarrow> packet_event res" where
  "client_send f payload seq ack flags opts k =
     tcp_send (wire f) True (source f) (destination f) payload seq ack flags opts k"

definition server_send :: "flow \<Rightarrow> bytes \<Rightarrow> int \<Rightarrow> int \<Rightarrow> string \<Rightarrow> tcp_fingerprint option \<Rightarrow> string \<Rightarrow> packet_event res" where
  "server_send f payload seq ack flags opts k =
     tcp_send (wire f) False (destination f) (source f) payload seq ack flags opts k"

lemma send_Inr [res_simps]:
  "client_send f p s a fl opts k = Inr e \<longleftrightarrow>
     is_ok (build_tcp_packet (wire f) (source f) (destination f) p s a fl opts) \<and> e = client_seg f p s a fl opts k"
  "server_send f p s a fl opts k = Inr e \<longleftrightarrow>
     is_ok (build_tcp_packet (wire f) (destination f) (source f) p s a fl opts) \<and> e = server_seg f p s a fl opts k"
  by (simp_all add: client_send_def server_send_def client_seg_def server_seg_def tcp_send_Inr)

section \<open>Startup\<close>

definition handshake :: "flow \<Rightarrow> conv \<Rightarrow> (packet_event list \<times> conv) res" where
  "handshake f st =
     (let client_seq = tcp_seq_client st; server_seq = tcp_seq_server st
      in bnd (client_send f [] client_seq 0 ''S'' (tcp_opts (source f)) ''tcp_syn'') (\<lambda>syn.
         bnd (server_send f [] server_seq (client_seq + 1) ''SA'' (tcp_opts (destination f)) ''tcp_syn_ack'') (\<lambda>syn_ack.
         bnd (client_send f [] (client_seq + 1) (server_seq + 1) ''A'' None ''tcp_ack'') (\<lambda>last_ack.
         Inr ([syn, syn_ack, last_ack],
              st\<lparr>tcp_seq_client := client_seq + 1, tcp_seq_server := server_seq + 1,
                 tcp_ack_client := server_seq + 1, tcp_ack_server := client_seq + 1\<rparr>)))))"

definition mei_discovery :: "flow \<Rightarrow> bytes \<Rightarrow> conv \<Rightarrow> (packet_event list \<times> conv) res" where
  "mei_discovery f identity st =
     (let uid = unit_of (destination f);
          client_seq = tcp_seq_client st; server_seq = tcp_seq_server st;
          config_mei = [(''device_id_code'', PInt 0x02), (''object_id'', PInt 0)];
          tid = (transaction_id st + 1) mod 65536
      in bnd (get_handler 0x2B) (\<lambda>handler.
         bnd (build_request handler config_mei) (\<lambda>request_pdu.
         bnd (build_mbap_header tid uid (length request_pdu)) (\<lambda>request_mbap.
         bnd (response_from_fingerprint config_mei identity) (\<lambda>response_pdu.
         bnd (build_mbap_header tid uid (length response_pdu)) (\<lambda>response_mbap.
         let mei_request = request_mbap @ request_pdu;
             mei_response = response_mbap @ response_pdu;
             client_seq' = client_seq + int (length mei_request);
             server_seq' = server_seq + int (length mei_response)
         in bnd (client_send f mei_request client_seq server_seq ''PA'' (tcp_opts (source f)) ''modbus_mei_request'') (\<lambda>req.
            bnd (server_send f mei_response server_seq client_seq' ''PA'' (tcp_opts (destination f)) ''modbus_mei_response'') (\<lambda>resp.
            Inr ([req, resp],
                 st\<lparr>transaction_id := tid, tcp_seq_client := client_seq', tcp_seq_server := server_seq',
                    tcp_ack_client := server_seq', tcp_ack_server := client_seq'\<rparr>)))))))))"

definition startup_sequence :: "flow \<Rightarrow> bytes \<Rightarrow> conv \<Rightarrow> (packet_event list \<times> conv) res" where
  "startup_sequence f identity st =
     bnd (handshake f st) (\<lambda>(evs, st1).
     bnd (mei_discovery f identity st1) (\<lambda>(evs', st2). Inr (evs @ evs', st2)))"

section \<open>A poll\<close>

text \<open>\<open>FUNCTION_CODE_HANDLERS.get(function_code)\<close> of a JSON value.\<close>

definition find_handler :: "pyval \<Rightarrow> handler res" where
  "find_handler v =
     bnd (check_hash v) (\<lambda>_.
     case find (\<lambda>(k, h). py_eq v (PInt k)) FUNCTION_CODE_HANDLERS of
       None \<Rightarrow> Inl ValueError
     | Some (k, h) \<Rightarrow> Inr h)"

definition poll_config :: "choice \<Rightarrow> pydict \<Rightarrow> pydict" where
  "poll_config ch cfg =
     (case sampled_range ch of
        None \<Rightarrow> cfg
      | Some (start_address, quantity) \<Rightarrow>
          dset ''quantity'' (PInt (min quantity 125)) (dset ''start_address'' (PInt start_address) cfg))"

definition poll_function :: "choice \<Rightarrow> pydict \<Rightarrow> pyval" where
  "poll_function ch cfg =
     (case sampled_fc ch of Some v \<Rightarrow> v | None \<Rightarrow> pd_get cfg ''function_code'' (PInt 3))"

text \<open>The values of the payload generator, drawn anew in every poll: a KeyError gives 0.\<close>

definition register_value :: "(string \<Rightarrow> int res) \<Rightarrow> nat \<Rightarrow> pyval res" where
  "register_value gen i =
     (case gen (''reg_'' @ int_str (int i)) of
        Inr n \<Rightarrow> Inr (PInt (n AND 65535))
      | Inl e \<Rightarrow> if e = KeyError then Inr (PInt 0) else Inl e)"

definition response_template :: "flow \<Rightarrow> pydict \<Rightarrow> choice \<Rightarrow> pyval \<Rightarrow> pydict res" where
  "response_template f cfg ch fc =
     (if \<not> truthy (pd_get (payload_template f) ''values'' PNone) \<and> payload_generator f
         \<and> (py_eq fc (PInt 3) \<or> py_eq fc (PInt 4))
      then bnd (as_int TypeError (pd_get cfg ''quantity'' (PInt 1))) (\<lambda>q.
           bnd (mapM (register_value (generated ch)) [0..<nat q]) (\<lambda>vs.
           Inr (dset ''values'' (PList vs) (payload_template f))))
      else Inr (payload_template f))"

definition response_pdu :: "flow \<Rightarrow> pydict \<Rightarrow> choice \<Rightarrow> pyval \<Rightarrow> handler \<Rightarrow> bytes res" where
  "response_pdu f cfg ch fc h =
     (if inject_error ch then
        bnd (as_int TypeError fc) (\<lambda>n. build_exception_response n (exception_code ch))
      else if py_eq fc (PInt 0x2B) then response_from_fingerprint cfg (identity_bytes ch)
      else bnd (response_template f cfg ch fc) (\<lambda>payload. build_response h cfg payload))"

definition after_timeout :: "choice \<Rightarrow> nat \<Rightarrow> conv \<Rightarrow> conv" where
  "after_timeout ch request_len st =
     (if retry_count st < max_retries ch \<and> should_retry ch
      then st\<lparr>retry_count := retry_count st + 1, pending_request := True\<rparr>
      else st\<lparr>retry_count := 0, pending_request := False,
              transaction_id := (transaction_id st + 1) mod 65536,
              tcp_seq_client := tcp_seq_client st + int request_len\<rparr>)"

definition poll_cycle :: "flow \<Rightarrow> choice \<Rightarrow> conv \<Rightarrow> (packet_event list \<times> conv \<times> pydict) res" where
  "poll_cycle f ch st =
     (let cfg = poll_config ch (config f);
          fc = poll_function ch (config f);
          uid = unit_of (destination f);
          client_seq = tcp_seq_client st; server_seq = tcp_seq_server st
      in bnd (find_handler fc) (\<lambda>h.
         bnd (build_request h cfg) (\<lambda>request_pdu.
         bnd (build_mbap_header (transaction_id st) uid (length request_pdu)) (\<lambda>mbap.
         let modbus_request = mbap @ request_pdu
         in bnd (client_send f modbus_request client_seq server_seq ''PA'' (tcp_opts (source f)) ''modbus_request'') (\<lambda>req.
            if should_timeout ch then
              Inr ([req, \<lparr>segment = None, from_client = False, kind = ''modbus_timeout''\<rparr>],
                   after_timeout ch (length modbus_request) st, cfg)
            else
              bnd (response_pdu f cfg ch fc h) (\<lambda>rpdu.
              bnd (build_mbap_header (transaction_id st) uid (length rpdu)) (\<lambda>response_mbap.
              let modbus_response = response_mbap @ rpdu;
                  client_seq' = client_seq + int (length modbus_request);
                  server_seq' = server_seq + int (length modbus_response)
              in bnd (server_send f modbus_response server_seq client_seq' ''PA'' (tcp_opts (destination f))
                        (if inject_error ch then ''modbus_exception'' else ''modbus_response'')) (\<lambda>resp.
                 Inr ([req, resp],
                      st\<lparr>retry_count := 0, pending_request := False,
                         transaction_id := (transaction_id st + 1) mod 65536,
                         tcp_seq_client := client_seq', tcp_seq_server := server_seq',
                         tcp_ack_server := client_seq', tcp_ack_client := server_seq'\<rparr>, cfg)))))))))"

text \<open>Polls in sequence; the configuration is updated in place by a poll.\<close>

fun polls :: "flow \<Rightarrow> choice list \<Rightarrow> conv \<Rightarrow> (packet_event list \<times> conv) res" where
  "polls f [] st = Inr ([], st)"
| "polls f (ch # chs) st =
     bnd (poll_cycle f ch st) (\<lambda>(evs, st1, cfg).
     bnd (polls (f\<lparr>config := cfg\<rparr>) chs st1) (\<lambda>(evs', st2). Inr (evs @ evs', st2)))"

text \<open>
  \<open>generate_retry_sequence\<close>: polls until a response arrives, \<open>max_retries\<close> times at most.
\<close>

fun retry_sequence :: "flow \<Rightarrow> choice list \<Rightarrow> conv \<Rightarrow> (packet_event list \<times> conv) res" where
  "retry_sequence f [] st = Inr ([], st)"
| "retry_sequence f (ch # chs) st =
     bnd (poll_cycle f ch st) (\<lambda>(evs, st1, cfg).
     if \<not> pending_request st1 then Inr (evs, st1)
     else bnd (retry_sequence (f\<lparr>config := cfg\<rparr>) chs st1) (\<lambda>(evs', st2). Inr (evs @ evs', st2)))"

section \<open>Shutdown\<close>

definition shutdown_sequence :: "flow \<Rightarrow> conv \<Rightarrow> packet_event list res" where
  "shutdown_sequence f st =
     (let client_seq = tcp_seq_client st; server_seq = tcp_seq_server st
      in bnd (client_send f [] client_seq server_seq ''FA'' None ''tcp_fin'') (\<lambda>fin.
         bnd (server_send f [] server_seq (client_seq + 1) ''FA'' None ''tcp_fin_ack'') (\<lambda>fin_ack.
         bnd (client_send f [] (client_seq + 1) (server_seq + 1) ''A'' None ''tcp_ack'') (\<lambda>last_ack.
         Inr [fin, fin_ack, last_ack]))))"

section \<open>What the two sides send\<close>

lemma data_of_seg [simp]:
  "data_of side (client_seg f p s a fl opts k # evs) = (if side \<and> p \<noteq> [] then [(s, p)] else []) @ data_of side evs"
  "data_of side (server_seg f p s a fl opts k # evs) = (if \<not> side \<and> p \<noteq> [] then [(s, p)] else []) @ data_of side evs"
  by (auto simp: client_seg_def server_seg_def)

text \<open>The frames of a run of transactions with one unit.\<close>

fun numbered :: "int \<Rightarrow> int \<Rightarrow> bytes list \<Rightarrow> (int \<times> int \<times> bytes) list" where
  "numbered tid uid [] = []"
| "numbered tid uid (p # ps) = (tid mod 65536, uid, p) # numbered (tid + 1) uid ps"

lemma numbered_mod: "numbered (tid mod 65536) uid ps = numbered tid uid ps"
  by (induction ps arbitrary: tid) (simp_all, metis mod_add_left_eq)

lemma length_numbered [simp]: "length (numbered tid uid ps) = length ps"
  by (induction ps arbitrary: tid) simp_all

lemma adu_bytes_nonempty [simp]: "adu_bytes f \<noteq> []"
  by (cases f) (simp add: be_bytes_def)

lemma adu_length: "7 \<le> length (adu_bytes f)"
  by (cases f) simp

text \<open>A poll that is answered puts one frame on each stream and moves both sides past it.\<close>

lemma poll_answered:
  assumes "poll_cycle f ch st = Inr (evs, st1, cfg)" and "\<not> should_timeout ch"
  obtains req resp where
    "adu_ok (transaction_id st, unit_of (destination f), req)"
    and "adu_ok (transaction_id st, unit_of (destination f), resp)"
    and "data_of True evs = [(tcp_seq_client st, adu_bytes (transaction_id st, unit_of (destination f), req))]"
    and "data_of False evs = [(tcp_seq_server st, adu_bytes (transaction_id st, unit_of (destination f), resp))]"
    and "tcp_seq_client st1
      = tcp_seq_client st + int (length (adu_bytes (transaction_id st, unit_of (destination f), req)))"
    and "tcp_seq_server st1
      = tcp_seq_server st + int (length (adu_bytes (transaction_id st, unit_of (destination f), resp)))"
    and "transaction_id st1 = (transaction_id st + 1) mod 65536"
    and "tcp_ack_client st1 = tcp_seq_server st1" and "tcp_ack_server st1 = tcp_seq_client st1"
proof -
  from assms obtain pdu rpdu m rm where
    m: "build_mbap_header (transaction_id st) (unit_of (destination f)) (length pdu) = Inr m"
      "build_mbap_header (transaction_id st) (unit_of (destination f)) (length rpdu) = Inr rm"
    and e: "evs = [client_seg f (m @ pdu) (tcp_seq_client st) (tcp_seq_server st) ''PA'' (tcp_opts (source f)) ''modbus_request'',
        server_seg f (rm @ rpdu) (tcp_seq_server st) (tcp_seq_client st + int (length (m @ pdu))) ''PA''
          (tcp_opts (destination f)) (if inject_error ch then ''modbus_exception'' else ''modbus_response'')]"
    and s: "st1 = st\<lparr>retry_count := 0, pending_request := False,
        transaction_id := (transaction_id st + 1) mod 65536,
        tcp_seq_client := tcp_seq_client st + int (length (m @ pdu)),
        tcp_seq_server := tcp_seq_server st + int (length (rm @ rpdu)),
        tcp_ack_server := tcp_seq_client st + int (length (m @ pdu)),
        tcp_ack_client := tcp_seq_server st + int (length (rm @ rpdu))\<rparr>"
    unfolding poll_cycle_def Let_def by (simp only: res_simps if_False) auto
  note a = mbap_adu_bytes [OF m(1)] mbap_adu_bytes [OF m(2)]
  have n: "m @ pdu \<noteq> []" "rm @ rpdu \<noteq> []" using a by (metis adu_bytes_nonempty)+
  show ?thesis
    using that [of pdu rpdu] a n by (simp add: e s del: adu_bytes.simps adu_ok.simps append_is_Nil_conv)
qed

lemma polls_streams:
  assumes "polls f chs st = Inr (evs, st')" and "\<forall>ch \<in> set chs. \<not> should_timeout ch"
  obtains reqs resps where "length reqs = length chs" and "length resps = length chs"
    and "\<forall>a \<in> set (numbered (transaction_id st) (unit_of (destination f)) reqs). adu_ok a"
    and "\<forall>a \<in> set (numbered (transaction_id st) (unit_of (destination f)) resps). adu_ok a"
    and "data_of True evs
      = segments adu_bytes (tcp_seq_client st) (numbered (transaction_id st) (unit_of (destination f)) reqs)"
    and "data_of False evs
      = segments adu_bytes (tcp_seq_server st) (numbered (transaction_id st) (unit_of (destination f)) resps)"
    and "tcp_seq_client st' = tcp_seq_client st
      + stream_length adu_bytes (numbered (transaction_id st) (unit_of (destination f)) reqs)"
    and "tcp_seq_server st' = tcp_seq_server st
      + stream_length adu_bytes (numbered (transaction_id st) (unit_of (destination f)) resps)"
  using assms
proof (induction chs arbitrary: f st evs thesis)
  case Nil
  then show ?case by simp
next
  case (Cons ch chs)
  let ?u = "unit_of (destination f)"
  obtain e1 st1 cfg e2 where p: "poll_cycle f ch st = Inr (e1, st1, cfg)"
    and r: "polls (f\<lparr>config := cfg\<rparr>) chs st1 = Inr (e2, st')" and evs: "evs = e1 @ e2"
    using Cons.prems(2) by (auto simp: res_simps)
  have "\<not> should_timeout ch" using Cons.prems(3) by simp
  then obtain req resp where q: "adu_ok (transaction_id st, ?u, req)" "adu_ok (transaction_id st, ?u, resp)"
    "data_of True e1 = [(tcp_seq_client st, adu_bytes (transaction_id st, ?u, req))]"
    "data_of False e1 = [(tcp_seq_server st, adu_bytes (transaction_id st, ?u, resp))]"
    "tcp_seq_client st1 = tcp_seq_client st + int (length (adu_bytes (transaction_id st, ?u, req)))"
    "tcp_seq_server st1 = tcp_seq_server st + int (length (adu_bytes (transaction_id st, ?u, resp)))"
    "transaction_id st1 = (transaction_id st + 1) mod 65536"
    by (rule poll_answered [OF p])
  have t: "transaction_id st mod 65536 = transaction_id st" using q(1) by simp
  show ?case
  proof (rule Cons.IH [OF _ r])
    fix reqs resps :: "bytes list"
    assume l: "length reqs = length chs" "length resps = length chs"
    assume "\<forall>a \<in> set (numbered (transaction_id st1) (unit_of (destination (f\<lparr>config := cfg\<rparr>))) reqs). adu_ok a"
      and "\<forall>a \<in> set (numbered (transaction_id st1) (unit_of (destination (f\<lparr>config := cfg\<rparr>))) resps). adu_ok a"
      and "data_of True e2 = segments adu_bytes (tcp_seq_client st1)
         (numbered (transaction_id st1) (unit_of (destination (f\<lparr>config := cfg\<rparr>))) reqs)"
      and "data_of False e2 = segments adu_bytes (tcp_seq_server st1)
         (numbered (transaction_id st1) (unit_of (destination (f\<lparr>config := cfg\<rparr>))) resps)"
      and "tcp_seq_client st' = tcp_seq_client st1 + stream_length adu_bytes
         (numbered (transaction_id st1) (unit_of (destination (f\<lparr>config := cfg\<rparr>))) reqs)"
      and "tcp_seq_server st' = tcp_seq_server st1 + stream_length adu_bytes
         (numbered (transaction_id st1) (unit_of (destination (f\<lparr>config := cfg\<rparr>))) resps)"
    then show ?thesis
      using Cons.prems(1) [of "req # reqs" "resp # resps"] l q t
      by (simp add: evs numbered_mod del: adu_bytes.simps adu_ok.simps)
  qed (use Cons.prems(3) in simp)
qed

lemma startup_streams:
  assumes "startup_sequence f identity st = Inr (evs, st1)"
  obtains req resp where
    "adu_ok (transaction_id st1, unit_of (destination f), req)"
    and "adu_ok (transaction_id st1, unit_of (destination f), resp)"
    and "data_of True evs = [(tcp_seq_client st + 1, adu_bytes (transaction_id st1, unit_of (destination f), req))]"
    and "data_of False evs = [(tcp_seq_server st + 1, adu_bytes (transaction_id st1, unit_of (destination f), resp))]"
    and "tcp_seq_client st1 = tcp_seq_client st + 1
      + int (length (adu_bytes (transaction_id st1, unit_of (destination f), req)))"
    and "tcp_seq_server st1 = tcp_seq_server st + 1
      + int (length (adu_bytes (transaction_id st1, unit_of (destination f), resp)))"
    and "transaction_id st1 = (transaction_id st + 1) mod 65536"
proof -
  let ?tid = "(transaction_id st + 1) mod 65536" and ?u = "unit_of (destination f)"
  obtain hs st0 evs1 where h: "handshake f st = Inr (hs, st0)" and d: "mei_discovery f identity st0 = Inr (evs1, st1)"
    and evs: "evs = hs @ evs1"
    using assms by (auto simp: startup_sequence_def res_simps)
  have hs: "data_of side hs = []" and st0: "transaction_id st0 = transaction_id st"
    "tcp_seq_client st0 = tcp_seq_client st + 1" "tcp_seq_server st0 = tcp_seq_server st + 1" for side
    using h by (auto simp: handshake_def Let_def res_simps)
  from d obtain m rm req resp where
    m: "build_mbap_header ?tid ?u (length req) = Inr m" "build_mbap_header ?tid ?u (length resp) = Inr rm"
    and e: "evs1 = [client_seg f (m @ req) (tcp_seq_client st0) (tcp_seq_server st0) ''PA'' (tcp_opts (source f)) ''modbus_mei_request'',
          server_seg f (rm @ resp) (tcp_seq_server st0) (tcp_seq_client st0 + int (length (m @ req))) ''PA''
            (tcp_opts (destination f)) ''modbus_mei_response'']"
    and s: "st1 = st0\<lparr>transaction_id := ?tid,
        tcp_seq_client := tcp_seq_client st0 + int (length (m @ req)),
        tcp_seq_server := tcp_seq_server st0 + int (length (rm @ resp)),
        tcp_ack_client := tcp_seq_server st0 + int (length (rm @ resp)),
        tcp_ack_server := tcp_seq_client st0 + int (length (m @ req))\<rparr>"
    unfolding mei_discovery_def Let_def by (simp only: res_simps st0) auto
  note a = mbap_adu_bytes [OF m(1)] mbap_adu_bytes [OF m(2)]
  have n: "m @ req \<noteq> []" "rm @ resp \<noteq> []" using a by (metis adu_bytes_nonempty)+
  show ?thesis
    using that [of req resp] a n
    by (simp add: evs e s st0 hs del: adu_bytes.simps adu_ok.simps append_is_Nil_conv)
qed

lemma polls_growth:
  assumes "polls f chs st = Inr (evs, st')" and "\<forall>ch \<in> set chs. \<not> should_timeout ch"
  shows "tcp_seq_client st + 7 * int (length chs) \<le> tcp_seq_client st'
    \<and> tcp_seq_server st + 7 * int (length chs) \<le> tcp_seq_server st'"
proof -
  have "7 * int (length ps) \<le> stream_length adu_bytes (numbered t u ps)" for t u ps
  proof (induction ps arbitrary: t)
    case (Cons p ps)
    show ?case using Cons [of "t + 1"] adu_length [of "(t mod 65536, u, p)"] by simp
  qed simp
  with polls_streams [OF assms] show ?thesis by (metis add_left_mono)
qed

section \<open>The properties\<close>

definition demo_flow :: "pydict \<Rightarrow> flow" where
  "demo_flow cfg = \<lparr>source = demo_dev ''10.0.0.1'', destination = demo_dev ''10.0.0.2'', config = cfg,
     payload_template = [], payload_generator = False, wire = demo_scapy\<rparr>"

definition demo_choice :: choice where
  "demo_choice = \<lparr>sampled_fc = None, sampled_range = None, should_timeout = False, max_retries = 3,
     should_retry = False, inject_error = False, exception_code = 2, identity_bytes = [], generated = (\<lambda>r. Inr 0)\<rparr>"

definition demo_conv :: conv where
  "demo_conv = \<lparr>transaction_id = 65535, tcp_seq_client = 1000, tcp_seq_server = 2000, tcp_ack_client = 0,
     tcp_ack_server = 0, retry_count = 0, pending_request = False\<rparr>"

lemma demo_flow_fields [simp]:
  "source (demo_flow cfg) = demo_dev ''10.0.0.1''" "destination (demo_flow cfg) = demo_dev ''10.0.0.2''"
  "config (demo_flow cfg) = cfg" "payload_template (demo_flow cfg) = []" "payload_generator (demo_flow cfg) = False"
  "wire (demo_flow cfg) = demo_scapy" "(demo_flow cfg)\<lparr>config := c\<rparr> = demo_flow c"
  "unit_of (demo_dev a) = 1" "tcp_opts (demo_dev a) = Some demo_fp"
  by (simp_all add: demo_flow_def unit_of_def demo_dev_def)

lemma demo_sends [simp]:
  assumes "0 \<le> s" "s < 4294967296" "0 \<le> a" "a < 4294967296" "set fl \<subseteq> set ''FSRPAU''" "length p \<le> 65455"
    and "opts = None \<or> opts = Some demo_fp"
  shows "client_send (demo_flow cfg) p s a fl opts k = Inr (client_seg (demo_flow cfg) p s a fl opts k)"
    and "server_send (demo_flow cfg) p s a fl opts k = Inr (server_seg (demo_flow cfg) p s a fl opts k)"
proof -
  have "device_fits (demo_dev x)" for x
    by (simp add: device_fits_def fits_def demo_dev_def demo_fp_def)
  with assms show "client_send (demo_flow cfg) p s a fl opts k = Inr (client_seg (demo_flow cfg) p s a fl opts k)"
    "server_send (demo_flow cfg) p s a fl opts k = Inr (server_seg (demo_flow cfg) p s a fl opts k)"
    by (simp_all add: client_send_def server_send_def client_seg_def server_seg_def tcp_send_total link_ok_def fits_def)
qed

lemmas demo_engine_defs =
  demo_choice_def demo_conv_def poll_cycle_def poll_config_def poll_function_def
  find_handler_def FUNCTION_CODE_HANDLERS_def check_hash_def Let_def read_request_def build_mbap_header_def
  pack_vals_def pd_get_def response_pdu_def response_template_def pdu_defs num_eq_def

text \<open>
  C6: A conversation without timeouts is a well-formed pair of TCP streams: a receiver that
  follows the sequence numbers from the SYN on collects, on either side, exactly one frame
  for the device identification and one for each poll, the answers with the transaction
  identifiers of the requests.  The first poll reuses the identifier of the device
  identification.
\<close>

theorem modbus_conversation_streams:
  assumes "startup_sequence f identity st = Inr (e1, st1)" and "polls f chs st1 = Inr (e2, st2)"
    and "\<forall>ch \<in> set chs. \<not> should_timeout ch"
  shows "\<exists>req reqs resp resps cs ss.
        length reqs = length chs \<and> length resps = length chs
      \<and> receive (tcp_seq_client st + 1) [] (data_of True (e1 @ e2)) = (tcp_seq_client st2, cs)
      \<and> receive (tcp_seq_server st + 1) [] (data_of False (e1 @ e2)) = (tcp_seq_server st2, ss)
      \<and> parse_frames parse_adu (Suc (length chs)) cs
          = ((transaction_id st1, unit_of (destination f), req)
              # numbered (transaction_id st1) (unit_of (destination f)) reqs, [])
      \<and> parse_frames parse_adu (Suc (length chs)) ss
          = ((transaction_id st1, unit_of (destination f), resp)
              # numbered (transaction_id st1) (unit_of (destination f)) resps, [])"
proof -
  let ?t = "transaction_id st1" and ?u = "unit_of (destination f)"
  obtain req resp where
    a: "adu_ok (?t, ?u, req)" "adu_ok (?t, ?u, resp)"
    and d: "data_of True e1 = [(tcp_seq_client st + 1, adu_bytes (?t, ?u, req))]"
      "data_of False e1 = [(tcp_seq_server st + 1, adu_bytes (?t, ?u, resp))]"
    and s: "tcp_seq_client st1 = tcp_seq_client st + 1 + int (length (adu_bytes (?t, ?u, req)))"
      "tcp_seq_server st1 = tcp_seq_server st + 1 + int (length (adu_bytes (?t, ?u, resp)))"
    by (rule startup_streams [OF assms(1)])
  obtain reqs resps where l: "length reqs = length chs" "length resps = length chs"
    and q: "\<forall>a \<in> set (numbered ?t ?u reqs). adu_ok a" "\<forall>a \<in> set (numbered ?t ?u resps). adu_ok a"
      "data_of True e2 = segments adu_bytes (tcp_seq_client st1) (numbered ?t ?u reqs)"
      "data_of False e2 = segments adu_bytes (tcp_seq_server st1) (numbered ?t ?u resps)"
      "tcp_seq_client st2 = tcp_seq_client st1 + stream_length adu_bytes (numbered ?t ?u reqs)"
      "tcp_seq_server st2 = tcp_seq_server st1 + stream_length adu_bytes (numbered ?t ?u resps)"
    by (rule polls_streams [OF assms(2,3)])
  have c: "data_of True (e1 @ e2)
      = segments adu_bytes (tcp_seq_client st + 1) ((?t, ?u, req) # numbered ?t ?u reqs)"
    "data_of False (e1 @ e2)
      = segments adu_bytes (tcp_seq_server st + 1) ((?t, ?u, resp) # numbered ?t ?u resps)"
    using d q s by (simp_all del: adu_bytes.simps)
  have "\<forall>x \<in> set ((?t, ?u, req) # numbered ?t ?u reqs). adu_ok x"
    "\<forall>x \<in> set ((?t, ?u, resp) # numbered ?t ?u resps). adu_ok x"
    using a q by (simp_all del: adu_ok.simps)
  from adu.delivered [OF c(1) this(1)] adu.delivered [OF c(2) this(2)] show ?thesis
    using l q(5,6) s
    by (intro exI [of _ req] exI [of _ reqs] exI [of _ resp] exI [of _ resps]
        exI [of _ "snd (receive (tcp_seq_client st + 1) [] (data_of True (e1 @ e2)))"]
        exI [of _ "snd (receive (tcp_seq_server st + 1) [] (data_of False (e1 @ e2)))"])
      (simp add: prod_eq_iff del: adu_bytes.simps adu_ok.simps)
qed

lemma demo_startup: "\<exists>e st1. startup_sequence (demo_flow []) [0x0E, 1] demo_conv = Inr (e, st1)
    \<and> transaction_id st1 = 0 \<and> tcp_seq_client st1 = 1012 \<and> 2001 \<le> tcp_seq_server st1 \<and> tcp_seq_server st1 < 3000"
  by (simp add: startup_sequence_def mei_discovery_def handshake_def get_handler_def device_id_request_def
      response_from_fingerprint_def demo_engine_defs MEI_TYPE_def cong: bnd_weak_cong)

lemma demo_poll:
  "0 \<le> transaction_id st \<Longrightarrow> transaction_id st < 65536 \<Longrightarrow> 0 \<le> tcp_seq_client st \<Longrightarrow> tcp_seq_client st < 4294967000 \<Longrightarrow>
   0 \<le> tcp_seq_server st \<Longrightarrow> tcp_seq_server st < 4294967000 \<Longrightarrow>
   \<exists>e st1. polls (demo_flow []) [demo_choice] st = Inr (e, st1) \<and> tcp_seq_client st1 = tcp_seq_client st + 12"
  by (simp add: demo_engine_defs pack_register_PInt cong: bnd_weak_cong)

theorem modbus_conversation_streams_witness:
  "\<exists>e1 st1 e2 st2 p q cs.
     startup_sequence (demo_flow []) [0x0E, 1] demo_conv = Inr (e1, st1)
   \<and> polls (demo_flow []) [demo_choice] st1 = Inr (e2, st2)
   \<and> receive 1001 [] (data_of True (e1 @ e2)) = (1024, cs)
   \<and> parse_frames parse_adu 2 cs = ([(0, 1, p), (0, 1, q)], [])"
proof -
  obtain e st1 where s: "startup_sequence (demo_flow []) [0x0E, 1] demo_conv = Inr (e, st1)"
    and q: "tcp_seq_client st1 = 1012" "transaction_id st1 = 0" "2001 \<le> tcp_seq_server st1" "tcp_seq_server st1 < 3000"
    using demo_startup by blast
  obtain e2 st2 where p: "polls (demo_flow []) [demo_choice] st1 = Inr (e2, st2)"
    and q2: "tcp_seq_client st2 = 1024"
    using demo_poll [of st1] q by auto
  have "\<forall>ch \<in> set [demo_choice]. \<not> should_timeout ch" by (simp add: demo_choice_def)
  from modbus_conversation_streams [OF s p this] obtain req reqs cs where
    "length reqs = 1"
    "receive (tcp_seq_client demo_conv + 1) [] (data_of True (e @ e2)) = (tcp_seq_client st2, cs)"
    "parse_frames parse_adu (Suc (length [demo_choice])) cs
       = ((transaction_id st1, unit_of (destination (demo_flow [])), req)
           # numbered (transaction_id st1) (unit_of (destination (demo_flow []))) reqs, [])" by auto
  then have "receive 1001 [] (data_of True (e @ e2)) = (1024, cs)"
    "parse_frames parse_adu 2 cs = ([(0, 1, req), (0, 1, hd reqs)], [])"
    by (cases reqs; simp add: demo_conv_def q q2 numeral_2_eq_2)+
  with s p show ?thesis by blast
qed

text \<open>
  The sequence numbers are never reduced modulo the 32 bits of the header field: every
  poll adds at least seven to the client's, so a conversation that lasts long enough asks for a
  segment whose number the TCP header cannot hold, and scapy raises.
\<close>

lemma poll_number_fits:
  assumes "poll_cycle f ch st = Inr (evs, st1, cfg)" and "\<not> should_timeout ch"
    and "\<forall>l. is_ok (wire f l) \<longrightarrow> segment_fits l"
  shows "tcp_seq_client st1 < 2 ^ 32"
proof -
  obtain p s fl opts where "is_ok (build_tcp_packet (wire f) (destination f) (source f) p s (tcp_seq_client st1) fl opts)"
    using assms(1,2) unfolding poll_cycle_def Let_def by (simp only: res_simps if_False) auto
  then have "segment_fits (tcp_packet_layers (destination f) (source f) p s (tcp_seq_client st1) fl opts)"
    using assms(3) by (simp add: build_tcp_packet_def)
  then show ?thesis
    by (simp add: segment_fits_def tcp_packet_layers_def split_beta fits_def)
qed

lemma polls_number_fits:
  assumes "polls f chs st = Inr (evs, st')" and "\<forall>ch \<in> set chs. \<not> should_timeout ch"
    and "\<forall>l. is_ok (wire f l) \<longrightarrow> segment_fits l" and "chs \<noteq> []"
  shows "tcp_seq_client st' < 2 ^ 32"
  using assms
proof (induction chs arbitrary: f st evs)
  case (Cons ch chs)
  obtain e1 st1 cfg e2 where p: "poll_cycle f ch st = Inr (e1, st1, cfg)"
    and r: "polls (f\<lparr>config := cfg\<rparr>) chs st1 = Inr (e2, st')"
    using Cons.prems(1) by (auto simp: res_simps)
  show ?case
  proof (cases "chs = []")
    case True
    then show ?thesis using poll_number_fits [OF p _ Cons.prems(3)] Cons.prems(2) r by simp
  next
    case False
    with Cons.IH [OF r] Cons.prems(2,3) show ?thesis by simp
  qed
qed simp



text \<open>
  A retry after a timeout need not repeat the request: with a learned distribution of
  function codes the next poll draws another function, and sends another request under the
  sequence number of the first.  Here the receiver has taken the 12 bytes of the first
  request, while the client goes on after the 8 bytes of the second.
\<close>

theorem retry_changes_request:
  "\<exists>evs st' p q. polls (demo_flow [])
       [demo_choice\<lparr>should_timeout := True, should_retry := True\<rparr>, demo_choice\<lparr>sampled_fc := Some (PInt 7)\<rparr>]
       demo_conv = Inr (evs, st')
     \<and> data_of True evs = [(1000, p), (1000, q)] \<and> p \<noteq> q
     \<and> receive 1000 [] (data_of True evs) = (1012, p) \<and> tcp_seq_client st' = 1008"
  by (simp add: demo_engine_defs after_timeout_def exception_status_response_def be_bytes_def
      numeral_2_eq_2 cong: bnd_weak_cong)

end
