(* ===== verification/RawHeader.thy ===== *)
theory RawHeader
  imports PyValue TcpBuilder
begin

text \<open>
  The hand-built Ethernet, IPv4 and TCP headers of the DNP3 and IEC 104 builders
  (\<open>build_tcp_header\<close>, \<open>build_dnp3_packet\<close> and \<open>build_iec104_packet\<close> in \<open>dnp3/packets.py\<close> and
  \<open>iec104/packets.py\<close>).  The two copies differ in the default destination port only, which is a
  parameter here.
\<close>

section \<open>Addresses\<close>

definition hex_digit :: "char \<Rightarrow> nat option" where
  "hex_digit c =
     (let n = (of_char c :: nat)
      in if 48 \<le> n \<and> n \<le> 57 then Some (n - 48)
         else if 65 \<le> n \<and> n \<le> 70 then Some (n - 55)
         else if 97 \<le> n \<and> n \<le> 102 then Some (n - 87)
         else None)"

text \<open>\<open>bytes.fromhex\<close>: two digits for each byte, white space between the bytes.\<close>

fun fromhex :: "string \<Rightarrow> bytes res" where
  "fromhex [] = Inr []"
| "fromhex [c] = (if is_space c then Inr [] else Inl ValueError)"
| "fromhex (c # d # s) =
     (if is_space c then fromhex (d # s)
      else case (hex_digit c, hex_digit d) of
             (Some h, Some l) \<Rightarrow> bnd (fromhex s) (\<lambda>bs. Inr (of_nat (16 * h + l) # bs))
           | _ \<Rightarrow> Inl ValueError)"

definition mac_octets :: "string \<Rightarrow> bytes res" where
  "mac_octets mac = fromhex (filter (\<lambda>c. c \<noteq> CHR '':'' \<and> c \<noteq> CHR ''-'') mac)"

text \<open>\<open>s.split(sep)\<close> with a one-character separator.\<close>

fun split_on :: "char \<Rightarrow> string \<Rightarrow> string list" where
  "split_on sep [] = [[]]"
| "split_on sep (c # s) =
     (if c = sep then [] # split_on sep s
      else case split_on sep s of w # ws \<Rightarrow> (c # w) # ws | [] \<Rightarrow> [[c]])"

definition ip_octets :: "string \<Rightarrow> int list res" where
  "ip_octets addr = mapM int_of_str (split_on CHR ''.'' addr)"

definition item :: "'a list \<Rightarrow> nat \<Rightarrow> 'a res" where
  "item xs i = (if i < length xs then Inr (xs ! i) else Inl IndexError)"

section \<open>Headers\<close>

definition raw_tcp_header :: "int \<Rightarrow> device \<Rightarrow> device \<Rightarrow> bytes res" where
  "raw_tcp_header default_port src dst =
     bnd (mac_octets (mac_address dst)) (\<lambda>dst_mac.
     bnd (mac_octets (mac_address src)) (\<lambda>src_mac.
     let eth_header = dst_mac @ src_mac @ [0x08, 0x00] in
     bnd (ip_octets (ip_address src)) (\<lambda>src_ip.
     bnd (ip_octets (ip_address dst)) (\<lambda>dst_ip.
     bnd (mapM (item src_ip) [0..<4]) (\<lambda>s.
     bnd (mapM (item dst_ip) [0..<4]) (\<lambda>d.
     bnd (py_bytes ([0x45, 0x00, 0x00, 0x00, 0x00, 0x01, 0x40, 0x00, 0x40, 0x06, 0x00, 0x00] @ s @ d))
       (\<lambda>ip_header.
     let src_port = (if device_port src \<noteq> 0 then device_port src else 50000);
         dst_port = (if device_port dst \<noteq> 0 then device_port dst else default_port)
     in bnd (struct_pack ''>HHIIBBHHH'' [src_port, dst_port, 0, 0, 0x50, 0x18, 65535, 0, 0]) (\<lambda>tcp_header.
        Inr (eth_header @ ip_header @ tcp_header)))))))))"

text \<open>The three patches are slice assignments on the list of octets.\<close>

definition raw_tcp_packet :: "int \<Rightarrow> device \<Rightarrow> device \<Rightarrow> bytes \<Rightarrow> int \<Rightarrow> int \<Rightarrow> bytes res" where
  "raw_tcp_packet default_port src dst frame seq ack =
     bnd (raw_tcp_header default_port src dst) (\<lambda>header.
     let tcp_offset = 34 in
     bnd (struct_pack ''>I'' [seq]) (\<lambda>seq_bytes.
     let h1 = set_slice (tcp_offset + 4) (tcp_offset + 8) seq_bytes header in
     bnd (struct_pack ''>I'' [ack]) (\<lambda>ack_bytes.
     let h2 = set_slice (tcp_offset + 8) (tcp_offset + 12) ack_bytes h1;
         total_len = 20 + 20 + int (length frame) in
     bnd (struct_pack ''>H'' [total_len]) (\<lambda>len_bytes.
     Inr (set_slice 16 18 len_bytes h2 @ frame)))))"

section \<open>The layout of a packet\<close>

lemma raw_header_layout:
  assumes "raw_tcp_header p src dst = Inr h"
  obtains dm sm s d sp dp where
    "mac_octets (mac_address dst) = Inr dm" and "mac_octets (mac_address src) = Inr sm"
    and "h = dm @ sm @ [8, 0] @ [0x45, 0, 0, 0, 0, 1, 0x40, 0, 0x40, 6, 0, 0] @ s @ d
          @ be_bytes 2 sp @ be_bytes 2 dp @ be_bytes 4 0 @ be_bytes 4 0 @ [0x50, 0x18] @ be_bytes 2 65535
          @ be_bytes 2 0 @ be_bytes 2 0"
    and "length s = 4" and "length d = 4" and "0 \<le> sp" and "sp < 65536" and "0 \<le> dp" and "dp < 65536"
    and "sp = (if device_port src \<noteq> 0 then device_port src else 50000)"
    and "dp = (if device_port dst \<noteq> 0 then device_port dst else p)"
proof -
  let ?ports = "[if device_port src \<noteq> 0 then device_port src else 50000,
     if device_port dst \<noteq> 0 then device_port dst else p, 0, 0, 0x50, 0x18, 65535, 0, 0]"
  let ?fixed = "[0x45, 0x00, 0x00, 0x00, 0x00, 0x01, 0x40, 0x00, 0x40, 0x06, 0x00, 0x00] :: int list"
  from assms obtain dm sm si di s d iph tcph where
    m: "mac_octets (mac_address dst) = Inr dm" "mac_octets (mac_address src) = Inr sm"
    and s: "mapM (item si) [0..<4] = Inr s" and d: "mapM (item di) [0..<4] = Inr d"
    and i: "py_bytes (?fixed @ s @ d) = Inr iph"
    and t: "struct_pack ''>HHIIBBHHH'' ?ports = Inr tcph" and h: "h = (dm @ sm @ [8, 0]) @ iph @ tcph"
    unfolding raw_tcp_header_def Let_def by (elim bnd_eq_Inr [THEN iffD1, THEN exE] conjE) (auto simp only: res_simps)
  obtain bs bd where b: "py_bytes s = Inr bs" "py_bytes d = Inr bd"
    and e: "iph = [0x45, 0, 0, 0, 0, 1, 0x40, 0, 0x40, 6, 0, 0] @ bs @ bd"
    using i by (auto simp: res_simps mapM_append py_bytes_def)
  have "length bs = 4" "length bd = 4"
    using py_bytes_length [OF b(1)] py_bytes_length [OF b(2)] mapM_length [OF s] mapM_length [OF d] by simp_all
  then show ?thesis
    using that [OF m] t unfolding h e by (simp add: res_simps split: if_splits)
qed

text \<open>With six-octet MAC addresses the patches land on the fields they are meant for.\<close>

lemma raw_packet_layout:
  assumes "raw_tcp_packet p src dst frame seq ack = Inr pkt"
    and "mac_octets (mac_address dst) = Inr dm" and "length dm = 6"
    and "mac_octets (mac_address src) = Inr sm" and "length sm = 6"
  obtains s d sp dp where
    "pkt = dm @ sm @ [8, 0] @ [0x45, 0] @ be_bytes 2 (40 + int (length frame)) @ [0, 1, 0x40, 0, 0x40, 6, 0, 0]
       @ s @ d @ be_bytes 2 sp @ be_bytes 2 dp @ be_bytes 4 seq @ be_bytes 4 ack @ [0x50, 0x18]
       @ be_bytes 2 65535 @ be_bytes 2 0 @ be_bytes 2 0 @ frame"
    and "length s = 4" and "length d = 4" and "0 \<le> seq" and "seq < 4294967296" and "0 \<le> ack" and "ack < 4294967296"
    and "length frame \<le> 65495"
    and "0 \<le> sp" and "sp < 65536" and "0 \<le> dp" and "dp < 65536"
    and "sp = (if device_port src \<noteq> 0 then device_port src else 50000)"
    and "dp = (if device_port dst \<noteq> 0 then device_port dst else p)"
proof -
  from assms(1) obtain h where h: "raw_tcp_header p src dst = Inr h"
    and r: "0 \<le> seq" "seq < 4294967296" "0 \<le> ack" "ack < 4294967296" "length frame \<le> 65495"
    and pkt: "pkt = set_slice 16 18 (be_bytes 2 (40 + int (length frame)))
        (set_slice 42 46 (be_bytes 4 ack) (set_slice 38 42 (be_bytes 4 seq) h)) @ frame"
    unfolding raw_tcp_packet_def Let_def by (auto simp: res_simps split: if_splits)
  from h obtain s d sp dp where
    hl: "h = dm @ sm @ [8, 0] @ [0x45, 0, 0, 0, 0, 1, 0x40, 0, 0x40, 6, 0, 0] @ s @ d
          @ be_bytes 2 sp @ be_bytes 2 dp @ be_bytes 4 0 @ be_bytes 4 0 @ [0x50, 0x18] @ be_bytes 2 65535
          @ be_bytes 2 0 @ be_bytes 2 0"
    and l: "length s = 4" "length d = 4" "0 \<le> sp" "sp < 65536" "0 \<le> dp" "dp < 65536"
      "sp = (if device_port src \<noteq> 0 then device_port src else 50000)"
      "dp = (if device_port dst \<noteq> 0 then device_port dst else p)"
    by (rule raw_header_layout) (use assms in auto)
  have "set_slice 38 42 (be_bytes 4 seq) h = dm @ sm @ [8, 0] @ [0x45, 0, 0, 0, 0, 1, 0x40, 0, 0x40, 6, 0, 0] @ s @ d
          @ be_bytes 2 sp @ be_bytes 2 dp @ be_bytes 4 seq @ be_bytes 4 0 @ [0x50, 0x18] @ be_bytes 2 65535
          @ be_bytes 2 0 @ be_bytes 2 0"
    unfolding hl set_slice_def using assms(3,5) l by simp
  moreover have "set_slice 42 46 (be_bytes 4 ack) \<dots> = dm @ sm @ [8, 0] @ [0x45, 0, 0, 0, 0, 1, 0x40, 0, 0x40, 6, 0, 0] @ s @ d
          @ be_bytes 2 sp @ be_bytes 2 dp @ be_bytes 4 seq @ be_bytes 4 ack @ [0x50, 0x18] @ be_bytes 2 65535
          @ be_bytes 2 0 @ be_bytes 2 0"
    unfolding set_slice_def using assms(3,5) l by simp
  ultimately have "pkt = dm @ sm @ [8, 0] @ [0x45, 0] @ be_bytes 2 (40 + int (length frame)) @ [0, 1, 0x40, 0, 0x40, 6, 0, 0]
       @ s @ d @ be_bytes 2 sp @ be_bytes 2 dp @ be_bytes 4 seq @ be_bytes 4 ack @ [0x50, 0x18]
       @ be_bytes 2 65535 @ be_bytes 2 0 @ be_bytes 2 0 @ frame"
    unfolding pkt using assms(3,5) by (simp add: set_slice_def)
  with that l r show ?thesis by blast
qed

text \<open>A receiver that trusts the length field of the IPv4 header finds the frame in the packet.\<close>

definition tcp_payload :: "bytes \<Rightarrow> bytes" where
  "tcp_payload pkt = slice 54 (14 + nat (be_val (slice 16 18 pkt))) pkt"

lemma tcp_payload_packet:
  assumes "raw_tcp_packet p src dst frame seq ack = Inr pkt"
    and "mac_octets (mac_address dst) = Inr dm" and "length dm = 6"
    and "mac_octets (mac_address src) = Inr sm" and "length sm = 6"
  shows "tcp_payload (pkt @ trailer) = frame \<and> be_val (slice 38 42 pkt) = seq \<and> be_val (slice 42 46 pkt) = ack
    \<and> slice 24 26 pkt = [0, 0] \<and> slice 50 52 pkt = [0, 0]"
proof -
  obtain s d sp dp where
    pkt: "pkt = dm @ sm @ [8, 0] @ [0x45, 0] @ be_bytes 2 (40 + int (length frame)) @ [0, 1, 0x40, 0, 0x40, 6, 0, 0]
       @ s @ d @ be_bytes 2 sp @ be_bytes 2 dp @ be_bytes 4 seq @ be_bytes 4 ack @ [0x50, 0x18]
       @ be_bytes 2 65535 @ be_bytes 2 0 @ be_bytes 2 0 @ frame"
    and l: "length s = 4" "length d = 4" "0 \<le> seq" "seq < 4294967296" "0 \<le> ack" "ack < 4294967296"
      "length frame \<le> 65495"
    by (rule raw_packet_layout [OF assms])
  have s1: "slice 16 18 (pkt @ trailer) = be_bytes 2 (40 + int (length frame))"
    unfolding pkt slice_def using assms(3,5) by simp
  have n: "14 + nat (40 + int (length frame)) = 54 + length frame" by simp
  have "be_val (be_bytes 2 (40 + int (length frame))) = 40 + int (length frame)" using l by simp
  then have "tcp_payload (pkt @ trailer) = slice 54 (54 + length frame) (pkt @ trailer)"
    unfolding tcp_payload_def s1 by (simp only: n)
  also have "\<dots> = frame" unfolding pkt slice_def using assms(3,5) l by simp
  finally have "tcp_payload (pkt @ trailer) = frame" .
  moreover have "slice 38 42 pkt = be_bytes 4 seq" "slice 42 46 pkt = be_bytes 4 ack"
    "slice 24 26 pkt = [0, 0]" "slice 50 52 pkt = be_bytes 2 0"
    unfolding pkt slice_def using assms(3,5) l by simp_all
  moreover have "be_bytes 2 0 = [0, 0]" by (simp add: be_bytes_def numeral_2_eq_2)
  ultimately show ?thesis using l by simp
qed

section \<open>A packet between two sample devices\<close>

lemma demo_mac: "mac_octets (mac_address (demo_dev a)) = Inr [0, 0, 0, 0, 0, 1]"
  by (simp add: demo_dev_def mac_octets_def hex_digit_def is_space_def)

lemma demo_ip: "ip_octets ''10.0.0.1'' = Inr [10, 0, 0, 1]" "ip_octets ''10.0.0.2'' = Inr [10, 0, 0, 2]"
  by (simp_all add: ip_octets_def int_of_str_def strip_def is_space_def split_sign_def is_digit_def
      digits_val_def digit_val_def)

lemma demo_port: "ip_address (demo_dev a) = a" "device_port (demo_dev a) = 502"
  by (simp_all add: demo_dev_def)

lemma upt_4: "[0..<4] = [0, 1, 2, 3 :: nat]"
  by (simp add: upt_rec)

lemma demo_header: "\<exists>h. raw_tcp_header p (demo_dev ''10.0.0.1'') (demo_dev ''10.0.0.2'') = Inr h"
  by (simp add: raw_tcp_header_def demo_mac demo_ip demo_port upt_4 item_def Let_def cong: bnd_weak_cong)

lemma demo_packet:
  assumes "length frame \<le> 1000"
  shows "\<exists>pkt. raw_tcp_packet p (demo_dev ''10.0.0.1'') (demo_dev ''10.0.0.2'') frame 7 9 = Inr pkt"
proof -
  obtain h where "raw_tcp_header p (demo_dev ''10.0.0.1'') (demo_dev ''10.0.0.2'') = Inr h"
    using demo_header by blast
  with assms show ?thesis by (simp add: raw_tcp_packet_def Let_def)
qed

end
