(* ===== verification/Dnp3.thy ===== *)
theory Dnp3
  imports Crc16 RawHeader
begin

text \<open>
  \<open>backend/app/protocol_engines/dnp3/packets.py\<close>: DNP3 frames with their link, transport and
  application layers, and the TCP packets that carry them.

  \<open>decode_link_frame\<close> is the receiver of the frames the code builds; it checks the header
  checksum as the code computes it, without the start bytes.
\<close>

section \<open>The checksum\<close>

definition dnp3_crc_ints :: "int list" where
  "dnp3_crc_ints =
    [ 0x0000, 0x365E, 0x6CBC, 0x5AE2, 0xD978, 0xEF26, 0xB5C4, 0x839A,
      0xFF89, 0xC9D7, 0x9335, 0xA56B, 0x26F1, 0x10AF, 0x4A4D, 0x7C13,
      0xB26B, 0x8435, 0xDED7, 0xE889, 0x6B13, 0x5D4D, 0x07AF, 0x31F1,
      0x4DE2, 0x7BBC, 0x215E, 0x1700, 0x949A, 0xA2C4, 0xF826, 0xCE78,
      0x29AF, 0x1FF1, 0x4513, 0x734D, 0xF0D7, 0xC689, 0x9C6B, 0xAA35,
      0xD626, 0xE078, 0xBA9A, 0x8CC4, 0x0F5E, 0x3900, 0x63E2, 0x55BC,
      0x9BC4, 0xAD9A, 0xF778, 0xC126, 0x42BC, 0x74E2, 0x2E00, 0x185E,
      0x644D, 0x5213, 0x08F1, 0x3EAF, 0xBD35, 0x8B6B, 0xD189, 0xE7D7,
      0x535E, 0x6500, 0x3FE2, 0x09BC, 0x8A26, 0xBC78, 0xE69A, 0xD0C4,
      0xACD7, 0x9A89, 0xC06B, 0xF635, 0x75AF, 0x43F1, 0x1913, 0x2F4D,
      0xE135, 0xD76B, 0x8D89, 0xBBD7, 0x384D, 0x0E13, 0x54F1, 0x62AF,
      0x1EBC, 0x28E2, 0x7200, 0x445E, 0xC7C4, 0xF19A, 0xAB78, 0x9D26,
      0x7AF1, 0x4CAF, 0x164D, 0x2013, 0xA389, 0x95D7, 0xCF35, 0xF96B,
      0x8578, 0xB326, 0xE9C4, 0xDF9A, 0x5C00, 0x6A5E, 0x30BC, 0x06E2,
      0xC89A, 0xFEC4, 0xA426, 0x9278, 0x11E2, 0x27BC, 0x7D5E, 0x4B00,
      0x3713, 0x014D, 0x5BAF, 0x6DF1, 0xEE6B, 0xD835, 0x82D7, 0xB489,
      0xA6BC, 0x90E2, 0xCA00, 0xFC5E, 0x7FC4, 0x499A, 0x1378, 0x2526,
      0x5935, 0x6F6B, 0x3589, 0x03D7, 0x804D, 0xB613, 0xECF1, 0xDAAF,
      0x14D7, 0x2289, 0x786B, 0x4E35, 0xCDAF, 0xFBF1, 0xA113, 0x974D,
      0xEB5E, 0xDD00, 0x87E2, 0xB1BC, 0x3226, 0x0478, 0x5E9A, 0x68C4,
      0x8F13, 0xB94D, 0xE3AF, 0xD5F1, 0x566B, 0x6035, 0x3AD7, 0x0C89,
      0x709A, 0x46C4, 0x1C26, 0x2A78, 0xA9E2, 0x9FBC, 0xC55E, 0xF300,
      0x3D78, 0x0B26, 0x51C4, 0x679A, 0xE400, 0xD25E, 0x88BC, 0xBEE2,
      0xC2F1, 0xF4AF, 0xAE4D, 0x9813, 0x1B89, 0x2DD7, 0x7735, 0x416B,
      0xF5E2, 0xC3BC, 0x995E, 0xAF00, 0x2C9A, 0x1AC4, 0x4026, 0x7678,
      0x0A6B, 0x3C35, 0x66D7, 0x5089, 0xD313, 0xE54D, 0xBFAF, 0x89F1,
      0x4789, 0x71D7, 0x2B35, 0x1D6B, 0x9EF1, 0xA8AF, 0xF24D, 0xC413,
      0xB800, 0x8E5E, 0xD4BC, 0xE2E2, 0x6178, 0x5726, 0x0DC4, 0x3B9A,
      0xDC4D, 0xEA13, 0xB0F1, 0x86AF, 0x0535, 0x336B, 0x6989, 0x5FD7,
      0x23C4, 0x159A, 0x4F78, 0x7926, 0xFABC, 0xCCE2, 0x9600, 0xA05E,
      0x6E26, 0x5878, 0x029A, 0x34C4, 0xB75E, 0x8100, 0xDBE2, 0xEDBC,
      0x91AF, 0xA7F1, 0xFD13, 0xCB4D, 0x48D7, 0x7E89, 0x246B, 0x1235]"

definition dnp3_crc_table :: "crc_reg list" where
  "dnp3_crc_table = map word_of_int dnp3_crc_ints"

definition calculate_crc :: "bytes \<Rightarrow> int" where
  "calculate_crc data = uint (NOT (crc_fold dnp3_crc_table 0 data))"

section \<open>The link layer\<close>

definition DNP3_START_BYTES :: bytes where "DNP3_START_BYTES = [0x05, 0x64]"
definition DNP3_PORT :: int where "DNP3_PORT = 20000"

definition link_header :: "int \<Rightarrow> int \<Rightarrow> int \<Rightarrow> nat \<Rightarrow> bytes res" where
  "link_header destination source control payload_len =
     (let len = 5 + int payload_len in
      bnd (py_bytes [len]) (\<lambda>l.
      bnd (py_bytes [control]) (\<lambda>c.
      bnd (struct_pack ''<H'' [destination]) (\<lambda>d.
      bnd (struct_pack ''<H'' [source]) (\<lambda>s.
      Inr (DNP3_START_BYTES @ l @ c @ d @ s))))))"

definition block_with_crc :: "bytes \<Rightarrow> bytes res" where
  "block_with_crc block = bnd (struct_pack ''<H'' [calculate_crc block]) (\<lambda>c. Inr (block @ c))"

definition build_data_link_frame :: "int \<Rightarrow> int \<Rightarrow> int \<Rightarrow> bytes \<Rightarrow> bytes res" where
  "build_data_link_frame destination source control payload =
     bnd (link_header destination source control (length payload)) (\<lambda>header.
     bnd (struct_pack ''<H'' [calculate_crc (drop 2 header)]) (\<lambda>header_crc.
     bnd (concatM block_with_crc (chunks 16 payload)) (\<lambda>payload_with_crc.
     Inr (header @ header_crc @ payload_with_crc))))"

section \<open>Transport and application headers\<close>

definition build_transport_header :: "bool \<Rightarrow> bool \<Rightarrow> int \<Rightarrow> bytes res" where
  "build_transport_header fin fir sequence =
     (let header = sequence AND 0x3F;
          header = (if fir then header OR 0x40 else header);
          header = (if fin then header OR 0x80 else header)
      in py_bytes [header])"

definition build_application_header :: "int \<Rightarrow> int \<Rightarrow> bool \<Rightarrow> bool \<Rightarrow> bool \<Rightarrow> bool \<Rightarrow> bytes res" where
  "build_application_header function_code sequence fir fin con uns =
     (let control = sequence AND 0x0F;
          control = (if fir then control OR 0x80 else control);
          control = (if fin then control OR 0x40 else control);
          control = (if con then control OR 0x20 else control);
          control = (if uns then control OR 0x10 else control)
      in py_bytes [control, function_code])"

definition QC_RANGE_START_STOP :: int where "QC_RANGE_START_STOP = 0x00"
definition QC_ALL_OBJECTS :: int where "QC_ALL_OBJECTS = 0x06"
definition QC_SINGLE_VALUE :: int where "QC_SINGLE_VALUE = 0x07"
definition QC_RANGE_16BIT :: int where "QC_RANGE_16BIT = 0x08"

definition build_object_header :: "int \<Rightarrow> int \<Rightarrow> int \<Rightarrow> int \<Rightarrow> int \<Rightarrow> int \<Rightarrow> bytes res" where
  "build_object_header grp variation qualifier range_start range_stop count =
     bnd (py_bytes [grp, variation, qualifier]) (\<lambda>header.
     bnd (if qualifier = QC_RANGE_START_STOP then py_bytes [range_start, range_stop]
          else if qualifier = QC_RANGE_16BIT then struct_pack ''<HH'' [range_start, range_stop]
          else if qualifier = QC_SINGLE_VALUE then py_bytes [count]
          else Inr []) (\<lambda>range.
     Inr (header @ range)))"

section \<open>Messages\<close>

definition FC_READ :: int where "FC_READ = 0x01"
definition FC_WRITE :: int where "FC_WRITE = 0x02"
definition FC_RESPONSE :: int where "FC_RESPONSE = 0x81"
definition GROUP_BINARY_INPUT :: int where "GROUP_BINARY_INPUT = 1"
definition GROUP_BINARY_OUTPUT :: int where "GROUP_BINARY_OUTPUT = 10"
definition GROUP_COUNTER :: int where "GROUP_COUNTER = 20"
definition GROUP_ANALOG_INPUT :: int where "GROUP_ANALOG_INPUT = 30"
definition GROUP_ANALOG_OUTPUT :: int where "GROUP_ANALOG_OUTPUT = 40"

definition build_read_request :: "int \<Rightarrow> int \<Rightarrow> (int \<times> int) list \<Rightarrow> int \<Rightarrow> bytes res" where
  "build_read_request destination source objects sequence =
     bnd (build_application_header FC_READ sequence True True False False) (\<lambda>app_header.
     bnd (concatM (\<lambda>(grp, variation). build_object_header grp variation QC_ALL_OBJECTS 0 0 0) objects)
       (\<lambda>object_data.
     bnd (build_transport_header True True sequence) (\<lambda>transport_header.
     build_data_link_frame destination source 0xC4 (transport_header @ app_header @ object_data))))"

text \<open>A value of a response, by group and variation; other objects carry no data.\<close>

definition input_value :: "int \<Rightarrow> int \<Rightarrow> pyval \<Rightarrow> bytes res" where
  "input_value grp variation v =
     (if grp = GROUP_BINARY_INPUT then py_bytes [if truthy v then 0x01 else 0x00]
      else if grp = GROUP_ANALOG_INPUT then
        (if variation = 1 then
           bnd (bnd (py_int v) (\<lambda>n. struct_pack ''<i'' [n])) (\<lambda>b. Inr (0x01 # b))
         else if variation = 2 then
           bnd (bnd (py_int v) (\<lambda>n. struct_pack ''<h'' [n])) (\<lambda>b. Inr (0x01 # b))
         else if variation = 5 then
           bnd (bnd (py_float v) (pack_f False)) (\<lambda>b. Inr (0x01 # b))
         else Inr [])
      else if grp = GROUP_COUNTER then
        (if variation = 1 then
           bnd (bnd (py_int v) (\<lambda>n. struct_pack ''<I'' [n])) (\<lambda>b. Inr (0x01 # b))
         else Inr [])
      else Inr [])"

definition response_object :: "int \<times> int \<times> pyval list \<Rightarrow> bytes res" where
  "response_object = (\<lambda>(grp, variation, values).
     let count = int (length values) in
     bnd (build_object_header grp variation QC_RANGE_START_STOP 0 (if count > 0 then count - 1 else 0) 0)
       (\<lambda>header.
     bnd (concatM (input_value grp variation) values) (\<lambda>data. Inr (header @ data))))"

definition build_read_response :: "int \<Rightarrow> int \<Rightarrow> (int \<times> int \<times> pyval list) list \<Rightarrow> int \<Rightarrow> bytes res" where
  "build_read_response destination source objects sequence =
     bnd (build_application_header FC_RESPONSE sequence True True False False) (\<lambda>app_header.
     bnd (concatM response_object objects) (\<lambda>object_data.
     bnd (build_transport_header True True sequence) (\<lambda>transport_header.
     build_data_link_frame destination source 0x44
       (transport_header @ app_header @ [0x00, 0x00] @ object_data))))"

definition output_value :: "int \<Rightarrow> int \<Rightarrow> pyval \<Rightarrow> bytes res" where
  "output_value grp variation v =
     (if grp = GROUP_BINARY_OUTPUT then
        py_bytes ([if truthy v then 0x03 else 0x04, 0x01] @ replicate 9 0x00)
      else if grp = GROUP_ANALOG_OUTPUT then
        (if variation = 1 then
           bnd (bnd (py_int v) (\<lambda>n. struct_pack ''<i'' [n])) (\<lambda>b. Inr (0x00 # b))
         else if variation = 2 then
           bnd (bnd (py_int v) (\<lambda>n. struct_pack ''<h'' [n])) (\<lambda>b. Inr (0x00 # b))
         else if variation = 3 then
           bnd (bnd (py_float v) (pack_f False)) (\<lambda>b. Inr (0x00 # b))
         else Inr [])
      else Inr [])"

definition build_write_request :: "int \<Rightarrow> int \<Rightarrow> int \<Rightarrow> int \<Rightarrow> pyval list \<Rightarrow> int \<Rightarrow> bytes res" where
  "build_write_request destination source grp variation values sequence =
     bnd (build_application_header FC_WRITE sequence True True False False) (\<lambda>app_header.
     let count = int (length values) in
     bnd (build_object_header grp variation QC_RANGE_START_STOP 0 (if count > 0 then count - 1 else 0) 0)
       (\<lambda>object_header.
     bnd (concatM (output_value grp variation) values) (\<lambda>object_data.
     bnd (build_transport_header True True sequence) (\<lambda>transport_header.
     build_data_link_frame destination source 0xC4
       (transport_header @ app_header @ object_header @ object_data)))))"

definition build_write_response :: "int \<Rightarrow> int \<Rightarrow> bool \<Rightarrow> int \<Rightarrow> bytes res" where
  "build_write_response destination source success sequence =
     bnd (build_application_header FC_RESPONSE sequence True True False False) (\<lambda>app_header.
     let iin = (if success then 0x0000 else 0x0002) in
     bnd (struct_pack ''<H'' [iin]) (\<lambda>internal_indications.
     bnd (build_transport_header True True sequence) (\<lambda>transport_header.
     build_data_link_frame destination source 0x44
       (transport_header @ app_header @ internal_indications))))"

definition build_tcp_header :: "device \<Rightarrow> device \<Rightarrow> bytes res" where
  "build_tcp_header src dst = raw_tcp_header DNP3_PORT src dst"

definition build_dnp3_packet :: "device \<Rightarrow> device \<Rightarrow> bytes \<Rightarrow> int \<Rightarrow> int \<Rightarrow> bytes res" where
  "build_dnp3_packet src dst dnp3_frame seq ack = raw_tcp_packet DNP3_PORT src dst dnp3_frame seq ack"

section \<open>The table is a CRC table\<close>

lemma dnp3_table: "dnp3_crc_table = crc_table_of 0xA6BC"
proof -
  have "map (int_entry 0xA6BC) (map int [0..<256]) = dnp3_crc_ints"
    by code_simp
  then have "dnp3_crc_table = map word_of_int (map (int_entry 0xA6BC) (map int [0..<256]))"
    by (simp only: dnp3_crc_table_def)
  also have "\<dots> = map (\<lambda>n. word_of_int (int_entry 0xA6BC n)) (map int [0..<256])"
    by (simp only: map_map comp_def)
  also have "\<dots> = crc_table_of 0xA6BC"
    using crc_table_of_int [of "0xA6BC"] by (simp only: word_of_int_numeral)
  finally show ?thesis .
qed

interpretation dnp3: reflected_crc16 dnp3_crc_table
  unfolding dnp3_table by (rule reflected_table) (simp add: bit_numeral_rec)

section \<open>The receiver\<close>

definition block_ok :: "bytes \<Rightarrow> bool" where
  "block_ok c = (2 \<le> length c \<and>
     le_val (drop (length c - 2) c) = calculate_crc (take (length c - 2) c))"

fun decode_blocks :: "bytes list \<Rightarrow> bytes option" where
  "decode_blocks [] = Some []"
| "decode_blocks (c # cs) =
     (if block_ok c then map_option (\<lambda>p. take (length c - 2) c @ p) (decode_blocks cs) else None)"

definition decode_link_frame :: "bytes \<Rightarrow> (int \<times> int \<times> int \<times> bytes) option" where
  "decode_link_frame fr =
     (if length fr < 10 \<or> take 2 fr \<noteq> DNP3_START_BYTES \<or> \<not> block_ok (slice 2 10 fr) then None
      else case decode_blocks (chunks 18 (drop 10 fr)) of
             None \<Rightarrow> None
           | Some p \<Rightarrow>
               if uint (fr ! 2) = 5 + int (length p)
               then Some (le_val (slice 4 6 fr), le_val (slice 6 8 fr), uint (fr ! 3), p)
               else None)"

lemma calculate_crc_range [simp]: "0 \<le> calculate_crc data" "calculate_crc data < 65536"
  using unsigned_less [of "NOT (crc_fold dnp3_crc_table 0 data)"] by (simp_all add: calculate_crc_def)

lemma block_with_crc_eq: "block_with_crc block = Inr (block @ le_bytes 2 (calculate_crc block))"
  by (simp add: block_with_crc_def)

lemma calculate_crc_inject:
  "calculate_crc a = calculate_crc b \<longleftrightarrow> crc_fold dnp3_crc_table 0 a = crc_fold dnp3_crc_table 0 b"
  unfolding calculate_crc_def word_uint_eq_iff [symmetric] by (metis bit.double_compl)

lemma block_ok_built: "block_ok (block @ le_bytes 2 (calculate_crc block))"
  by (simp add: block_ok_def)

lemma blocks_built: "concatM block_with_crc bs = Inr (concat (map (\<lambda>b. b @ le_bytes 2 (calculate_crc b)) bs))"
  by (rule concatM_Inr) (simp add: block_with_crc_eq)

lemma decode_blocks_built:
  "decode_blocks (map (\<lambda>b. b @ le_bytes 2 (calculate_crc b)) bs) = Some (concat bs)"
  by (induction bs) (simp_all add: block_ok_built)

text \<open>Blocks of 16 octets with their checksums are 18 octets apart.\<close>

lemma chunks_built:
  assumes "\<And>b. length (f b) = length b + 2"
  shows "chunks 18 (concat (map f (chunks 16 p))) = map f (chunks 16 p)"
proof (induction p rule: measure_induct_rule [of length])
  case (less p)
  show ?case
  proof (cases "p = []")
    case False
    then have c: "chunks 16 p = take 16 p # chunks 16 (drop 16 p)" by (simp add: chunks.simps [of 16 p])
    show ?thesis
    proof (cases "16 \<le> length p")
      case True
      then have "length (f (take 16 p)) = 18" by (simp add: assms)
      then have "chunks 18 (f (take 16 p) @ r) = f (take 16 p) # chunks 18 r" for r
        by (subst chunks.simps) auto
      with less [of "drop 16 p"] False show ?thesis by (simp add: c)
    next
      case short: False
      then have "length (f (take 16 p)) \<le> 18" "f (take 16 p) \<noteq> []" using assms [of "take 16 p"] by auto
      then have "chunks 18 (f (take 16 p)) = [f (take 16 p)]" by (simp add: chunks.simps [of 18])
      with short show ?thesis by (simp add: c)
    qed
  qed simp
qed

lemma link_frame_ok:
  assumes "length p \<le> 250" "0 \<le> c" "c < 256" "0 \<le> d" "d < 65536" "0 \<le> s" "s < 65536"
  shows "is_ok (build_data_link_frame d s c p)"
  using assms by (simp add: build_data_link_frame_def link_header_def Let_def blocks_built py_byte_ok)

lemma link_frame_eq:
  assumes "build_data_link_frame d s c p = Inr fr"
  shows "0 \<le> d \<and> d < 65536 \<and> 0 \<le> s \<and> s < 65536 \<and> 0 \<le> c \<and> c < 256 \<and> length p \<le> 250
    \<and> fr = (let h = [word_of_int (5 + int (length p)), word_of_int c] @ le_bytes 2 d @ le_bytes 2 s
           in DNP3_START_BYTES @ (h @ le_bytes 2 (calculate_crc h))
              @ concat (map (\<lambda>b. b @ le_bytes 2 (calculate_crc b)) (chunks 16 p)))"
  using assms
  by (auto simp: build_data_link_frame_def link_header_def Let_def res_simps py_byte_eq_Inr blocks_built
      DNP3_START_BYTES_def split: if_splits)

lemma decode_built:
  assumes "build_data_link_frame d s c p = Inr fr"
  shows "decode_link_frame fr = Some (d, s, c, p)"
proof -
  let ?h = "[word_of_int (5 + int (length p)), word_of_int c] @ le_bytes 2 d @ le_bytes 2 s"
  let ?bs = "concat (map (\<lambda>b. b @ le_bytes 2 (calculate_crc b)) (chunks 16 p))"
  have r: "0 \<le> d" "d < 65536" "0 \<le> s" "s < 65536" "0 \<le> c" "c < 256" "length p \<le> 250"
    and fr: "fr = DNP3_START_BYTES @ (?h @ le_bytes 2 (calculate_crc ?h)) @ ?bs"
    using link_frame_eq [OF assms] by (auto simp: Let_def)
  have parts: "take 2 fr = DNP3_START_BYTES" "slice 2 10 fr = ?h @ le_bytes 2 (calculate_crc ?h)"
    "drop 10 fr = ?bs" "slice 4 6 fr = le_bytes 2 d" "slice 6 8 fr = le_bytes 2 s"
    "fr ! 2 = word_of_int (5 + int (length p))" "fr ! 3 = word_of_int c" "\<not> length fr < 10"
    unfolding fr by (simp_all add: DNP3_START_BYTES_def slice_def)
  have "decode_blocks (chunks 18 (drop 10 fr)) = Some p"
    unfolding parts by (simp add: chunks_built decode_blocks_built concat_chunks)
  moreover have "uint (fr ! 2) = 5 + int (length p)"
    unfolding parts using r by (simp only: uint_byte) simp
  moreover have "uint (fr ! 3) = c" unfolding parts using r by (simp only: uint_byte) simp
  moreover have "block_ok (slice 2 10 fr)" unfolding parts by (rule block_ok_built)
  ultimately show ?thesis
    using parts(1,4,5,8) r by (simp add: decode_link_frame_def)
qed

lemma byte_complement:
  "(ucast (NOT r) :: byte) = ucast r XOR 255"
  "(ucast (drop_bit 8 (NOT r)) :: byte) = ucast (drop_bit 8 (r :: crc_reg)) XOR 255"
proof -
  have m: "(255 :: byte) = NOT 0" by simp
  show "(ucast (NOT r) :: byte) = ucast r XOR 255"
    unfolding m by (rule bit_word_eqI) (auto simp: bit_simps)
  show "(ucast (drop_bit 8 (NOT r)) :: byte) = ucast (drop_bit 8 r) XOR 255"
    unfolding m by (rule bit_word_eqI) (auto simp: bit_simps)
qed

text \<open>A block is accepted exactly when the register ends in one fixed value.\<close>

lemma block_residue:
  assumes "2 \<le> length c"
  shows "block_ok c \<longleftrightarrow> crc_fold dnp3_crc_table 0 c = crc_fold dnp3_crc_table 0 [255, 255]"
proof -
  define data where "data = take (length c - 2) c"
  let ?r = "crc_fold dnp3_crc_table 0 data"
  have "length (drop (length c - 2) c) = 2" using assms by simp
  then obtain b0 b1 where t: "drop (length c - 2) c = [b0, b1]"
    by (auto simp: length_Suc_conv numeral_2_eq_2 simp del: length_drop)
  have c: "c = data @ [b0, b1]" unfolding data_def t [symmetric] by simp
  let ?lo = "ucast (NOT ?r) :: byte" and ?hi = "ucast (drop_bit 8 (NOT ?r)) :: byte"
  have le: "le_bytes 2 (calculate_crc data) = [?lo, ?hi]"
    unfolding calculate_crc_def by (rule dnp3.le_bytes_reg)
  have "le_val [b0, b1] = calculate_crc data \<longleftrightarrow> [b0, b1] = [?lo, ?hi]"
    unfolding le [symmetric]
    using le_val_inject [of "[b0, b1]" "le_bytes 2 (calculate_crc data)"] by simp
  moreover have "crc_fold dnp3_crc_table ?r [?lo, ?hi] = crc_fold dnp3_crc_table 0 [255, 255]"
  proof -
    have "[?lo, ?hi] = map2 (XOR) [ucast ?r, ucast (drop_bit 8 ?r)] [255, 255]"
      by (simp add: byte_complement)
    then have "crc_fold dnp3_crc_table ?r [?lo, ?hi]
        = crc_fold dnp3_crc_table (?r XOR 0) (map2 (XOR) [ucast ?r, ucast (drop_bit 8 ?r)] [255, 255])"
      by simp
    also have "\<dots> = crc_fold dnp3_crc_table ?r [ucast ?r, ucast (drop_bit 8 ?r)] XOR crc_fold dnp3_crc_table 0 [255, 255]"
      by (rule dnp3.fold_xor) simp
    also have "crc_fold dnp3_crc_table ?r [ucast ?r, ucast (drop_bit 8 ?r)] = 0"
      using dnp3.fold_residue [of ?r "[]" "ucast ?r" "ucast (drop_bit 8 ?r)"] by (simp add: dnp3.le_bytes_reg)
    finally show ?thesis by simp
  qed
  moreover have "crc_fold dnp3_crc_table 0 c = crc_fold dnp3_crc_table ?r [b0, b1]"
    by (simp add: c crc_fold_append)
  ultimately show ?thesis
    using dnp3.burst_detected [of b0 b1 ?lo ?hi ?r "[]" "[]"] assms
    by (auto simp: block_ok_def t simp flip: data_def)
qed

section \<open>Header fields\<close>

lemma transport_header_eq:
  "build_transport_header fin fir seq =
     Inr [word_of_int (seq mod 64 + (if fir then 64 else 0) + (if fin then 128 else 0))]"
proof -
  have r: "0 \<le> seq mod 64" "seq mod 64 < 2 ^ 6" by simp_all
  have "seq mod 64 OR 64 = seq mod 64 + 64" "seq mod 64 OR 128 = seq mod 64 + 128"
    "seq mod 64 OR 192 = seq mod 64 + 192"
    using or_disjoint [OF r, of 64] or_disjoint [OF r, of 128] or_disjoint [OF r, of 192] by simp_all
  then show ?thesis
    using r by (cases fin; cases fir)
      (simp_all add: build_transport_header_def Let_def and_mask_6 or.assoc py_byte_ok)
qed

lemma application_header_eq:
  assumes "0 \<le> fc" and "fc < 256"
  shows "build_application_header fc seq fir fin con uns =
     Inr [word_of_int (seq mod 16 + (if fir then 128 else 0) + (if fin then 64 else 0)
            + (if con then 32 else 0) + (if uns then 16 else 0)), word_of_int fc]"
proof -
  have r: "0 \<le> seq mod 16" "seq mod 16 < 2 ^ 4" by simp_all
  have o: "seq mod 16 OR c = seq mod 16 + c" if "c mod 16 = 0" for c
    using or_disjoint [OF r, of c] that by simp
  show ?thesis
    using r assms o
    by (cases fir; cases fin; cases con; cases uns)
      (simp_all add: build_application_header_def Let_def and_mask_4 or.assoc o py_byte_ok)
qed

section \<open>The properties\<close>

text \<open>
  C33: The link layer round trip: whatever frame \<open>build_data_link_frame\<close> returns, the receiver
  gets back the two addresses, the control octet and the payload; and a frame is returned
  exactly for payloads of at most 250 octets and fields in range.
\<close>

theorem link_frame_roundtrip:
  "(case build_data_link_frame d s c p of
      Inr fr \<Rightarrow> decode_link_frame fr = Some (d, s, c, p)
    | Inl e \<Rightarrow> e \<in> {ValueError, StructError})
   \<and> (is_ok (build_data_link_frame d s c p) \<longleftrightarrow>
        length p \<le> 250 \<and> 0 \<le> c \<and> c < 256 \<and> 0 \<le> d \<and> d < 65536 \<and> 0 \<le> s \<and> s < 65536)"
proof -

  have err: "e \<in> {ValueError, StructError}" if "build_data_link_frame d s c p = Inl e" for e
    using that by (auto simp: build_data_link_frame_def link_header_def Let_def res_simps blocks_built
        py_byte_def split: if_splits)
  show ?thesis
  proof (cases "build_data_link_frame d s c p")
    case (Inl e)
    with err [OF Inl] link_frame_ok [of p c d s] show ?thesis by auto
  next
    case (Inr fr)
    with decode_built [OF Inr] link_frame_eq [OF Inr] show ?thesis by simp
  qed

qed

text \<open>
  A data block with its checksum is accepted, and no change of one octet or of two
  adjacent octets of it, checksum included, is.
\<close>

theorem block_integrity:
  assumes "block_with_crc block = Inr (us @ [x, y] @ vs)"
  shows "block_ok (us @ [x', y'] @ vs) \<longleftrightarrow> [x', y'] = [x, y]"
proof -
  have "block_ok (us @ [x, y] @ vs)"
    using assms block_ok_built [of block] by (simp add: block_with_crc_eq)
  moreover have "2 \<le> length (us @ [x, y] @ vs)" "2 \<le> length (us @ [x', y'] @ vs)" by simp_all
  ultimately show ?thesis
    using block_residue dnp3.burst_detected [of x' y' x y 0 us vs] by metis
qed

theorem block_integrity_witness:
  "\<exists>x y. block_with_crc [1, 2, 3] = Inr ([1, 2, 3] @ [x, y] @ [])
     \<and> \<not> block_ok ([1, 2, 3] @ [x XOR 1, y] @ [])"
proof -
  obtain x y where "le_bytes 2 (calculate_crc [1, 2, 3]) = [x, y]"
    unfolding calculate_crc_def dnp3.le_bytes_reg by blast
  then have b: "block_with_crc [1, 2, 3] = Inr ([1, 2, 3] @ [x, y] @ [])"
    by (simp add: block_with_crc_eq)
  have "x XOR 1 \<noteq> x" by (metis xor_left_cancel xor.right_neutral xor_self_eq zero_neq_one)
  with block_integrity [OF b, of "x XOR 1" y] b show ?thesis by blast
qed

text \<open>
  The checksum of the link header is computed over the six octets after the start
  bytes.  It never equals the checksum over the whole eight-octet header that IEEE 1815
  requires, so a standard receiver rejects every frame.
\<close>

theorem header_crc_excludes_start:
  assumes "build_data_link_frame d s c p = Inr fr"
  shows "slice 8 10 fr = le_bytes 2 (calculate_crc (slice 2 8 fr))
    \<and> slice 8 10 fr \<noteq> le_bytes 2 (calculate_crc (take 8 fr))"
proof -
  let ?h = "[word_of_int (5 + int (length p)), word_of_int c] @ le_bytes 2 d @ le_bytes 2 s"
  let ?T = dnp3_crc_table
  have parts: "slice 8 10 fr = le_bytes 2 (calculate_crc ?h)" "slice 2 8 fr = ?h"
    "take 8 fr = [0x05, 0x64] @ ?h"
    using link_frame_eq [OF assms] by (auto simp: Let_def slice_def DNP3_START_BYTES_def)
  let ?r = "crc_fold ?T 0 [0x05, 0x64]"
  have "?r \<noteq> 0" using dnp3.burst_residue [of "0x05" "0x64" 0 0] by simp
  then have "crc_fold ?T ?r (replicate (length ?h) 0) \<noteq> 0" by (rule dnp3.fold_zeros_nonzero)
  moreover have "crc_fold ?T ?r ?h XOR crc_fold ?T 0 ?h
      = crc_fold ?T (?r XOR 0) (map2 (XOR) ?h ?h)"
    by (rule dnp3.fold_xor [symmetric]) simp
  ultimately have "crc_fold ?T ?r ?h XOR crc_fold ?T 0 ?h \<noteq> 0" by (simp only: map2_xor_self xor.right_neutral) simp
  then have ne: "crc_fold ?T ?r ?h \<noteq> crc_fold ?T 0 ?h" by (metis xor_self_eq)
  have "crc_fold ?T 0 (take 8 fr) = crc_fold ?T ?r ?h"
    unfolding parts by (simp only: crc_fold_append)
  then have "calculate_crc (take 8 fr) \<noteq> calculate_crc ?h"
    using ne by (simp only: calculate_crc_inject) simp
  then have "le_val (le_bytes 2 (calculate_crc (take 8 fr))) \<noteq> le_val (le_bytes 2 (calculate_crc ?h))"
    by simp
  then show ?thesis using parts by metis
qed

theorem header_crc_excludes_start_witness:
  "\<exists>fr. build_data_link_frame 1024 1 0xC0 [] = Inr fr
     \<and> take 8 fr = [0x05, 0x64, 0x05, 0xC0, 0x00, 0x04, 0x01, 0x00]
     \<and> slice 8 10 fr \<noteq> le_bytes 2 (calculate_crc (take 8 fr))"
proof -
  obtain fr where f: "build_data_link_frame 1024 1 0xC0 [] = Inr fr"
    using link_frame_ok [of "[]" "0xC0" 1024 1] by (auto simp: is_ok_iff)
  have "le_val [0, 4] = le_val (le_bytes 2 1024)" by simp
  then have "le_bytes 2 1024 = [0, 4]" using le_val_inject [of "[0, 4]" "le_bytes 2 1024"] by simp
  moreover have "le_bytes 2 1 = [1, 0]" by (simp add: numeral_2_eq_2)
  ultimately have "take 8 fr = [0x05, 0x64, 0x05, 0xC0, 0x00, 0x04, 0x01, 0x00]"
    using link_frame_eq [OF f] by (simp add: Let_def DNP3_START_BYTES_def)
  with header_crc_excludes_start [OF f] f show ?thesis by blast
qed

text \<open>
  A read request over the whole stack: the TCP packet carries the link frame, which
  carries the transport octet of a single segment, the application header with function
  code READ, and three octets for each requested object in order.
\<close>

theorem read_request_on_the_wire:
  assumes "build_read_request d s objects sequence = Inr fr"
    and "build_dnp3_packet src dst fr sq ak = Inr pkt"
    and "mac_octets (mac_address dst) = Inr dm" and "length dm = 6"
    and "mac_octets (mac_address src) = Inr sm" and "length sm = 6"
  shows "decode_link_frame (tcp_payload pkt) = Some (d, s, 0xC4,
      [word_of_int (sequence mod 64 + 192), word_of_int (sequence mod 16 + 192), 0x01]
      @ concat (map (\<lambda>(g, v). [word_of_int g, word_of_int v, 0x06]) objects))
    \<and> be_val (slice 38 42 pkt) = sq \<and> be_val (slice 42 46 pkt) = ak"
proof -
  have "tcp_payload (pkt @ []) = fr \<and> be_val (slice 38 42 pkt) = sq \<and> be_val (slice 42 46 pkt) = ak"
    using tcp_payload_packet [OF assms(2) [unfolded build_dnp3_packet_def] assms(3-6), of "[]"] by blast
  moreover have "decode_link_frame fr = Some (d, s, 0xC4,
      [word_of_int (sequence mod 64 + 192), word_of_int (sequence mod 16 + 192), 0x01]
      @ concat (map (\<lambda>(g, v). [word_of_int g, word_of_int v, 0x06]) objects))"
  proof -
    obtain objs where o: "concatM (\<lambda>(g, v). build_object_header g v QC_ALL_OBJECTS 0 0 0) objects = Inr objs"
      and b: "build_data_link_frame d s 0xC4
          ((192 + word_of_int (sequence mod 64)) # (192 + word_of_int (sequence mod 16)) # 1 # objs) = Inr fr"
      using assms(1) by (auto simp: build_read_request_def res_simps transport_header_eq FC_READ_def
          application_header_eq)
    have "objs = concat (map (\<lambda>(g, v). [word_of_int g, word_of_int v, 0x06]) objects)"
      using o
    proof (induction objects arbitrary: objs)
      case (Cons gv objects)
      then show ?case
        by (cases gv) (auto simp: res_simps build_object_header_def py_byte_eq_Inr QC_ALL_OBJECTS_def
            QC_RANGE_START_STOP_def QC_RANGE_16BIT_def QC_SINGLE_VALUE_def)
    qed simp
    with decode_built [OF b] show ?thesis by (simp add: add.commute)
  qed
  ultimately show ?thesis by simp
qed

theorem read_request_on_the_wire_witness:
  "\<exists>fr pkt. build_read_request 1 2 [(60, 1), (30, 5)] 3 = Inr fr
     \<and> build_dnp3_packet (demo_dev ''10.0.0.1'') (demo_dev ''10.0.0.2'') fr 7 9 = Inr pkt
     \<and> decode_link_frame (tcp_payload pkt)
         = Some (1, 2, 0xC4, [195, 195, 0x01, 60, 1, 0x06, 30, 5, 0x06])
     \<and> be_val (slice 38 42 pkt) = 7"
proof -
  have "is_ok (build_read_request 1 2 [(60, 1), (30, 5)] 3)"
    by (simp add: build_read_request_def transport_header_eq application_header_eq FC_READ_def
        build_object_header_def QC_ALL_OBJECTS_def QC_RANGE_START_STOP_def QC_RANGE_16BIT_def
        QC_SINGLE_VALUE_def link_frame_ok cong: bnd_weak_cong)
  then obtain fr where f: "build_read_request 1 2 [(60, 1), (30, 5)] 3 = Inr fr" by (auto simp: is_ok_iff)
  have "length fr \<le> 1000"
    using f by (auto simp: build_read_request_def transport_header_eq application_header_eq FC_READ_def
        build_object_header_def QC_ALL_OBJECTS_def QC_RANGE_START_STOP_def QC_RANGE_16BIT_def
        QC_SINGLE_VALUE_def Let_def chunks.simps DNP3_START_BYTES_def dest!: link_frame_eq cong: bnd_weak_cong)
  then obtain pkt where p: "build_dnp3_packet (demo_dev ''10.0.0.1'') (demo_dev ''10.0.0.2'') fr 7 9 = Inr pkt"
    using demo_packet unfolding build_dnp3_packet_def by blast
  from read_request_on_the_wire [OF f p demo_mac _ demo_mac] f p show ?thesis by auto
qed

text \<open>
  A write that failed is answered with the octets 02 00 as internal indications.  The
  comment in the code says "parameter error", which is bit 2 of the second octet; what is set
  is bit 1 of the first octet, "class 1 events available", and no error bit.
\<close>

theorem write_failure_indications:
  assumes "build_write_response d s False sequence = Inr fr"
  shows "\<exists>th ac. decode_link_frame fr = Some (d, s, 0x44, [th, ac, 0x81, 0x02, 0x00])"
proof -
  have "struct_pack ''<H'' [2] = Inr [2, 0]" by (simp add: numeral_2_eq_2)
  with assms obtain th ac where "build_data_link_frame d s 0x44 [th, ac, 0x81, 0x02, 0x00] = Inr fr"
    by (auto simp: build_write_response_def transport_header_eq application_header_eq FC_RESPONSE_def Let_def
        simp del: struct_pack.simps)
  then show ?thesis using decode_built by blast
qed

theorem write_failure_indications_witness:
  "\<exists>fr th ac. build_write_response 1 2 False 0 = Inr fr
     \<and> decode_link_frame fr = Some (1, 2, 0x44, [th, ac, 0x81, 0x02, 0x00])"
proof -
  have "is_ok (build_write_response 1 2 False 0)"
    by (simp add: build_write_response_def transport_header_eq application_header_eq FC_RESPONSE_def
        Let_def link_frame_ok)
  then obtain fr where f: "build_write_response 1 2 False 0 = Inr fr" by (auto simp: is_ok_iff)
  from write_failure_indications [OF this] f show ?thesis by blast
qed

end
