(* ===== verification/Iec104.thy ===== *)
theory Iec104
  imports RawHeader
begin

text \<open>
  \<open>backend/app/protocol_engines/iec104/packets.py\<close>: the APDUs of IEC 60870-5-104, the TCP
  packets that carry them, and the decoder of a receiver.
\<close>

section \<open>Constants\<close>

definition IEC104_START_BYTE :: int where "IEC104_START_BYTE = 0x68"
definition IEC104_PORT :: int where "IEC104_PORT = 2404"
definition M_SP_NA_1 :: int where "M_SP_NA_1 = 1"
definition M_ME_NB_1 :: int where "M_ME_NB_1 = 11"
definition M_ME_NC_1 :: int where "M_ME_NC_1 = 13"
definition C_SC_NA_1 :: int where "C_SC_NA_1 = 45"
definition C_IC_NA_1 :: int where "C_IC_NA_1 = 100"
definition COT_SPONTANEOUS :: int where "COT_SPONTANEOUS = 3"
definition COT_ACTIVATION :: int where "COT_ACTIVATION = 6"
definition COT_ACTIVATION_CON :: int where "COT_ACTIVATION_CON = 7"
definition COT_ACTIVATION_TERM :: int where "COT_ACTIVATION_TERM = 10"

lemmas iec_consts =
  IEC104_START_BYTE_def M_SP_NA_1_def M_ME_NB_1_def M_ME_NC_1_def C_SC_NA_1_def C_IC_NA_1_def
  COT_SPONTANEOUS_def COT_ACTIVATION_def COT_ACTIVATION_CON_def COT_ACTIVATION_TERM_def

section \<open>APCI\<close>

definition build_apci_u_format :: "int \<Rightarrow> bytes res" where
  "build_apci_u_format control_byte = py_bytes [IEC104_START_BYTE, 4, control_byte, 0x00, 0x00, 0x00]"

definition build_apci_s_format :: "int \<Rightarrow> bytes res" where
  "build_apci_s_format recv_seq =
     (let control = 0x01 OR push_bit 17 (recv_seq AND 0x7FFF)
      in py_bytes [IEC104_START_BYTE, 4, control AND 0xFF, drop_bit 8 control AND 0xFF,
           drop_bit 16 control AND 0xFF, drop_bit 24 control AND 0xFF])"

definition build_apci_i_format :: "int \<Rightarrow> int \<Rightarrow> nat \<Rightarrow> bytes res" where
  "build_apci_i_format send_seq recv_seq asdu_length =
     (let cf1 = push_bit 1 send_seq AND 0xFFFF;
          cf2 = push_bit 1 recv_seq AND 0xFFFF
      in py_bytes [IEC104_START_BYTE, 4 + int asdu_length, cf1 AND 0xFF, drop_bit 8 cf1 AND 0xFF,
           cf2 AND 0xFF, drop_bit 8 cf2 AND 0xFF])"

section \<open>ASDU\<close>

definition build_asdu_header :: "int \<Rightarrow> nat \<Rightarrow> bool \<Rightarrow> int \<Rightarrow> int \<Rightarrow> int \<Rightarrow> bytes res" where
  "build_asdu_header type_id num_objects sq cot org common_address =
     (let vsq = (int num_objects AND 0x7F) OR (if sq then 0x80 else 0x00) in
      bnd (py_bytes [type_id, vsq, cot AND 0xFF, org]) (\<lambda>h.
      bnd (struct_pack ''<H'' [common_address]) (\<lambda>ca. Inr (h @ ca))))"

text \<open>\<open>struct.pack("<I", ioa)[:3]\<close>\<close>

definition pack_ioa :: "int \<Rightarrow> bytes res" where
  "pack_ioa ioa = bnd (struct_pack ''<I'' [ioa]) (\<lambda>b. Inr (take 3 b))"

text \<open>The end of every builder: the I-format APCI for the ASDU, then the ASDU.\<close>

definition finish_apdu :: "int \<Rightarrow> int \<Rightarrow> bytes \<Rightarrow> bytes res" where
  "finish_apdu send_seq recv_seq asdu =
     bnd (build_apci_i_format send_seq recv_seq (length asdu)) (\<lambda>apci. Inr (apci @ asdu))"

definition interrogation :: "int \<Rightarrow> int \<Rightarrow> int \<Rightarrow> int \<Rightarrow> int \<Rightarrow> bytes res" where
  "interrogation cot send_seq recv_seq common_address qoi =
     bnd (build_asdu_header C_IC_NA_1 1 False cot 0 common_address) (\<lambda>asdu_header.
     bnd (pack_ioa 0) (\<lambda>ioa.
     bnd (py_bytes [qoi]) (\<lambda>q.
     finish_apdu send_seq recv_seq (asdu_header @ ioa @ q))))"

definition build_interrogation_command :: "int \<Rightarrow> int \<Rightarrow> int \<Rightarrow> int \<Rightarrow> bytes res" where
  "build_interrogation_command = interrogation COT_ACTIVATION"

definition build_interrogation_response :: "int \<Rightarrow> int \<Rightarrow> int \<Rightarrow> int \<Rightarrow> bytes res" where
  "build_interrogation_response = interrogation COT_ACTIVATION_CON"

definition build_interrogation_end :: "int \<Rightarrow> int \<Rightarrow> int \<Rightarrow> int \<Rightarrow> bytes res" where
  "build_interrogation_end = interrogation COT_ACTIVATION_TERM"

definition single_point_object :: "int \<times> bool \<Rightarrow> bytes res" where
  "single_point_object = (\<lambda>(ioa, v).
     bnd (pack_ioa ioa) (\<lambda>a. bnd (py_bytes [if v then 0x01 else 0x00]) (\<lambda>siq. Inr (a @ siq))))"

definition build_single_point_info ::
    "int \<Rightarrow> int \<Rightarrow> int \<Rightarrow> (int \<times> bool) list \<Rightarrow> int \<Rightarrow> bytes res" where
  "build_single_point_info send_seq recv_seq common_address values cot =
     bnd (build_asdu_header M_SP_NA_1 (length values) False cot 0 common_address) (\<lambda>asdu_header.
     bnd (concatM single_point_object values) (\<lambda>info_objects.
     finish_apdu send_seq recv_seq (asdu_header @ info_objects)))"

definition float_object :: "int \<times> pyfloat \<Rightarrow> bytes res" where
  "float_object = (\<lambda>(ioa, v).
     bnd (pack_ioa ioa) (\<lambda>a. bnd (pack_f False v) (\<lambda>f.
     bnd (py_bytes [0x00]) (\<lambda>qds. Inr (a @ f @ qds)))))"

definition build_measured_value_float ::
    "int \<Rightarrow> int \<Rightarrow> int \<Rightarrow> (int \<times> pyfloat) list \<Rightarrow> int \<Rightarrow> bytes res" where
  "build_measured_value_float send_seq recv_seq common_address values cot =
     bnd (build_asdu_header M_ME_NC_1 (length values) False cot 0 common_address) (\<lambda>asdu_header.
     bnd (concatM float_object values) (\<lambda>info_objects.
     finish_apdu send_seq recv_seq (asdu_header @ info_objects)))"

definition scaled_object :: "int \<times> int \<Rightarrow> bytes res" where
  "scaled_object = (\<lambda>(ioa, v).
     bnd (pack_ioa ioa) (\<lambda>a. bnd (struct_pack ''<h'' [v]) (\<lambda>sva.
     bnd (py_bytes [0x00]) (\<lambda>qds. Inr (a @ sva @ qds)))))"

definition build_measured_value_scaled ::
    "int \<Rightarrow> int \<Rightarrow> int \<Rightarrow> (int \<times> int) list \<Rightarrow> int \<Rightarrow> bytes res" where
  "build_measured_value_scaled send_seq recv_seq common_address values cot =
     bnd (build_asdu_header M_ME_NB_1 (length values) False cot 0 common_address) (\<lambda>asdu_header.
     bnd (concatM scaled_object values) (\<lambda>info_objects.
     finish_apdu send_seq recv_seq (asdu_header @ info_objects)))"

definition build_single_command :: "int \<Rightarrow> int \<Rightarrow> int \<Rightarrow> int \<Rightarrow> bool \<Rightarrow> bool \<Rightarrow> bytes res" where
  "build_single_command send_seq recv_seq common_address ioa v select =
     bnd (build_asdu_header C_SC_NA_1 1 False COT_ACTIVATION 0 common_address) (\<lambda>asdu_header.
     let sco = (if v then 0x01 else 0x00) OR (if select then 0x80 else 0x00) in
     bnd (pack_ioa ioa) (\<lambda>a.
     bnd (py_bytes [sco]) (\<lambda>s.
     finish_apdu send_seq recv_seq (asdu_header @ a @ s))))"

definition build_command_response ::
    "int \<Rightarrow> int \<Rightarrow> int \<Rightarrow> int \<Rightarrow> int \<Rightarrow> pyval \<Rightarrow> bool \<Rightarrow> bytes res" where
  "build_command_response send_seq recv_seq common_address type_id ioa v success =
     (let cot = (if success then COT_ACTIVATION_CON else COT_ACTIVATION_CON OR 0x40) in
      bnd (build_asdu_header type_id 1 False cot 0 common_address) (\<lambda>asdu_header.
      bnd (pack_ioa ioa) (\<lambda>a.
      bnd (py_bytes [if type_id = C_SC_NA_1 then (if truthy v then 0x01 else 0x00) else 0x00]) (\<lambda>s.
      finish_apdu send_seq recv_seq (asdu_header @ a @ s)))))"

definition build_tcp_header :: "device \<Rightarrow> device \<Rightarrow> bytes res" where
  "build_tcp_header src dst = raw_tcp_header IEC104_PORT src dst"

definition build_iec104_packet :: "device \<Rightarrow> device \<Rightarrow> bytes \<Rightarrow> int \<Rightarrow> int \<Rightarrow> bytes res" where
  "build_iec104_packet src dst apdu seq ack = raw_tcp_packet IEC104_PORT src dst apdu seq ack"

section \<open>The receiver\<close>

datatype apdu = UFormat int | SFormat int | IFormat int int bytes

definition decode_apdu :: "bytes \<Rightarrow> apdu option" where
  "decode_apdu b =
     (if length b < 6 \<or> uint (b ! 0) \<noteq> IEC104_START_BYTE \<or> int (length b) \<noteq> 2 + uint (b ! 1) then None
      else if \<not> bit (b ! 2) 0 then
        Some (IFormat (le_val (slice 2 4 b) div 2) (le_val (slice 4 6 b) div 2) (drop 6 b))
      else if length b \<noteq> 6 then None
      else if \<not> bit (b ! 2) 1 then Some (SFormat (le_val (slice 4 6 b) div 2))
      else Some (UFormat (uint (b ! 2))))"

text \<open>The fields of an ASDU with \<open>n\<close> objects of \<open>3 + k\<close> octets.\<close>

record asdu =
  type_of :: int
  count :: int
  cause :: int
  address :: int
  objects :: "(int \<times> bytes) list"

definition decode_object :: "bytes \<Rightarrow> int \<times> bytes" where
  "decode_object b = (le_val (take 3 b), drop 3 b)"

definition decode_asdu :: "nat \<Rightarrow> bytes \<Rightarrow> asdu option" where
  "decode_asdu k b =
     (if length b < 6 \<or> length b \<noteq> 6 + nat (uint (b ! 1) mod 128) * (3 + k) then None
      else Some \<lparr>type_of = uint (b ! 0), count = uint (b ! 1) mod 128, cause = uint (b ! 2),
             address = le_val (slice 4 6 b), objects = map decode_object (chunks (3 + k) (drop 6 b))\<rparr>)"

section \<open>Encoding and decoding\<close>

lemma byte_of_mod: "(word_of_int (v mod 256) :: byte) = word_of_int v"
  using le_bytes_mod [of 1 v] by simp

lemma i_format_eq:
  "build_apci_i_format s r n =
     (if n \<le> 251 then Inr ([0x68, word_of_int (4 + int n)] @ le_bytes 2 (2 * s) @ le_bytes 2 (2 * r))
      else Inl ValueError)"
proof -
  have m: "le_bytes 2 ((2 * v) mod 65536) = le_bytes 2 (2 * v)" for v
    using le_bytes_mod [of 2 "2 * v"] by simp
  have b: "le_bytes 2 v = [word_of_int (v mod 256), word_of_int (v div 256 mod 256)]" for v
    by (simp add: numeral_2_eq_2 byte_of_mod)
  have d: "push_bit 1 v AND 65535 = (2 * v) mod 65536" "drop_bit 8 v = v div 256" for v :: int
    by (simp_all add: and_mask_16 push_bit_eq_mult drop_bit_eq_div mult.commute)
  have w: "0 \<le> x mod 65536 div 256" "x mod 65536 div 256 < 256" for x :: int
  proof -
    have "0 \<le> x mod 65536" "x mod 65536 < 65536" by simp_all
    then show "0 \<le> x mod 65536 div 256" "x mod 65536 div 256 < 256" by linarith+
  qed
  show ?thesis
    unfolding m [symmetric, of s] m [symmetric, of r] unfolding b build_apci_i_format_def d Let_def and_mask_8
    by (simp add: iec_consts py_byte_ok py_byte_def w)
qed

lemma double_mod: "(2 * s) mod 65536 = 2 * (s mod (32768 :: int))"
  using mod_mult_mult1 [of 2 s 32768] by simp

lemma s_format_eq:
  "build_apci_s_format r = Inr ([0x68, 4, 1, 0] @ le_bytes 2 (2 * r))"
proof -
  define k where "k = r mod 32768"
  have k: "0 \<le> k" "k < 32768" by (simp_all add: k_def)
  have c: "1 OR push_bit 17 (r AND 32767) = 1 + k * 131072"
    unfolding and_mask_15 k_def [symmetric]
    by (subst or_disjoint [where k = 17]) (simp_all add: push_bit_eq_mult)
  have d: "(1 + k * 131072) div 65536 = 2 * k" "(1 + k * 131072) div 256 = 512 * k"
    using div_mod_split(1) [of 1 65536 "2 * k"] div_mod_split(1) [of 1 256 "512 * k"] by simp_all
  have "(1 + k * 131072) div 16777216 = 2 * k div 256"
    using zdiv_zmult2_eq [of 256 "1 + k * 131072" 65536] d by simp
  with d have db: "drop_bit 8 (1 + k * 131072) = 512 * k" "drop_bit 16 (1 + k * 131072) = 2 * k"
    "drop_bit 24 (1 + k * 131072) = 2 * k div 256"
    by (simp_all add: drop_bit_eq_div)
  have m: "(1 + k * 131072) mod 256 = 1" "512 * k mod 256 = 0"
    using div_mod_split(2) [of 1 256 "512 * k"] mod_mult_self2_is_0 [of "2 * k" 256]
    by (simp_all add: mult.commute)
  have "le_bytes 2 (2 * r) = le_bytes 2 (2 * k)"
    using le_bytes_mod [of 2 "2 * r"] by (simp add: double_mod k_def)
  also have "\<dots> = [word_of_int (2 * k mod 256), word_of_int (2 * k div 256 mod 256)]"
    by (simp add: numeral_2_eq_2 byte_of_mod)
  finally have le: "le_bytes 2 (2 * r) = [word_of_int (2 * k mod 256), word_of_int (2 * k div 256 mod 256)]" .
  have ok: "py_byte (v mod 256) = Inr (word_of_int (v mod 256))" for v
    by (simp add: py_byte_ok)
  show ?thesis
    unfolding build_apci_s_format_def Let_def c db and_mask_8 m le
    by (simp only: iec_consts py_bytes_simps ok) simp
qed

lemma seq_val: "le_val (le_bytes 2 (2 * s)) div 2 = s mod 32768"
  by (simp add: double_mod)

lemma seq_even: "\<not> bit (le_bytes 2 (2 * s) ! 0) 0"
  by (simp add: numeral_2_eq_2 bit_word_of_int_iff bit_0)

lemma decode_i:
  assumes "length a \<le> 251"
  shows "decode_apdu (([0x68, word_of_int (4 + int (length a))] @ le_bytes 2 (2 * s) @ le_bytes 2 (2 * r)) @ a)
    = Some (IFormat (s mod 32768) (r mod 32768) a)"
proof -
  let ?b = "([0x68, word_of_int (4 + int (length a))] @ le_bytes 2 (2 * s) @ le_bytes 2 (2 * r)) @ a"
  have l: "length ?b = 6 + length a" by simp
  have u: "uint (?b ! 1) = 4 + int (length a)"
    using assms by (simp only: append_Cons nth_Cons_Suc nth_Cons_0 One_nat_def uint_byte) simp
  have c: "\<not> bit (?b ! 2) 0" using seq_even by (simp add: nth_append)
  have s: "slice 2 4 ?b = le_bytes 2 (2 * s)" "slice 4 6 ?b = le_bytes 2 (2 * r)" "drop 6 ?b = a"
    by (simp_all add: slice_def)
  have z: "uint (?b ! 0) = IEC104_START_BYTE" by (simp add: iec_consts)
  show ?thesis
    unfolding decode_apdu_def l u s seq_val using c z by simp
qed

lemma pack_ioa_eq: "0 \<le> a \<Longrightarrow> a < 4294967296 \<Longrightarrow> pack_ioa a = Inr (le_bytes 3 a)"
  by (simp add: pack_ioa_def eval_nat_numeral)

lemma asdu_header_eq:
  assumes "0 \<le> t" and "t < 256" and "0 \<le> ca" and "ca < 65536" and "n < 128"
  shows "build_asdu_header t n False cot 0 ca
    = Inr ([word_of_int t, word_of_int (int n), word_of_int cot, 0] @ le_bytes 2 ca)"
  using assms by (simp add: build_asdu_header_def Let_def and_mask_7 and_mask_8 py_byte_ok byte_of_mod)

lemma decode_asdu_built:
  assumes "0 \<le> t" "t < 256" "0 \<le> ca" "ca < 65536" "length objs < 128"
    and "\<forall>ob \<in> set objs. length ob = 3 + k"
  shows "decode_asdu k (([word_of_int t, word_of_int (int (length objs)), word_of_int cot, 0] @ le_bytes 2 ca) @ concat objs)
    = Some \<lparr>type_of = t, count = int (length objs), cause = cot mod 256, address = ca,
            objects = map decode_object objs\<rparr>"
proof -
  let ?b = "([word_of_int t, word_of_int (int (length objs)), word_of_int cot, 0] @ le_bytes 2 ca) @ concat objs"
  have u: "uint (?b ! 0) = t" "uint (?b ! 1) = int (length objs)" "uint (?b ! 2) = cot mod 256"
    using assms(1,2,5)
    by (simp_all only: append_Cons nth_Cons_0 nth_Cons_Suc One_nat_def numeral_2_eq_2 uint_byte) simp_all
  have len: "length (concat objs) = length objs * (3 + k)"
    using assms(6) by (induction objs) simp_all
  have parts: "slice 4 6 ?b = le_bytes 2 ca" "drop 6 ?b = concat objs" "length ?b = 6 + length objs * (3 + k)"
    using len by (simp_all add: slice_def)
  have c: "chunks (3 + k) (concat objs) = objs" by (rule chunks_concat) (use assms(6) in auto)
  show ?thesis
    unfolding decode_asdu_def u parts c using assms(3-5) by simp
qed

lemma finish_apdu_ok:
  assumes "finish_apdu s r a = Inr b"
  shows "decode_apdu b = Some (IFormat (s mod 32768) (r mod 32768) a)" and "length a \<le> 251"
  using assms decode_i by (auto simp: finish_apdu_def i_format_eq split: if_splits)

text \<open>A list of objects of a fixed size: what \<open>concatM\<close> returns comes apart again.\<close>

lemma concatM_sized:
  assumes "concatM f xs = Inr out"
  obtains obs where "out = concat obs" and "list_all2 (\<lambda>x ob. f x = Inr ob) xs obs"
  using assms by (auto simp: concatM_def res_simps mapM_eq_Inr_iff)

lemma monitor_decodes:
  assumes b: "bnd (build_asdu_header t (length xs) False cot 0 ca) (\<lambda>h. bnd (concatM f xs) (\<lambda>obs.
      finish_apdu s r (h @ obs))) = Inr b"
    and t: "0 \<le> t" "t < 256"
    and f: "\<And>x ob. x \<in> set xs \<Longrightarrow> f x = Inr ob \<Longrightarrow> length ob = 3 + k \<and> decode_object ob = g x"
  shows "\<exists>a. decode_apdu b = Some (IFormat (s mod 32768) (r mod 32768) a)
    \<and> decode_asdu k a = Some \<lparr>type_of = t, count = int (length xs), cause = cot mod 256, address = ca,
        objects = map g xs\<rparr>"
proof -
  from b obtain h out where h: "build_asdu_header t (length xs) False cot 0 ca = Inr h"
    and o: "concatM f xs = Inr out" and fin: "finish_apdu s r (h @ out) = Inr b"
    by (auto simp: res_simps)
  obtain obs where out: "out = concat obs" and all: "list_all2 (\<lambda>x ob. f x = Inr ob) xs obs"
    by (rule concatM_sized [OF o])
  have n: "length obs = length xs" using list_all2_lengthD [OF all] by simp
  have each: "length (obs ! i) = 3 + k \<and> decode_object (obs ! i) = g (xs ! i)" if "i < length xs" for i
    using f [OF nth_mem, of i "obs ! i"] list_all2_nthD [OF all] that by simp
  then have sizes: "\<forall>ob \<in> set obs. length ob = 3 + k" and vals: "map decode_object obs = map g xs"
    using n by (auto simp: in_set_conv_nth intro!: nth_equalityI)
  have "length h = 6" and ca: "0 \<le> ca" "ca < 65536"
    using h by (auto simp: build_asdu_header_def Let_def res_simps split: if_splits)
  moreover have "length out = length xs * (3 + k)"
  proof -
    have "length (concat obs) = length obs * (3 + k)" using sizes by (induction obs) auto
    then show ?thesis by (simp add: out n)
  qed
  ultimately have "6 + length xs * (3 + k) \<le> 251" using finish_apdu_ok(2) [OF fin] by simp
  moreover have "length xs * 3 \<le> length xs * (3 + k)" by simp
  ultimately have "length xs < 128" by linarith
  with h t ca have "h = [word_of_int t, word_of_int (int (length obs)), word_of_int cot, 0] @ le_bytes 2 ca"
    by (simp add: asdu_header_eq n)
  then show ?thesis
    using finish_apdu_ok(1) [OF fin] decode_asdu_built [OF t ca, of obs k cot] \<open>length xs < 128\<close> sizes vals n
    by (simp add: out)
qed

lemma decode_ioa: "decode_object (le_bytes 3 a @ v) = (a mod 16777216, v)"
  by (simp add: decode_object_def)

lemma pack_ioa_Inr: "pack_ioa a = Inr b \<Longrightarrow> b = le_bytes 3 a"
  by (auto simp: pack_ioa_def res_simps eval_nat_numeral split: if_splits)

lemma one_object:
  assumes "0 \<le> t" "t < 256" "0 \<le> ca" "ca < 65536"
  obtains b a where
    "bnd (build_asdu_header t 1 False cot 0 ca) (\<lambda>h. finish_apdu s r (h @ le_bytes 3 ioa @ [x])) = Inr b"
    and "decode_apdu b = Some (IFormat (s mod 32768) (r mod 32768) a)"
    and "decode_asdu 1 a = Some \<lparr>type_of = t, count = 1, cause = cot mod 256, address = ca,
           objects = [(ioa mod 16777216, [x])]\<rparr>"
    and "length b = 16"
proof -
  let ?h = "[word_of_int t, word_of_int 1, word_of_int cot, 0] @ le_bytes 2 ca"
  have h: "build_asdu_header t 1 False cot 0 ca = Inr ?h"
    using assms asdu_header_eq [of t ca 1] by simp
  obtain b where b: "finish_apdu s r (?h @ le_bytes 3 ioa @ [x]) = Inr b" and l: "length b = 16"
    by (simp add: finish_apdu_def i_format_eq)
  have "decode_asdu 1 (?h @ le_bytes 3 ioa @ [x]) = Some \<lparr>type_of = t, count = 1, cause = cot mod 256,
      address = ca, objects = [(ioa mod 16777216, [x])]\<rparr>"
    using decode_asdu_built [OF assms, of "[le_bytes 3 ioa @ [x]]" 1 cot] by (simp add: decode_ioa)
  with that [of b] finish_apdu_ok(1) [OF b] b l h show ?thesis by simp
qed

section \<open>The properties\<close>

text \<open>
  C38: The three APCI formats round trip: an I frame with an ASDU of at most 251 octets gives
  back the ASDU and both sequence numbers modulo 2 to the 15, an S frame its sequence number, a
  U frame its control octet; longer ASDUs are refused.
\<close>

theorem apci_roundtrip:
  "(if length a \<le> 251
    then \<exists>h. build_apci_i_format s r (length a) = Inr h
         \<and> decode_apdu (h @ a) = Some (IFormat (s mod 32768) (r mod 32768) a)
    else build_apci_i_format s r (length a) = Inl ValueError)
   \<and> (\<exists>b. build_apci_s_format r = Inr b \<and> decode_apdu b = Some (SFormat (r mod 32768)))
   \<and> (\<forall>c \<in> {0x07, 0x0B, 0x13, 0x23, 0x43, 0x83}.
        \<exists>b. build_apci_u_format c = Inr b \<and> decode_apdu b = Some (UFormat c))"
proof -
  have s: "decode_apdu ([0x68, 4, 1, 0] @ le_bytes 2 (2 * r)) = Some (SFormat (r mod 32768))"
    unfolding decode_apdu_def
    by (simp add: slice_def double_mod iec_consts bit_numeral_rec)
  have u: "\<exists>b. build_apci_u_format c = Inr b \<and> decode_apdu b = Some (UFormat c)"
    if "c \<in> {0x07, 0x0B, 0x13, 0x23, 0x43, 0x83}" for c
  proof -
    have "build_apci_u_format c = Inr [0x68, 4, word_of_int c, 0, 0, 0]"
      using that by (auto simp: build_apci_u_format_def iec_consts)
    moreover have "decode_apdu [0x68, 4, word_of_int c, 0, 0, 0] = Some (UFormat c)"
      using that by (auto simp: decode_apdu_def iec_consts bit_numeral_rec)
    ultimately show ?thesis by blast
  qed
  show ?thesis
    using decode_i [of a s r] s u by (simp add: i_format_eq s_format_eq)
qed

theorem apci_roundtrip_witness:
  "(\<exists>h. build_apci_i_format 1 40000 2 = Inr h \<and> decode_apdu (h @ [7, 8]) = Some (IFormat 1 7232 [7, 8]))
   \<and> (\<exists>b. build_apci_u_format 0x43 = Inr b \<and> decode_apdu b = Some (UFormat 0x43))"
  using apci_roundtrip [of "[7, 8]" 1 40000] by (simp add: numeral_2_eq_2)

text \<open>
  C39: Spontaneous data: from the APDU that \<open>build_single_point_info\<close> or one of the two
  measured-value builders returns, the receiver gets back the type, the number of objects, the
  cause (modulo 256: its octet), the common address, and for each object its address (modulo 2 to
  the 24: the code cuts the fourth octet off) and its value: on or off, the 16-bit two's complement
  of a scaled value, or the binary32 pattern of a float, which is rounded to the nearest binary32
  value. That the builders return is a hypothesis: they raise on what does not fit their octets.
\<close>

theorem monitor_roundtrip:
  assumes "build_single_point_info s r ca points cot = Inr b1"
    and "build_measured_value_scaled s r ca scaled cot = Inr b2"
    and "build_measured_value_float s r ca floats cot = Inr b3"
  shows "\<exists>a1 a2 a3. decode_apdu b1 = Some (IFormat (s mod 32768) (r mod 32768) a1)
    \<and> decode_asdu 1 a1 = Some \<lparr>type_of = 1, count = int (length points), cause = cot mod 256, address = ca,
        objects = map (\<lambda>(a, v). (a mod 16777216, [if v then 1 else 0])) points\<rparr>
    \<and> decode_apdu b2 = Some (IFormat (s mod 32768) (r mod 32768) a2)
    \<and> decode_asdu 3 a2 = Some \<lparr>type_of = 11, count = int (length scaled), cause = cot mod 256, address = ca,
        objects = map (\<lambda>(a, v). (a mod 16777216, le_bytes 2 v @ [0])) scaled\<rparr>
    \<and> decode_apdu b3 = Some (IFormat (s mod 32768) (r mod 32768) a3)
    \<and> decode_asdu 5 a3 = Some \<lparr>type_of = 13, count = int (length floats), cause = cot mod 256, address = ca,
        objects = map (\<lambda>(a, v). (a mod 16777216, le_bytes 4 (f32_bits (round_f32 v)) @ [0])) floats\<rparr>"
proof -
  have 1: "length ob = 3 + 1 \<and> decode_object ob = (case x of (a, v) \<Rightarrow> (a mod 16777216, [if v then 1 else 0]))"
    if "single_point_object x = Inr ob" for x ob
    using that by (auto simp: single_point_object_def res_simps decode_ioa dest!: pack_ioa_Inr
        split: prod.splits if_splits)
  have 2: "length ob = 3 + 3 \<and> decode_object ob = (case x of (a, v) \<Rightarrow> (a mod 16777216, le_bytes 2 v @ [0]))"
    if "scaled_object x = Inr ob" for x ob
    using that by (auto simp: scaled_object_def res_simps decode_ioa dest!: pack_ioa_Inr
        split: prod.splits if_splits)
  have 3: "length ob = 3 + 5 \<and> decode_object ob = (case x of (a, v) \<Rightarrow> (a mod 16777216, le_bytes 4 (f32_bits (round_f32 v)) @ [0]))"
    if "float_object x = Inr ob" for x ob
    using that
    by (auto simp: float_object_def res_simps decode_ioa simp del: round_f32.simps
        dest!: pack_ioa_Inr pack_f_little split: prod.splits if_splits)
  show ?thesis
    using monitor_decodes [OF assms(1) [unfolded build_single_point_info_def], of 1] 1
      monitor_decodes [OF assms(2) [unfolded build_measured_value_scaled_def], of 3] 2
      monitor_decodes [OF assms(3) [unfolded build_measured_value_float_def], of 5] 3
    by (simp add: iec_consts)
qed


theorem monitor_roundtrip_witness:
  "\<exists>b1 b2 b3 a1 a2 a3. build_single_point_info 1 2 7 [(5, True), (6, False)] 3 = Inr b1
    \<and> decode_apdu b1 = Some (IFormat 1 2 a1)
    \<and> decode_asdu 1 a1 = Some \<lparr>type_of = 1, count = 2, cause = 3, address = 7, objects = [(5, [1]), (6, [0])]\<rparr>
    \<and> build_measured_value_scaled 1 2 7 [(5, - 2)] 3 = Inr b2 \<and> decode_apdu b2 = Some (IFormat 1 2 a2)
    \<and> decode_asdu 3 a2 = Some \<lparr>type_of = 11, count = 1, cause = 3, address = 7, objects = [(5, [254, 255, 0])]\<rparr>
    \<and> build_measured_value_float 1 2 7 [(5, Fin False 8388608 (- 23))] 3 = Inr b3
    \<and> decode_apdu b3 = Some (IFormat 1 2 a3)
    \<and> decode_asdu 5 a3 = Some \<lparr>type_of = 13, count = 1, cause = 3, address = 7, objects = [(5, [0, 0, 128, 63, 0])]\<rparr>"
proof -
  have r: "le_bytes 2 (- 2) = [254, 255]" "le_bytes 4 1065353216 = [0, 0, 128, 63]" "le_bytes 2 7 = [7, 0]"
    "le_bytes 2 2 = [2, 0]" "le_bytes 2 4 = [4, 0]" "le_bytes 4 5 = [5, 0, 0, 0]" "le_bytes 4 6 = [6, 0, 0, 0]"
    by (rule le_bytes_eqI; simp)+
  have h: "build_asdu_header t n False 3 0 7
      = Inr [word_of_int t, word_of_int (int n), 3, 0, 7, 0]" if "0 \<le> t" "t < 256" "n < 128" for t n
    using asdu_header_eq [of t 7 n 3] that by (simp add: r)
  have e: "build_single_point_info 1 2 7 [(5, True), (6, False)] 3
      = Inr ([0x68, 18, 2, 0, 4, 0] @ [1, 2, 3, 0, 7, 0, 5, 0, 0, 1, 6, 0, 0, 0])"
    "build_measured_value_scaled 1 2 7 [(5, - 2)] 3
      = Inr ([0x68, 16, 2, 0, 4, 0] @ [11, 1, 3, 0, 7, 0, 5, 0, 0, 254, 255, 0])"
    "build_measured_value_float 1 2 7 [(5, Fin False 8388608 (- 23))] 3
      = Inr ([0x68, 18, 2, 0, 4, 0] @ [13, 1, 3, 0, 7, 0, 5, 0, 0, 0, 0, 128, 63, 0])"
    by (simp_all add: build_single_point_info_def build_measured_value_scaled_def build_measured_value_float_def
        single_point_object_def scaled_object_def float_object_def iec_consts h pack_ioa_def r finish_apdu_def
        i_format_eq pack_f_f32)
  have one: "f32_bits (round_f32 (Fin False 8388608 (- 23))) = 1065353216"
    by (simp add: round_f32_id del: round_f32.simps)
  show ?thesis
    using monitor_roundtrip [OF e] e by (auto simp: r one simp del: round_f32.simps f32_bits.simps)
qed

text \<open>
  A single command and its confirmation decode to the same point, on or off, and common
  address, with cause 6 for the command and 7 (or 71, the negative confirmation) for the answer,
  and the packet around the command carries its APDU.  The confirmation never repeats the
  select bit of the command: a select is confirmed as an execute.
\<close>

theorem command_confirmed:
  assumes "0 \<le> ca" "ca < 65536" "0 \<le> ioa" "ioa < 16777216"
  shows "\<exists>b1 a1 b2 a2. build_single_command s r ca ioa v sel = Inr b1
    \<and> decode_apdu b1 = Some (IFormat (s mod 32768) (r mod 32768) a1)
    \<and> decode_asdu 1 a1 = Some \<lparr>type_of = 45, count = 1, cause = 6, address = ca,
        objects = [(ioa, [if sel then if v then 0x81 else 0x80 else if v then 1 else 0])]\<rparr>
    \<and> build_command_response r s ca C_SC_NA_1 ioa (PBool v) success = Inr b2
    \<and> decode_apdu b2 = Some (IFormat (r mod 32768) (s mod 32768) a2)
    \<and> decode_asdu 1 a2 = Some \<lparr>type_of = 45, count = 1, cause = (if success then 7 else 71), address = ca,
        objects = [(ioa, [if v then 1 else 0])]\<rparr>
    \<and> (\<forall>pkt. build_iec104_packet (demo_dev ''10.0.0.1'') (demo_dev ''10.0.0.2'') b1 seq ack = Inr pkt
         \<longrightarrow> tcp_payload pkt = b1)"
proof -
  have t: "0 \<le> (45::int)" "(45::int) < 256" by simp_all
  have m: "ioa mod 16777216 = ioa" using assms by simp
  obtain b1 a1 where 1: "bnd (build_asdu_header 45 1 False 6 0 ca)
       (\<lambda>h. finish_apdu s r (h @ le_bytes 3 ioa @ [if sel then if v then 0x81 else 0x80 else if v then 1 else 0])) = Inr b1"
    "decode_apdu b1 = Some (IFormat (s mod 32768) (r mod 32768) a1)"
    "decode_asdu 1 a1 = Some \<lparr>type_of = 45, count = 1, cause = 6 mod 256, address = ca,
       objects = [(ioa mod 16777216, [if sel then if v then 0x81 else 0x80 else if v then 1 else 0])]\<rparr>"
    by (rule one_object [OF t assms(1,2)])
  obtain b2 a2 where 2: "bnd (build_asdu_header 45 1 False (if success then 7 else 71) 0 ca)
       (\<lambda>h. finish_apdu r s (h @ le_bytes 3 ioa @ [if v then 1 else 0])) = Inr b2"
    "decode_apdu b2 = Some (IFormat (r mod 32768) (s mod 32768) a2)"
    "decode_asdu 1 a2 = Some \<lparr>type_of = 45, count = 1, cause = (if success then 7 else 71) mod 256, address = ca,
       objects = [(ioa mod 16777216, [if v then 1 else 0])]\<rparr>"
    by (rule one_object [OF t assms(1,2)])
  have "build_single_command s r ca ioa v sel = Inr b1"
    using 1(1) assms by (simp add: build_single_command_def iec_consts pack_ioa_eq py_byte_def split: if_splits)
  moreover have "build_command_response r s ca C_SC_NA_1 ioa (PBool v) success = Inr b2"
    using 2(1) assms
    by (simp add: build_command_response_def iec_consts pack_ioa_eq py_byte_def split: if_splits)
  moreover have "tcp_payload pkt = b1"
    if "build_iec104_packet (demo_dev ''10.0.0.1'') (demo_dev ''10.0.0.2'') b1 seq ack = Inr pkt" for pkt
    using tcp_payload_packet [of IEC104_PORT _ _ b1 seq ack pkt, where trailer = "[]"] that
    by (simp add: build_iec104_packet_def demo_mac)
  ultimately show ?thesis using 1(2,3) 2(2,3) by (auto simp: m)
qed


theorem command_confirmed_witness:
  "\<exists>b1 a1. build_single_command 0 0 1 5 True True = Inr b1 \<and> decode_apdu b1 = Some (IFormat 0 0 a1)
    \<and> decode_asdu 1 a1 = Some \<lparr>type_of = 45, count = 1, cause = 6, address = 1, objects = [(5, [0x81])]\<rparr>"
  using command_confirmed [of 1 5 0 0 True True True 0 0] by (simp only: if_True) (simp, blast)

end
