(* ===== verification/ClassD.thy ===== *)
theory ClassD
  imports PyValue TcpStream
begin

text \<open>
  \<open>backend/app/protocol_engines/emp/class_d.py\<close>: the Class D frame around an EMP message, its
  parser, the COMMID counter and the ground-truth labels of a frame.
\<close>

section \<open>Constants\<close>

definition CLASS_D_STX :: int where "CLASS_D_STX = 0x02"
definition CLASS_D_ETX :: int where "CLASS_D_ETX = 0x03"
definition CLASS_D_PROTOCOL_VERSION :: int where "CLASS_D_PROTOCOL_VERSION = 0x02"
definition CLASS_D_MESSAGE_VERSION :: int where "CLASS_D_MESSAGE_VERSION = 0x02"
definition CLASS_D_HEADER_LEN :: nat where "CLASS_D_HEADER_LEN = 12"
definition CLASS_D_OVERHEAD :: nat where "CLASS_D_OVERHEAD = CLASS_D_HEADER_LEN + 1"
definition CLASS_D_DATA :: int where "CLASS_D_DATA = 1"
definition CLASS_D_ACK :: int where "CLASS_D_ACK = 2"
definition CLASS_D_NAK :: int where "CLASS_D_NAK = 3"
definition CLASS_D_KEEPALIVE :: int where "CLASS_D_KEEPALIVE = 4"

definition CLASS_D_TYPE_NAMES :: "(int \<times> string) list" where
  "CLASS_D_TYPE_NAMES =
     [(1, ''data''), (2, ''ack''), (3, ''nak''), (4, ''keepalive''), (30, ''conformance_test''),
      (31, ''test_echo_request''), (32, ''test_echo_response''), (40, ''op_echo_request''),
      (41, ''op_echo_response'')]"

definition COMMID_MIN :: int where "COMMID_MIN = 1"
definition COMMID_MAX :: int where "COMMID_MAX = 0xFFFFFFFF"

lemmas class_d_consts =
  CLASS_D_STX_def CLASS_D_ETX_def CLASS_D_PROTOCOL_VERSION_def CLASS_D_MESSAGE_VERSION_def
  CLASS_D_HEADER_LEN_def CLASS_D_OVERHEAD_def CLASS_D_DATA_def CLASS_D_ACK_def CLASS_D_NAK_def
  CLASS_D_KEEPALIVE_def COMMID_MIN_def COMMID_MAX_def

section \<open>Building\<close>

definition next_commid :: "int \<Rightarrow> int" where
  "next_commid current = (if COMMID_MAX \<le> current then COMMID_MIN else current + 1)"

definition build_class_d :: "bytes \<Rightarrow> int \<Rightarrow> int \<Rightarrow> bytes res" where
  "build_class_d body commid message_type =
     bnd (py_bytes [CLASS_D_STX, CLASS_D_PROTOCOL_VERSION]) (\<lambda>start.
     bnd (struct_pack ''>I'' [commid AND 0xFFFFFFFF]) (\<lambda>c.
     bnd (py_bytes [message_type AND 0xFF, CLASS_D_MESSAGE_VERSION]) (\<lambda>t.
     bnd (struct_pack ''>I'' [int (length body)]) (\<lambda>n.
     bnd (py_bytes [CLASS_D_ETX]) (\<lambda>etx.
     Inr (start @ c @ t @ n @ body @ etx))))))"

definition build_ack :: "int \<Rightarrow> int \<Rightarrow> bytes res" where
  "build_ack commid acked_commid =
     bnd (struct_pack ''>I'' [acked_commid AND 0xFFFFFFFF]) (\<lambda>body. build_class_d body commid CLASS_D_ACK)"

definition build_nak :: "int \<Rightarrow> int \<Rightarrow> int \<Rightarrow> bytes res" where
  "build_nak commid nakd_commid error_code =
     bnd (struct_pack ''>I'' [nakd_commid AND 0xFFFFFFFF]) (\<lambda>c.
     bnd (py_bytes [error_code AND 0xFF]) (\<lambda>e. build_class_d (c @ e) commid CLASS_D_NAK))"

definition build_keepalive :: "int \<Rightarrow> bytes res" where
  "build_keepalive commid = build_class_d [] commid CLASS_D_KEEPALIVE"

section \<open>Parsing\<close>

record class_d =
  protocol_version :: int
  commid_of :: int
  message_type_of :: int
  message_version :: int
  data_length :: int
  body_of :: bytes

definition parse_class_d :: "bytes \<Rightarrow> class_d res" where
  "parse_class_d raw_bytes =
     (if length raw_bytes < CLASS_D_OVERHEAD then Inl ValueError
      else if uint (raw_bytes ! 0) \<noteq> CLASS_D_STX then Inl ValueError
      else if uint (last raw_bytes) \<noteq> CLASS_D_ETX then Inl ValueError
      else
        let n = be_val (slice 8 12 raw_bytes);
            body = slice CLASS_D_HEADER_LEN (CLASS_D_HEADER_LEN + nat n) raw_bytes
        in if int (length body) \<noteq> n then Inl ValueError
           else if int (length raw_bytes) \<noteq> int CLASS_D_OVERHEAD + n then Inl ValueError
           else Inr \<lparr>protocol_version = uint (raw_bytes ! 1), commid_of = be_val (slice 2 6 raw_bytes),
                  message_type_of = uint (raw_bytes ! 6), message_version = uint (raw_bytes ! 7),
                  data_length = n, body_of = body\<rparr>)"

text \<open>A receiver cuts the frames out of a stream by their length field.\<close>

definition take_class_d :: "bytes \<Rightarrow> ((int \<times> int \<times> bytes) \<times> bytes) option" where
  "take_class_d s =
     (if length s < CLASS_D_OVERHEAD then None
      else let n = CLASS_D_OVERHEAD + nat (be_val (slice 8 12 s))
           in case parse_class_d (take n s) of
                Inl _ \<Rightarrow> None
              | Inr m \<Rightarrow> Some ((commid_of m, message_type_of m, body_of m), drop n s))"

section \<open>Labels\<close>

record label =
  off :: int
  len :: int
  field :: string
  value_of :: pyval
  synthetic :: bool
  confidence :: string

definition spec_label :: "int \<Rightarrow> int \<Rightarrow> string \<Rightarrow> pyval \<Rightarrow> label" where
  "spec_label n k f v =
     \<lparr>off = n, len = k, field = f, value_of = v, synthetic = False, confidence = ''spec_legacy''\<rparr>"

definition class_d_field_map :: "int \<Rightarrow> int \<Rightarrow> nat \<Rightarrow> label list" where
  "class_d_field_map commid message_type body_len =
     [spec_label 0 1 ''classd.stx'' (PInt CLASS_D_STX),
      spec_label 1 1 ''classd.protocol_version'' (PInt CLASS_D_PROTOCOL_VERSION),
      spec_label 2 4 ''classd.commid'' (PInt commid),
      spec_label 6 1 ''classd.message_type''
        (case map_of CLASS_D_TYPE_NAMES message_type of Some s \<Rightarrow> PStr s | None \<Rightarrow> PInt message_type),
      spec_label 7 1 ''classd.message_version'' (PInt CLASS_D_MESSAGE_VERSION),
      spec_label 8 4 ''classd.data_length'' (PInt (int body_len)),
      spec_label (int CLASS_D_HEADER_LEN + int body_len) 1 ''classd.etx'' (PInt CLASS_D_ETX)]"

section \<open>Layout\<close>

text \<open>A frame: communication id, message type and body, with the fixed fields around them.\<close>

fun class_d_ok :: "int \<times> int \<times> bytes \<Rightarrow> bool" where
  "class_d_ok (c, t, body) \<longleftrightarrow>
     0 \<le> c \<and> c < 4294967296 \<and> 0 \<le> t \<and> t < 256 \<and> length body < 4294967296"

fun class_d_bytes :: "int \<times> int \<times> bytes \<Rightarrow> bytes" where
  "class_d_bytes (c, t, body) =
     [2, 2] @ be_bytes 4 c @ [word_of_int t, 2] @ be_bytes 4 (int (length body)) @ body @ [3]"

lemma build_class_d_eq:
  "build_class_d body c t =
     (if length body < 4294967296 then Inr (class_d_bytes (c, t, body)) else Inl StructError)"
proof -
  have "be_bytes 4 (c mod 4294967296) = be_bytes 4 c" using be_bytes_mod [of 4 c] by simp
  moreover have "(word_of_int (t mod 256) :: byte) = word_of_int t" using le_bytes_mod [of 1 t] by simp
  ultimately show ?thesis
    by (simp add: build_class_d_def class_d_consts and_mask_8 and_mask_32 py_byte_ok)
qed

lemma length_class_d [simp]: "length (class_d_bytes (c, t, body)) = 13 + length body"
  by simp

lemma class_d_parts:
  "class_d_bytes (c, t, body) ! 0 = 2" "class_d_bytes (c, t, body) ! 1 = 2"
  "slice 2 6 (class_d_bytes (c, t, body)) = be_bytes 4 c"
  "class_d_bytes (c, t, body) ! 6 = word_of_int t" "class_d_bytes (c, t, body) ! 7 = 2"
  "slice 8 12 (class_d_bytes (c, t, body)) = be_bytes 4 (int (length body))"
  "slice 12 (12 + length body) (class_d_bytes (c, t, body)) = body"
  "last (class_d_bytes (c, t, body)) = 3"
  by (simp_all add: slice_def nth_append)

lemma parse_class_d_bytes:
  assumes "length body < 4294967296"
  shows "parse_class_d (class_d_bytes (c, t, body)) =
     Inr \<lparr>protocol_version = 2, commid_of = c mod 4294967296, message_type_of = t mod 256, message_version = 2,
        data_length = int (length body), body_of = body\<rparr>"
  using assms unfolding parse_class_d_def class_d_parts
  by (simp add: class_d_consts class_d_parts uint_byte Let_def del: class_d_bytes.simps)

text \<open>The parser accepts exactly what the builder makes, up to the two version octets.\<close>

lemma parse_class_d_inv:
  assumes "parse_class_d r = Inr m"
  shows "r = [2, word_of_int (protocol_version m)] @ be_bytes 4 (commid_of m)
      @ [word_of_int (message_type_of m), word_of_int (message_version m)]
      @ be_bytes 4 (int (length (body_of m))) @ body_of m @ [3]"
proof -
  have n: "13 \<le> length r" and z: "uint (r ! 0) = 2" "uint (last r) = 3"
    and b: "int (length (body_of m)) = be_val (slice 8 12 r)"
    and l: "int (length r) = 13 + be_val (slice 8 12 r)"
    and m: "protocol_version m = uint (r ! 1)" "commid_of m = be_val (slice 2 6 r)"
      "message_type_of m = uint (r ! 6)" "message_version m = uint (r ! 7)"
      "body_of m = slice 12 (12 + nat (be_val (slice 8 12 r))) r"
    using assms by (auto simp: parse_class_d_def Let_def class_d_consts split: if_splits)
  have w: "r ! 0 = 2" "last r = 3" using z by (metis word_of_int_uint word_of_int_numeral)+
  have k: "be_bytes 4 (be_val (slice i (i + 4) r)) = slice i (i + 4) r" if "i + 4 \<le> length r" for i
    using be_bytes_be_val [of "slice i (i + 4) r"] that by simp
  have "nat (be_val (slice 8 12 r)) = length r - 13" using l by linarith
  then have body: "body_of m = slice 12 (length r - 1) r" using m(5) n by simp
  have "r = take 8 r @ slice 8 12 r @ slice 12 (length r - 1) r @ [last r]"
  proof (intro nth_equalityI)
    have "r ! i = last r" if "length r \<le> i + 1" "i < length r" for i
    proof -
      from that have "r \<noteq> []" and "i = length r - 1" by auto
      then show ?thesis by (simp add: last_conv_nth)
    qed
    then show "r ! i = (take 8 r @ slice 8 12 r @ slice 12 (length r - 1) r @ [last r]) ! i"
      if "i < length r" for i
      using n that by (auto simp: slice_def nth_append min_def)
  qed (use n in simp)
  moreover have "take 8 r = [r ! 0, r ! 1] @ slice 2 6 r @ [r ! 6, r ! 7]"
    using n by (intro nth_equalityI) (auto simp: slice_def nth_append nth_Cons less_Suc_eq numeral_eq_Suc)
  moreover have "slice 2 6 r = be_bytes 4 (commid_of m)" using k [of 2] n m(2) by simp
  moreover have "slice 8 12 r = be_bytes 4 (int (length (body_of m)))" using k [of 8] n b by simp
  ultimately show ?thesis using w m(1,3,4) body by simp
qed

lemma take_class_d_bytes:
  assumes "class_d_ok f"
  shows "take_class_d (class_d_bytes f @ rest) = Some (f, rest)"
proof -
  obtain c t body where f: "f = (c, t, body)" by (cases f)
  let ?b = "class_d_bytes (c, t, body)"
  have "slice 8 12 (?b @ rest) = slice 8 12 ?b" by (simp add: slice_def)
  then have n: "13 + nat (be_val (slice 8 12 (?b @ rest))) = length ?b"
    using assms unfolding class_d_parts by (simp add: f)
  have "CLASS_D_OVERHEAD = 13" by (simp add: class_d_consts)
  then show ?thesis
    using assms n unfolding take_class_d_def f
    by (simp add: Let_def parse_class_d_bytes del: class_d_bytes.simps)
qed

interpretation classd: framing take_class_d class_d_ok class_d_bytes
  by unfold_locales (rule take_class_d_bytes)

section \<open>The properties\<close>

text \<open>
  Builder and parser of Class D are inverse to each other: whatever the builder returns is
  parsed into the communication id modulo 2 to the 32, the message type modulo 256 and the
  body; and a message that the parser accepts with both versions 2 is the one the builder makes
  of the parsed fields.  The builder refuses a body of 2 to the 32 octets or more.
\<close>

theorem class_d_roundtrip:
  "(case build_class_d body c t of
      Inr msg \<Rightarrow> parse_class_d msg = Inr \<lparr>protocol_version = 2, commid_of = c mod 4294967296,
        message_type_of = t mod 256, message_version = 2, data_length = int (length body), body_of = body\<rparr>
    | Inl e \<Rightarrow> e = StructError \<and> 4294967296 \<le> length body)
   \<and> (case parse_class_d r of
        Inr m \<Rightarrow> (protocol_version m, message_version m) = (2, 2)
          \<longrightarrow> build_class_d (body_of m) (commid_of m) (message_type_of m) = Inr r
      | Inl e \<Rightarrow> e = ValueError)"
proof
  show "case build_class_d body c t of
      Inr msg \<Rightarrow> parse_class_d msg = Inr \<lparr>protocol_version = 2, commid_of = c mod 4294967296,
        message_type_of = t mod 256, message_version = 2, data_length = int (length body), body_of = body\<rparr>
    | Inl e \<Rightarrow> e = StructError \<and> 4294967296 \<le> length body"
    by (simp add: build_class_d_eq parse_class_d_bytes del: class_d_bytes.simps)
  show "case parse_class_d r of
        Inr m \<Rightarrow> (protocol_version m, message_version m) = (2, 2)
          \<longrightarrow> build_class_d (body_of m) (commid_of m) (message_type_of m) = Inr r
      | Inl e \<Rightarrow> e = ValueError"
  proof (cases "parse_class_d r")
    case (Inl e)
    then show ?thesis by (auto simp: parse_class_d_def Let_def split: if_splits)
  next
    case (Inr m)
    have "int (length (body_of m)) = be_val (slice 8 12 r)"
      using Inr by (auto simp: parse_class_d_def Let_def split: if_splits)
    moreover have "be_val (slice 8 12 r) < 256 ^ 4"
      by (rule less_le_trans [OF be_val_less]) (rule power_increasing; simp)
    ultimately have "length (body_of m) < 4294967296" by simp
    with parse_class_d_inv [OF Inr] Inr show ?thesis by (simp add: build_class_d_eq)
  qed
qed

theorem class_d_roundtrip_witness:
  "parse_class_d [2, 2, 0, 0, 0, 7, 4, 2, 0, 0, 0, 0, 3] = Inr \<lparr>protocol_version = 2, commid_of = 7,
     message_type_of = 4, message_version = 2, data_length = 0, body_of = []\<rparr>
   \<and> build_class_d [] 7 4 = Inr [2, 2, 0, 0, 0, 7, 4, 2, 0, 0, 0, 0, 3]"
proof -
  have "build_class_d [] 7 4 = Inr [2, 2, 0, 0, 0, 7, 4, 2, 0, 0, 0, 0, 3]"
  proof -
    have "be_bytes 4 7 = [0, 0, 0, 7]" "be_bytes 4 0 = [0, 0, 0, 0]"
      by (simp_all add: be_bytes_def eval_nat_numeral)
    then show ?thesis by (simp add: build_class_d_eq)
  qed
  with class_d_roundtrip [of "[]" 7 4 "[]"] show ?thesis by simp
qed

end
