(* ===== verification/Emp.thy ===== *)
theory Emp
  imports ClassD
begin

text \<open>
  \<open>backend/app/protocol_engines/emp/packets.py\<close>: the EMP message, its CRC-32, the synthetic
  application payloads and the ground-truth labels; and the decoder of a receiver.

  \<open>crc32\<close> is \<open>binascii.crc32\<close> of the standard library.  \<open>emp_address\<close>, which only names the
  nodes, is not modelled: addresses are arbitrary strings.
\<close>

section \<open>Constants and checksum\<close>

definition EMP_VERSION :: int where "EMP_VERSION = 4"
definition EMP_MESSAGE_VERSION :: int where "EMP_MESSAGE_VERSION = 1"
definition EMP_DEFAULT_TTL_S :: int where "EMP_DEFAULT_TTL_S = 120"
definition EMP_DEFAULT_QOS :: int where "EMP_DEFAULT_QOS = 0"
definition EMP_MSG_REGISTRATION :: int where "EMP_MSG_REGISTRATION = 6000"
definition EMP_MSG_WIU_STATUS :: int where "EMP_MSG_WIU_STATUS = 7120"
definition EMP_MSG_WDC_CONTROL :: int where "EMP_MSG_WDC_CONTROL = 7124"
definition EMP_MSG_ACK :: int where "EMP_MSG_ACK = 7200"

definition EMP_MSG_NAMES :: "(int \<times> string) list" where
  "EMP_MSG_NAMES =
     [(6000, ''registration''), (6001, ''keepalive''), (7120, ''wiu_status''), (7124, ''wdc_control''), (7200, ''ack'')]"

lemmas emp_consts =
  EMP_VERSION_def EMP_MESSAGE_VERSION_def EMP_DEFAULT_TTL_S_def EMP_DEFAULT_QOS_def
  EMP_MSG_REGISTRATION_def EMP_MSG_WIU_STATUS_def EMP_MSG_WDC_CONTROL_def EMP_MSG_ACK_def

definition crc32_bit :: "32 word \<Rightarrow> 32 word" where
  "crc32_bit r = (if bit r 0 then drop_bit 1 r XOR 0xEDB88320 else drop_bit 1 r)"

definition crc32 :: "bytes \<Rightarrow> int" where
  "crc32 bs = uint (NOT (foldl (\<lambda>r b. (crc32_bit ^^ 8) (r XOR ucast b)) (NOT 0) bs))"

definition signed_crc32 :: "bytes \<Rightarrow> int" where
  "signed_crc32 bs = (let v = crc32 bs AND 0xFFFFFFFF in if 0x80000000 \<le> v then v - 0x100000000 else v)"

section \<open>The message\<close>

definition encode_ascii :: "string \<Rightarrow> bytes res" where
  "encode_ascii s = (if list_all (\<lambda>c. (of_char c :: nat) < 128) s then Inr (utf8 s) else Inl UnicodeEncodeError)"

definition build_emp_message ::
    "int \<Rightarrow> string \<Rightarrow> string \<Rightarrow> bytes \<Rightarrow> int \<Rightarrow> int \<Rightarrow> int \<Rightarrow> bytes res" where
  "build_emp_message msg_type sender dest payload ttl_s qos flags =
     bnd (encode_ascii sender) (\<lambda>sender_b.
     bnd (encode_ascii dest) (\<lambda>dest_b.
     let body_size = 4 + int (length payload);
         var_hdr_size = int (length sender_b) + int (length dest_b) + 2
     in bnd (struct_pack ''>B'' [EMP_VERSION]) (\<lambda>f1.
        bnd (struct_pack ''>H'' [msg_type AND 0xFFFF]) (\<lambda>f2.
        bnd (struct_pack ''>B'' [EMP_MESSAGE_VERSION]) (\<lambda>f3.
        bnd (struct_pack ''>B'' [flags AND 0xFF]) (\<lambda>f4.
        bnd (struct_pack ''>I'' [body_size]) (\<lambda>f5.
        bnd (struct_pack ''>B'' [var_hdr_size AND 0xFF]) (\<lambda>f6.
        bnd (struct_pack ''>H'' [ttl_s AND 0xFFFF]) (\<lambda>f7.
        bnd (struct_pack ''>H'' [qos AND 0xFFFF]) (\<lambda>f8.
        let b = f1 @ f2 @ f3 @ f4 @ drop 1 f5 @ f6 @ f7 @ f8 @ sender_b @ [0] @ dest_b @ [0] @ payload
        in bnd (struct_pack ''>i'' [signed_crc32 b]) (\<lambda>crc. Inr (b @ crc))))))))))))"

section \<open>Application payloads\<close>

record payload_field =
  p_off :: int
  p_len :: int
  p_field :: string
  p_value :: pyval

definition pf :: "int \<Rightarrow> int \<Rightarrow> string \<Rightarrow> pyval \<Rightarrow> payload_field" where
  "pf n k f v = \<lparr>p_off = n, p_len = k, p_field = f, p_value = v\<rparr>"

definition SIGNAL_ASPECTS :: "(int \<times> string) list" where
  "SIGNAL_ASPECTS = [(0, ''stop''), (1, ''approach''), (2, ''advance_approach''), (3, ''clear'')]"

definition build_wiu_status_payload ::
    "int \<Rightarrow> int \<Rightarrow> bool \<Rightarrow> int \<Rightarrow> int \<Rightarrow> bool \<Rightarrow> int \<Rightarrow> (bytes \<times> payload_field list) res" where
  "build_wiu_status_payload wiu_id signal_aspect switch_normal track_occupancy battery_dv vital_ok epoch_s =
     bnd (struct_pack ''>BHBBBHBI''
       [0x01, wiu_id AND 0xFFFF, signal_aspect AND 0xFF, if switch_normal then 0x00 else 0x01,
        track_occupancy AND 0xFF, battery_dv AND 0xFFFF, if vital_ok then 0x01 else 0x00,
        epoch_s AND 0xFFFFFFFF])
     (\<lambda>payload. Inr (payload,
       [pf 0 1 ''wiu.subtype'' (PInt 1), pf 1 2 ''wiu.wiu_id'' (PInt wiu_id),
        pf 3 1 ''wiu.signal_aspect''
          (case map_of SIGNAL_ASPECTS signal_aspect of Some s \<Rightarrow> PStr s | None \<Rightarrow> PInt signal_aspect),
        pf 4 1 ''wiu.switch_position'' (PStr (if switch_normal then ''normal'' else ''reverse'')),
        pf 5 1 ''wiu.track_occupancy'' (PInt track_occupancy),
        pf 6 2 ''wiu.battery_decivolts'' (PInt battery_dv),
        pf 8 1 ''wiu.vital_status'' (PStr (if vital_ok then ''ok'' else ''fault'')),
        pf 9 4 ''wiu.timestamp_s'' (PInt epoch_s)]))"

definition build_wdc_control_payload ::
    "int \<Rightarrow> int \<Rightarrow> int \<Rightarrow> int \<Rightarrow> int \<Rightarrow> (bytes \<times> payload_field list) res" where
  "build_wdc_control_payload wiu_id command target v seq =
     bnd (struct_pack ''>BHBHHH''
       [0x02, wiu_id AND 0xFFFF, command AND 0xFF, target AND 0xFFFF, v AND 0xFFFF, seq AND 0xFFFF])
     (\<lambda>payload. Inr (payload,
       [pf 0 1 ''wdc.subtype'' (PInt 2), pf 1 2 ''wdc.wiu_id'' (PInt wiu_id), pf 3 1 ''wdc.command'' (PInt command),
        pf 4 2 ''wdc.target'' (PInt target), pf 6 2 ''wdc.value'' (PInt v), pf 8 2 ''wdc.seq'' (PInt seq)]))"

definition build_ack_payload :: "int \<Rightarrow> int \<Rightarrow> (bytes \<times> payload_field list) res" where
  "build_ack_payload ack_seq status =
     bnd (struct_pack ''>BHB'' [0x03, ack_seq AND 0xFFFF, status AND 0xFF])
     (\<lambda>payload. Inr (payload,
       [pf 0 1 ''ack.subtype'' (PInt 3), pf 1 2 ''ack.ack_seq'' (PInt ack_seq), pf 3 1 ''ack.status'' (PInt status)]))"

definition build_registration_payload :: "int \<Rightarrow> int \<Rightarrow> (bytes \<times> payload_field list) res" where
  "build_registration_payload node_id role =
     bnd (struct_pack ''>BHB'' [0x00, node_id AND 0xFFFF, role AND 0xFF])
     (\<lambda>payload. Inr (payload,
       [pf 0 1 ''reg.subtype'' (PInt 0), pf 1 2 ''reg.node_id'' (PInt node_id), pf 3 1 ''reg.role'' (PInt role)]))"

section \<open>Labels\<close>

definition hex_char :: "nat \<Rightarrow> char" where
  "hex_char n = (if n < 10 then char_of (48 + n) else char_of (87 + n))"

definition hex_str :: "bytes \<Rightarrow> string" where
  "hex_str bs = concat (map (\<lambda>b. [hex_char (unat b div 16), hex_char (unat b mod 16)]) bs)"

definition emp_field_map ::
    "int \<Rightarrow> string \<Rightarrow> string \<Rightarrow> bytes \<Rightarrow> payload_field list \<Rightarrow> int \<Rightarrow> label list res" where
  "emp_field_map msg_type sender dest payload payload_fields ttl_s =
     bnd (encode_ascii sender) (\<lambda>sender_b.
     bnd (encode_ascii dest) (\<lambda>dest_b.
     let ls = int (length sender_b); ld = int (length dest_b);
         var_hdr_size = ls + ld + 2;
         payload_off = 13 + var_hdr_size;
         total = payload_off + int (length payload) + 4;
         pfs = (if payload_fields \<noteq> [] then payload_fields
                else [pf 0 (int (length payload)) ''emp.payload'' (PStr (hex_str payload))])
     in Inr (
       [spec_label 0 1 ''emp.version'' (PInt EMP_VERSION),
        spec_label 1 2 ''emp.msg_type'' (PInt msg_type),
        spec_label 3 1 ''emp.msg_version'' (PInt EMP_MESSAGE_VERSION),
        spec_label 4 1 ''emp.flags'' (PInt 0),
        spec_label 5 3 ''emp.body_size'' (PInt (4 + int (length payload))),
        spec_label 8 1 ''emp.var_hdr_size'' (PInt var_hdr_size),
        spec_label 9 2 ''emp.ttl_s'' (PInt ttl_s),
        spec_label 11 2 ''emp.qos'' (PInt EMP_DEFAULT_QOS),
        spec_label 13 (ls + 1) ''emp.src_addr'' (PStr sender),
        spec_label (13 + ls + 1) (ld + 1) ''emp.dst_addr'' (PStr dest)]
       @ map (\<lambda>p. \<lparr>off = payload_off + p_off p, len = p_len p, field = p_field p, value_of = p_value p,
                   synthetic = True, confidence = ''synthetic''\<rparr>) pfs
       @ [spec_label (total - 4) 4 ''emp.crc32'' (PStr ''signed-crc32'')])))"

section \<open>The receiver\<close>

record emp =
  msg_type_of :: int
  flags_of :: int
  ttl_of :: int
  qos_of :: int
  sender_of :: bytes
  dest_of :: bytes
  payload_of :: bytes

definition zero_split :: "bytes \<Rightarrow> bytes \<times> bytes" where
  "zero_split b = (takeWhile (\<lambda>x. x \<noteq> 0) b, drop 1 (dropWhile (\<lambda>x. x \<noteq> 0) b))"

definition decode_emp :: "bytes \<Rightarrow> emp option" where
  "decode_emp b =
     (if length b < 19 \<or> b ! 0 \<noteq> 4 \<or> b ! 3 \<noteq> 1 then None
      else
        let v = unat (b ! 8); n = nat (be_val (slice 5 8 b));
            (s, rest) = zero_split (slice 13 (13 + v) b); (d, end) = zero_split rest
        in if n < 4 \<or> length b \<noteq> 13 + v + n \<or> length s + length d + 2 \<noteq> v then None
           else if be_val (drop (9 + v + n) b) \<noteq> crc32 (take (9 + v + n) b) then None
           else Some \<lparr>msg_type_of = be_val (slice 1 3 b), flags_of = uint (b ! 4), ttl_of = be_val (slice 9 11 b),
                  qos_of = be_val (slice 11 13 b), sender_of = s, dest_of = d,
                  payload_of = slice (13 + v) (9 + v + n) b\<rparr>)"

section \<open>Layout of a message\<close>

lemma crc32_range: "0 \<le> crc32 bs" "crc32 bs < 4294967296"
  using unsigned_less [of "NOT (foldl (\<lambda>r b. (crc32_bit ^^ 8) (r XOR ucast b)) (NOT 0) bs) :: 32 word"]
  by (simp_all add: crc32_def)

text \<open>Packed as a signed number, the checksum has the octets of the unsigned one.\<close>

lemma signed_crc32_pack: "struct_pack ''>i'' [signed_crc32 b] = Inr (be_bytes 4 (crc32 b))"
proof -
  have "be_bytes 4 (crc32 b - 4294967296) = be_bytes 4 (crc32 b)"
    using be_bytes_mod [of 4 "crc32 b - 4294967296"] be_bytes_mod [of 4 "crc32 b"] by simp
  then show ?thesis
    using crc32_range [of b] by (simp add: signed_crc32_def Let_def and_mask_32)
qed

definition emp_head :: "int \<Rightarrow> bytes \<Rightarrow> bytes \<Rightarrow> bytes \<Rightarrow> int \<Rightarrow> int \<Rightarrow> int \<Rightarrow> bytes" where
  "emp_head mt s d payload ttl qos flags =
     [4] @ be_bytes 2 mt @ [1, word_of_int flags] @ be_bytes 3 (4 + int (length payload))
     @ [word_of_int (int (length s) + int (length d) + 2)] @ be_bytes 2 ttl @ be_bytes 2 qos
     @ s @ [0] @ d @ [0] @ payload"

lemma drop_be_bytes: "drop 1 (be_bytes 4 v) = be_bytes 3 v"
  by (simp add: be_bytes_def eval_nat_numeral)

lemma byte_mod: "(word_of_int (v mod 256) :: byte) = word_of_int v"
  using le_bytes_mod [of 1 v] by simp

lemma build_emp_eq:
  "build_emp_message mt s d payload ttl qos flags =
     bnd (encode_ascii s) (\<lambda>s'. bnd (encode_ascii d) (\<lambda>d'.
       if length payload < 4294967292
       then Inr (emp_head mt s' d' payload ttl qos flags @ be_bytes 4 (crc32 (emp_head mt s' d' payload ttl qos flags)))
       else Inl StructError))"
proof -
  have m: "be_bytes 2 (v mod 65536) = be_bytes 2 v" for v using be_bytes_mod [of 2 v] by simp
  show ?thesis
    unfolding build_emp_message_def Let_def signed_crc32_pack
    by (intro bnd_cong refl)
      (simp add: emp_consts and_mask_8 and_mask_16 byte_mod drop_be_bytes [simplified] m emp_head_def algebra_simps)
qed


lemma emp_parts:
  fixes mt ttl qos flags :: int and s d payload crc :: bytes
  defines "b \<equiv> emp_head mt s d payload ttl qos flags @ crc"
  shows "b ! 0 = 4" "b ! 3 = 1" "b ! 4 = word_of_int flags"
    "b ! 8 = word_of_int (int (length s) + int (length d) + 2)"
    "slice 1 3 b = be_bytes 2 mt" "slice 5 8 b = be_bytes 3 (4 + int (length payload))"
    "slice 9 11 b = be_bytes 2 ttl" "slice 11 13 b = be_bytes 2 qos"
    "drop 13 b = s @ [0] @ d @ [0] @ payload @ crc"
    "length b = 15 + length s + length d + length payload + length crc"
  by (simp_all add: b_def emp_head_def slice_def nth_append)

lemma length_emp_head: "length (emp_head mt s d payload ttl qos flags) = 15 + length s + length d + length payload"
  by (simp add: emp_head_def)

lemma zero_split_append: "0 \<notin> set s \<Longrightarrow> zero_split (s @ 0 # rest) = (s, rest)"
  by (induction s) (simp_all add: zero_split_def)

lemma slice_drop: "slice (i + j) k b = slice j (k - i) (drop i b)"
  by (simp add: slice_def add.commute)

lemma decode_emp_built:
  assumes "0 \<notin> set s" "0 \<notin> set d" and p: "length payload < 16777212"
  shows "decode_emp (emp_head mt s d payload ttl qos flags
        @ be_bytes 4 (crc32 (emp_head mt s d payload ttl qos flags))) =
     (if length s + length d + 2 < 256
      then Some \<lparr>msg_type_of = mt mod 65536, flags_of = flags mod 256, ttl_of = ttl mod 65536,
        qos_of = qos mod 65536, sender_of = s, dest_of = d, payload_of = payload\<rparr>
      else None)"
proof -
  let ?h = "emp_head mt s d payload ttl qos flags" and ?v = "length s + length d + 2"
  let ?b = "?h @ be_bytes 4 (crc32 ?h)"
  note parts = emp_parts [of mt s d payload ttl qos flags "be_bytes 4 (crc32 ?h)"]
  have n: "nat (be_val (slice 5 8 ?b)) = 4 + length payload" using p unfolding parts by simp
  have v: "unat (?b ! 8) = ?v mod 256"
  proof -
    have e: "int (length s) + int (length d) + 2 = int ?v" by simp
    have "nat (int ?v mod int 256) = ?v mod 256" by (simp only: zmod_int [symmetric] nat_int)
    then show ?thesis
      unfolding parts by (simp only: unat_eq_nat_uint uint_byte e of_nat_numeral)
  qed
  have len: "length ?b = 17 + ?v + length payload" unfolding parts by simp
  show ?thesis
  proof (cases "?v < 256")
    case False
    then have "?v mod 256 \<noteq> ?v" by (metis mod_less_divisor zero_less_numeral)
    then have "length ?b \<noteq> 13 + unat (?b ! 8) + nat (be_val (slice 5 8 ?b))"
      unfolding n v len by simp
    then show ?thesis using False by (simp add: decode_emp_def Let_def split_beta)
  next
    case True
    then have v': "unat (?b ! 8) = ?v" using v by simp
    have names: "slice 13 (13 + ?v) ?b = s @ 0 # d @ [0]"
      unfolding slice_def parts by simp
    have z: "zero_split (s @ 0 # d @ [0]) = (s, d @ [0])" "zero_split (d @ [0]) = (d, [])"
      using zero_split_append [of s] zero_split_append [of d "[]"] assms by simp_all
    have e: "9 + ?v + (4 + length payload) = length ?h" by (simp add: length_emp_head)
    have crc: "be_val (be_bytes 4 (crc32 ?h)) = crc32 ?h" using crc32_range [of ?h] by simp
    have pay: "slice (13 + ?v) (length ?h) ?b = payload"
      unfolding slice_drop parts by (simp add: slice_def length_emp_head)
    show ?thesis
      unfolding decode_emp_def n v' Let_def names z prod.case e pay
      using True crc parts by (simp add: len uint_byte)
  qed
qed


section \<open>Labels and octets\<close>

text \<open>The octets of a label, and whether a label's value is what its octets say.\<close>

definition span :: "label \<Rightarrow> int \<times> int" where
  "span l = (off l, len l)"

definition label_holds :: "bytes \<Rightarrow> label \<Rightarrow> bool" where
  "label_holds frame l =
     (let octets = slice (nat (off l)) (nat (off l + len l)) frame
      in case value_of l of
           PInt v \<Rightarrow> be_val octets = v
         | PStr s \<Rightarrow> field l \<in> {''emp.src_addr'', ''emp.dst_addr''} \<longrightarrow> octets = utf8 s @ [0]
         | _ \<Rightarrow> True)"

text \<open>The labels of a Class D frame around an EMP message, as the engine puts them together.\<close>

definition shift_label :: "label \<Rightarrow> label" where
  "shift_label l = l\<lparr>off := int CLASS_D_HEADER_LEN + off l\<rparr>"

definition p_span :: "payload_field \<Rightarrow> int \<times> int" where
  "p_span p = (p_off p, p_len p)"

definition p_holds :: "bytes \<Rightarrow> payload_field \<Rightarrow> bool" where
  "p_holds payload p =
     (0 \<le> p_off p \<and> 0 \<le> p_len p \<and> p_off p + p_len p \<le> int (length payload)
      \<and> p_field p \<notin> {''emp.src_addr'', ''emp.dst_addr''}
      \<and> (\<forall>v. p_value p = PInt v \<longrightarrow> be_val (slice (nat (p_off p)) (nat (p_off p + p_len p)) payload) = v))"

lemma utf8_length: "encode_ascii s = Inr b \<Longrightarrow> b = utf8 s \<and> length b = length s"
  by (auto simp: encode_ascii_def utf8_def split: if_splits)

lemma emp_spans:
  assumes "emp_field_map mt s d payload pfs ttl = Inr ls"
    and "encode_ascii s = Inr s'" and "encode_ascii d = Inr d'"
    and "adjacent 0 (map p_span pfs) (int (length payload))" and "pfs \<noteq> []"
  shows "adjacent 0 (map span ls) (19 + int (length s') + int (length d') + int (length payload))"
proof -
  let ?o = "15 + int (length s') + int (length d')"
  have a: "adjacent (0 + ?o) (map (\<lambda>(n, k). (?o + n, k)) (map p_span pfs)) (int (length payload) + ?o)"
    using assms(4) by (simp only: adjacent_shift)
  have q: "map (\<lambda>(n, k). (?o + n, k)) (map p_span pfs)
     = map (\<lambda>p. (13 + (int (length s') + int (length d') + 2) + p_off p, p_len p)) pfs"
    by (simp add: p_span_def)
  have p: "adjacent ?o (map (\<lambda>p. (13 + (int (length s') + int (length d') + 2) + p_off p, p_len p)) pfs)
      (int (length payload) + ?o)"
    using a by (simp only: q add_0)
  show ?thesis
    using assms(1-3,5) adjacent_append [OF p, of "[(?o + int (length payload), 4)]"
        "?o + int (length payload) + 4"]
    by (auto simp: emp_field_map_def Let_def spec_label_def span_def comp_def algebra_simps)
qed

text \<open>The payloads with their labels that the builders make of values in the range of their fields.\<close>

inductive built_payload :: "bytes \<Rightarrow> payload_field list \<Rightarrow> bool" where
  wiu: "build_wiu_status_payload wiu aspect normal occ batt ok epoch = Inr (payload, pfs)
    \<Longrightarrow> 0 \<le> wiu \<Longrightarrow> wiu < 65536 \<Longrightarrow> 0 \<le> aspect \<Longrightarrow> aspect < 256 \<Longrightarrow> 0 \<le> occ \<Longrightarrow> occ < 256
    \<Longrightarrow> 0 \<le> batt \<Longrightarrow> batt < 65536 \<Longrightarrow> 0 \<le> epoch \<Longrightarrow> epoch < 4294967296 \<Longrightarrow> built_payload payload pfs"
| wdc: "build_wdc_control_payload wiu command target v seq = Inr (payload, pfs)
    \<Longrightarrow> 0 \<le> wiu \<Longrightarrow> wiu < 65536 \<Longrightarrow> 0 \<le> command \<Longrightarrow> command < 256 \<Longrightarrow> 0 \<le> target \<Longrightarrow> target < 65536
    \<Longrightarrow> 0 \<le> v \<Longrightarrow> v < 65536 \<Longrightarrow> 0 \<le> seq \<Longrightarrow> seq < 65536 \<Longrightarrow> built_payload payload pfs"
| ack: "build_ack_payload seq status = Inr (payload, pfs)
    \<Longrightarrow> 0 \<le> seq \<Longrightarrow> seq < 65536 \<Longrightarrow> 0 \<le> status \<Longrightarrow> status < 256 \<Longrightarrow> built_payload payload pfs"
| reg: "build_registration_payload wiu role = Inr (payload, pfs)
    \<Longrightarrow> 0 \<le> wiu \<Longrightarrow> wiu < 65536 \<Longrightarrow> 0 \<le> role \<Longrightarrow> role < 256 \<Longrightarrow> built_payload payload pfs"

lemmas payload_defs =
  build_wiu_status_payload_def build_wdc_control_payload_def build_ack_payload_def
  build_registration_payload_def pf_def

lemma built_payload_spans:
  "built_payload payload pfs \<Longrightarrow> pfs \<noteq> [] \<and> adjacent 0 (map p_span pfs) (int (length payload))"
  by (induction rule: built_payload.induct)
    (auto simp: payload_defs res_simps p_span_def split: if_splits)

lemma be_val_byte: "be_val [b] = uint b"
  by (simp add: be_val_def)

lemma built_payload_holds:
  "built_payload payload pfs \<Longrightarrow> p \<in> set pfs \<Longrightarrow> p_holds payload p"
proof (induction rule: built_payload.induct)
  case (wiu w aspect normal occ batt ok epoch payload pfs)
  have "(case map_of SIGNAL_ASPECTS aspect of Some s \<Rightarrow> PStr s | None \<Rightarrow> PInt aspect) = PInt v \<Longrightarrow> v = aspect" for v
    by (auto split: option.splits)
  with wiu show ?case
    by (auto simp: payload_defs res_simps p_holds_def slice_def be_val_byte uint_byte and_mask_mod split: if_splits)
next
  case (wdc w command target v seq payload pfs)
  then show ?case
    by (auto simp: payload_defs res_simps p_holds_def slice_def be_val_byte uint_byte and_mask_mod split: if_splits)
next
  case (ack seq status payload pfs)
  then show ?case
    by (auto simp: payload_defs res_simps p_holds_def slice_def be_val_byte uint_byte and_mask_mod split: if_splits)
next
  case (reg w role payload pfs)
  then show ?case
    by (auto simp: payload_defs res_simps p_holds_def slice_def be_val_byte uint_byte and_mask_mod split: if_splits)
qed

text \<open>Where the octets of a message and of its payload lie in the frame.\<close>

lemma slice_middle:
  "j \<le> length m \<Longrightarrow> slice (length h + i) (length h + j) (h @ m @ t) = slice i j m"
  by (simp add: slice_def)

lemma frame_slice:
  assumes "0 \<le> n" "0 \<le> k" "n + k \<le> int (length emp)"
  shows "slice (nat (12 + n)) (nat (12 + n + k)) (class_d_bytes (c, t, emp)) = slice (nat n) (nat (n + k)) emp"
proof -
  let ?h = "[2, 2] @ be_bytes 4 c @ [word_of_int t, 2] @ be_bytes 4 (int (length emp))"
  have "nat (12 + n) = length ?h + nat n" "nat (12 + n + k) = length ?h + nat (n + k)"
    using assms by simp_all
  moreover have "class_d_bytes (c, t, emp) = ?h @ emp @ [3]" by simp
  ultimately show ?thesis
    using assms by (simp only:) (rule slice_middle, simp)
qed

lemma payload_slice:
  fixes s d payload :: bytes
  assumes "0 \<le> n" "0 \<le> k" "n + k \<le> int (length payload)"
  defines "o1 \<equiv> 13 + (int (length s) + int (length d) + 2)"
  shows "slice (nat (o1 + n)) (nat (o1 + n + k)) (emp_head mt s d payload ttl qos flags @ crc)
    = slice (nat n) (nat (n + k)) payload"
proof -
  let ?h = "[4] @ be_bytes 2 mt @ [1, word_of_int flags] @ be_bytes 3 (4 + int (length payload))
     @ [word_of_int (int (length s) + int (length d) + 2)] @ be_bytes 2 ttl @ be_bytes 2 qos @ s @ [0] @ d @ [0]"
  have "nat (o1 + n) = length ?h + nat n" "nat (o1 + n + k) = length ?h + nat (n + k)"
    using assms by (simp_all add: o1_def nat_add_distrib)
  moreover have "emp_head mt s d payload ttl qos flags @ crc = ?h @ payload @ crc" by (simp add: emp_head_def)
  ultimately show ?thesis
    using assms(1-3) by (simp only:) (rule slice_middle, simp)
qed

lemma name_slices:
  fixes mt :: int and s d payload :: bytes and ttl qos flags :: int and crc :: bytes
  defines "b \<equiv> emp_head mt s d payload ttl qos flags @ crc"
  shows "slice 13 (14 + length s) b = s @ [0]"
    and "slice (14 + length s) (15 + length s + length d) b = d @ [0]"
proof -
  let ?h = "[4] @ be_bytes 2 mt @ [1, word_of_int flags] @ be_bytes 3 (4 + int (length payload))
     @ [word_of_int (int (length s) + int (length d) + 2)] @ be_bytes 2 ttl @ be_bytes 2 qos"
  have b: "b = ?h @ (s @ [0]) @ (d @ [0] @ payload @ crc)" "b = (?h @ s @ [0]) @ (d @ [0]) @ (payload @ crc)"
    by (simp_all add: b_def emp_head_def)
  have h: "length ?h = 13" "length (?h @ s @ [0]) = 14 + length s" by simp_all
  show "slice 13 (14 + length s) b = s @ [0]"
    using slice_middle [of "length s + 1" "s @ [0]" ?h 0] unfolding b(1) h by (simp add: slice_def)
  show "slice (14 + length s) (15 + length s + length d) b = d @ [0]"
    using slice_middle [of "length d + 1" "d @ [0]" "?h @ s @ [0]" 0] unfolding b(2) h by (simp add: slice_def)
qed

lemma emp_label_holds:
  assumes emp: "emp = emp_head mt s' d' payload 120 0 0 @ crc" and "length crc = 4"
    and names: "encode_ascii s = Inr s'" "encode_ascii d = Inr d'" "length s' + length d' + 2 < 256"
    and "0 \<le> mt" "mt < 65536" "length payload < 16777212"
    and ls: "emp_field_map mt s d payload pfs 120 = Inr ls" and l: "l \<in> set ls"
    and p: "built_payload payload pfs"
  shows "label_holds emp l \<and> 0 \<le> off l \<and> 0 \<le> len l \<and> off l + len l \<le> int (length emp)"
proof -
  note parts = emp_parts [of mt s' d' payload 120 0 0 crc, folded emp]
  have nth: "slice n (Suc n) emp = [emp ! n]" if "n < 13" for n
  proof -
    have "n < length emp" using that parts(10) by simp
    then have "drop n emp = emp ! n # drop (Suc n) emp" by (rule Cons_nth_drop_Suc [symmetric])
    then show ?thesis by (simp add: slice_def)
  qed
  have s: "s' = utf8 s" "d' = utf8 d" using utf8_length names by auto
  have pl: "label_holds emp \<lparr>off = 13 + (int (length s') + int (length d') + 2) + p_off q, len = p_len q, field = p_field q,
        value_of = p_value q, synthetic = True, confidence = ''synthetic''\<rparr>
      \<and> 0 \<le> p_off q \<and> 0 \<le> p_len q \<and> p_off q + p_len q \<le> int (length payload)"
    if "q \<in> set pfs" for q
  proof -
    have q: "p_holds payload q" by (rule built_payload_holds [OF p that])
    have eq: "slice (nat (13 + (int (length s') + int (length d') + 2) + p_off q))
        (nat (13 + (int (length s') + int (length d') + 2) + p_off q + p_len q)) emp
      = slice (nat (p_off q)) (nat (p_off q + p_len q)) payload"
      unfolding emp by (rule payload_slice) (use q in \<open>simp_all add: p_holds_def\<close>)
    show ?thesis
      unfolding label_holds_def Let_def label.simps eq using q by (auto simp: p_holds_def split: pyval.splits)
  qed
  have v: "be_val [word_of_int (int (length s') + int (length d') + 2)] = int (length s') + int (length d') + 2"
    unfolding be_val_byte uint_byte using names(3) by simp
  consider (env) "l \<in> {spec_label 0 1 ''emp.version'' (PInt 4), spec_label 1 2 ''emp.msg_type'' (PInt mt),
        spec_label 3 1 ''emp.msg_version'' (PInt 1), spec_label 4 1 ''emp.flags'' (PInt 0),
        spec_label 5 3 ''emp.body_size'' (PInt (4 + int (length payload))),
        spec_label 8 1 ''emp.var_hdr_size'' (PInt (int (length s') + int (length d') + 2)),
        spec_label 9 2 ''emp.ttl_s'' (PInt 120), spec_label 11 2 ''emp.qos'' (PInt 0)}"
    | (src) "l = spec_label 13 (int (length s') + 1) ''emp.src_addr'' (PStr s)"
    | (dst) "l = spec_label (13 + int (length s') + 1) (int (length d') + 1) ''emp.dst_addr'' (PStr d)"
    | (pay) q where "q \<in> set pfs" "l = \<lparr>off = 13 + (int (length s') + int (length d') + 2) + p_off q, len = p_len q,
        field = p_field q, value_of = p_value q, synthetic = True, confidence = ''synthetic''\<rparr>"
    | (crc) "l = spec_label (13 + (int (length s') + int (length d') + 2) + int (length payload)) 4 ''emp.crc32''
        (PStr ''signed-crc32'')"
    using ls l built_payload_spans [OF p] names(1,2)
    by (auto simp: emp_field_map_def Let_def emp_consts)
  then show ?thesis
  proof cases
    case env
    then show ?thesis
      using assms(6-8) parts nth [of 0] nth [of 3] nth [of 4] nth [of 8] v
      by (auto simp: label_holds_def Let_def spec_label_def be_val_byte)
  next
    case src
    then show ?thesis using name_slices(1) [where mt = mt and s = s' and d = d' and payload = payload and ttl = 120 and qos = 0 and flags = 0 and crc = crc, folded emp] parts(10)
      by (simp add: label_holds_def Let_def spec_label_def nat_add_distrib s add.assoc)
  next
    case dst
    then show ?thesis using name_slices(2) [where mt = mt and s = s' and d = d' and payload = payload and ttl = 120 and qos = 0 and flags = 0 and crc = crc, folded emp] parts(10)
      by (simp add: label_holds_def Let_def spec_label_def nat_add_distrib s add.assoc)
  next
    case pay
    then show ?thesis using pl parts(10) \<open>length crc = 4\<close> by fastforce
  next
    case crc
    then show ?thesis using parts(10) \<open>length crc = 4\<close> by (simp add: label_holds_def Let_def spec_label_def)
  qed
qed

section \<open>The properties\<close>

text \<open>
  C32: An EMP message with ASCII addresses free of NUL octets decodes to its type, flags, time to
  live, quality of service, addresses and payload, the numbers modulo the width of their
  fields, with a matching CRC-32, as long as the addresses and their terminators take less than
  256 octets.  The header length is reduced to one octet without a check: for longer addresses
  the builder returns a message that no receiver can take apart.
\<close>

theorem emp_roundtrip:
  assumes "encode_ascii s = Inr s'" and "encode_ascii d = Inr d'" and "0 \<notin> set s'" and "0 \<notin> set d'"
    and "length payload < 16777212"
  shows "\<exists>b. build_emp_message mt s d payload ttl qos flags = Inr b
    \<and> decode_emp b = (if length s' + length d' + 2 < 256
        then Some \<lparr>msg_type_of = mt mod 65536, flags_of = flags mod 256, ttl_of = ttl mod 65536,
          qos_of = qos mod 65536, sender_of = s', dest_of = d', payload_of = payload\<rparr>
        else None)"
  using decode_emp_built [OF assms(3-5)] assms(5) by (simp add: build_emp_eq assms(1,2))

theorem emp_roundtrip_witness:
  "\<exists>b. build_emp_message 7120 ''aar.w.a'' ''aar.b.c'' [1, 2, 3] 120 0 0 = Inr b
    \<and> decode_emp b = Some \<lparr>msg_type_of = 7120, flags_of = 0, ttl_of = 120, qos_of = 0,
        sender_of = utf8 ''aar.w.a'', dest_of = utf8 ''aar.b.c'', payload_of = [1, 2, 3]\<rparr>"
  using emp_roundtrip [of "''aar.w.a''" "utf8 ''aar.w.a''" "''aar.b.c''" "utf8 ''aar.b.c''" "[1, 2, 3]" 7120 120 0 0]
  by (simp add: encode_ascii_def utf8_def)


text \<open>
  C31: The ground-truth labels of an EMP message in a Class D frame cover the frame: every octet is
  under exactly one label, from STX to ETX.
\<close>

theorem labels_cover:
  assumes "build_emp_message mt s d payload 120 0 0 = Inr emp" and "build_class_d emp c CLASS_D_DATA = Inr frame"
    and "emp_field_map mt s d payload pfs 120 = Inr ls" and "built_payload payload pfs"
    and "i < length frame"
  shows "cover (int i) (map span (class_d_field_map c CLASS_D_DATA (length emp) @ map shift_label ls)) = 1"
proof -
  obtain s' d' where n: "encode_ascii s = Inr s'" "encode_ascii d = Inr d'"
    and emp: "length emp = 19 + length s' + length d' + length payload"
    using assms(1) by (auto simp: build_emp_eq res_simps length_emp_head split: if_splits)
  have frame: "length frame = 13 + length emp"
    using assms(2) by (auto simp: build_class_d_eq split: if_splits)
  have e: "adjacent 0 (map span ls) (int (length emp))"
    using emp_spans [OF assms(3) n] built_payload_spans [OF assms(4)] by (simp add: emp)
  have sh: "map span (map shift_label ls) = map (\<lambda>(n, k). (12 + n, k)) (map span ls)"
    by (simp add: shift_label_def span_def class_d_consts)
  have "adjacent (0 + 12) (map (\<lambda>(n, k). (12 + n, k)) (map span ls)) (int (length emp) + 12)"
    using e by (simp only: adjacent_shift)
  then have inner: "adjacent 12 (map span (map shift_label ls)) (int (length emp) + 12)"
    by (simp only: sh add_0)
  let ?head = "[(0, 1), (1, 1), (2, 4), (6, 1), (7, 1), (8, 4)] :: (int \<times> int) list"
  have spans: "map span (class_d_field_map c CLASS_D_DATA (length emp) @ map shift_label ls)
      = ?head @ [(12 + int (length emp), 1)] @ map span (map shift_label ls)"
    by (simp add: class_d_field_map_def spec_label_def span_def class_d_consts)
  have h: "adjacent 0 ?head 12" and t: "adjacent (12 + int (length emp)) [(12 + int (length emp), 1)] (13 + int (length emp))"
    by simp_all
  show ?thesis
    unfolding spans cover_append cover_adjacent [OF h] cover_adjacent [OF t] cover_adjacent [OF inner]
    using assms(5) frame by auto
qed

lemma demo_emp:
  "\<exists>emp frame ls. build_emp_message 7200 ''a'' ''b'' [3, 0, 5, 0] 120 0 0 = Inr emp \<and> length emp = 25
     \<and> build_class_d emp 1 CLASS_D_DATA = Inr frame \<and> length frame = 38
     \<and> emp_field_map 7200 ''a'' ''b'' [3, 0, 5, 0] [pf 0 1 ''ack.subtype'' (PInt 3), pf 1 2 ''ack.ack_seq'' (PInt 5),
         pf 3 1 ''ack.status'' (PInt 0)] 120 = Inr ls"
  by (simp add: build_emp_eq encode_ascii_def utf8_def build_class_d_eq length_emp_head emp_field_map_def Let_def
      cong: bnd_weak_cong del: class_d_bytes.simps)

lemma demo_ack: "built_payload [3, 0, 5, 0] [pf 0 1 ''ack.subtype'' (PInt 3), pf 1 2 ''ack.ack_seq'' (PInt 5),
     pf 3 1 ''ack.status'' (PInt 0)]"
proof (rule built_payload.ack)
  show "build_ack_payload 5 0 = Inr ([3, 0, 5, 0], [pf 0 1 ''ack.subtype'' (PInt 3), pf 1 2 ''ack.ack_seq'' (PInt 5),
     pf 3 1 ''ack.status'' (PInt 0)])"
    by (simp add: build_ack_payload_def pf_def be_bytes_def numeral_2_eq_2)
qed simp_all

theorem labels_cover_witness:
  "\<exists>emp ls. build_emp_message 7200 ''a'' ''b'' [3, 0, 5, 0] 120 0 0 = Inr emp
    \<and> cover 20 (map span (class_d_field_map 1 CLASS_D_DATA (length emp) @ map shift_label ls)) = 1"
proof -
  obtain emp frame ls where "build_emp_message 7200 ''a'' ''b'' [3, 0, 5, 0] 120 0 0 = Inr emp"
    "build_class_d emp 1 CLASS_D_DATA = Inr frame" "length frame = 38"
    "emp_field_map 7200 ''a'' ''b'' [3, 0, 5, 0] [pf 0 1 ''ack.subtype'' (PInt 3), pf 1 2 ''ack.ack_seq'' (PInt 5),
         pf 3 1 ''ack.status'' (PInt 0)] 120 = Inr ls"
    using demo_emp by blast
  with labels_cover [OF _ _ _ demo_ack, of 7200 "''a''" "''b''" emp 1 frame ls 20] show ?thesis by auto
qed



end
