(* ===== verification/EmpEngine.thy ===== *)
theory EmpEngine
  imports Emp
begin

text \<open>
  \<open>backend/app/protocol_engines/emp/engine.py\<close>: the conversation of a wayside node (the TCP
  client) and a back office server: handshake and registration, status reports answered by
  acknowledgements or control commands, and the closing handshake.

  The random draws of a cycle are the fields of \<open>draw\<close>; \<open>epoch\<close> is the time stamp
  \<open>int(base_epoch + cycle_time_ms / 1000.0)\<close>.  The configured addresses are strings and
  \<open>control_every\<close> an integer, as \<open>validate_config\<close> requires.  An event is the segment with its
  ground-truth labels; \<open>wire\<close> is scapy's \<open>bytes(packet)\<close>, and where it raises the sequence ends.
\<close>

section \<open>State\<close>

record emp_conv =
  commid :: int
  tcp_seq_client :: int
  tcp_seq_server :: int
  app_seq :: int
  wiu_id :: int
  signal_aspect :: int
  cycle :: int

record emp_flow =
  source :: device
  destination :: device
  src_addr :: string
  dst_addr :: string
  control_every :: int
  wire :: "layers \<Rightarrow> bytes res"

record draw =
  aspect_step :: int
  switch_normal :: bool
  track_occupancy :: int
  battery_dv :: int
  vital_ok :: bool
  epoch :: int
  command :: int
  target :: int
  command_value :: int

type_synonym labelled = "packet_event \<times> label list"

definition classd_len :: "bytes \<Rightarrow> int" where
  "classd_len emp = int (length emp) + int CLASS_D_OVERHEAD"

definition emp_event ::
    "(layers \<Rightarrow> bytes res) \<Rightarrow> bool \<Rightarrow> device \<Rightarrow> device \<Rightarrow> int \<Rightarrow> int \<Rightarrow> int \<Rightarrow> int \<Rightarrow> string \<Rightarrow> string \<Rightarrow> bytes \<times> payload_field list
     \<Rightarrow> (labelled \<times> bytes) res" where
  "emp_event to_bytes client src dst cid seq ack msg_type sender dest pl =
     bnd (build_emp_message msg_type sender dest (fst pl) EMP_DEFAULT_TTL_S EMP_DEFAULT_QOS 0) (\<lambda>emp.
     bnd (build_class_d emp cid CLASS_D_DATA) (\<lambda>frame.
     let k = ''emp_'' @ (case map_of EMP_MSG_NAMES msg_type of Some s \<Rightarrow> s | None \<Rightarrow> int_str msg_type)
     in bnd (tcp_send to_bytes client src dst frame seq ack ''PA'' (tcp_opts src) k) (\<lambda>ev.
        bnd (emp_field_map msg_type sender dest (fst pl) (snd pl) EMP_DEFAULT_TTL_S) (\<lambda>emp_fields.
        Inr ((ev, class_d_field_map cid CLASS_D_DATA (length emp) @ map shift_label emp_fields), emp)))))"

section \<open>Sequences\<close>

definition emp_handshake :: "emp_flow \<Rightarrow> emp_conv \<Rightarrow> labelled list res" where
  "emp_handshake f st =
     (let c = tcp_seq_client st; s = tcp_seq_server st
      in bnd (tcp_send (wire f) True (source f) (destination f) [] c 0 ''S'' (tcp_opts (source f)) ''tcp_syn'') (\<lambda>syn.
         bnd (tcp_send (wire f) False (destination f) (source f) [] s (c + 1) ''SA'' (tcp_opts (destination f))
                ''tcp_syn_ack'') (\<lambda>syn_ack.
         bnd (tcp_send (wire f) True (source f) (destination f) [] (c + 1) (s + 1) ''A'' None ''tcp_ack'') (\<lambda>last_ack.
         Inr [(syn, []), (syn_ack, []), (last_ack, [])]))))"

definition emp_startup :: "emp_flow \<Rightarrow> emp_conv \<Rightarrow> (labelled list \<times> emp_conv) res" where
  "emp_startup f st =
     (let client_seq = tcp_seq_client st + 1; server_seq = tcp_seq_server st + 1; cid = commid st
      in bnd (emp_handshake f st) (\<lambda>handshake.
         bnd (build_registration_payload (wiu_id st) 1) (\<lambda>reg.
         bnd (emp_event (wire f) True (source f) (destination f) cid client_seq server_seq EMP_MSG_REGISTRATION
                (src_addr f) (dst_addr f) reg) (\<lambda>(e1, emp1).
         let client_seq' = client_seq + classd_len emp1; cid1 = next_commid cid
         in bnd (build_ack_payload (app_seq st) 0) (\<lambda>ack.
            bnd (emp_event (wire f) False (destination f) (source f) cid1 server_seq client_seq' EMP_MSG_ACK
                   (dst_addr f) (src_addr f) ack) (\<lambda>(e2, emp2).
            Inr (handshake @ [e1, e2],
                 st\<lparr>commid := next_commid cid1, tcp_seq_client := client_seq',
                    tcp_seq_server := server_seq + classd_len emp2\<rparr>)))))))"

definition emp_poll :: "emp_flow \<Rightarrow> draw \<Rightarrow> emp_conv \<Rightarrow> (labelled list \<times> emp_conv) res" where
  "emp_poll f d st =
     (let client_seq = tcp_seq_client st; server_seq = tcp_seq_server st; cid = commid st;
          aspect = max 0 (min 3 (signal_aspect st + aspect_step d))
      in bnd (build_wiu_status_payload (wiu_id st) aspect (switch_normal d) (track_occupancy d) (battery_dv d)
                (vital_ok d) (epoch d)) (\<lambda>status.
         bnd (emp_event (wire f) True (source f) (destination f) cid client_seq server_seq EMP_MSG_WIU_STATUS
                (src_addr f) (dst_addr f) status) (\<lambda>(e1, emp1).
         let client_seq' = client_seq + classd_len emp1; cid1 = next_commid cid; cyc = cycle st + 1;
             control = (control_every f \<noteq> 0 \<and> cyc mod control_every f = 0);
             app = (if control then app_seq st + 1 else app_seq st);
             st1 = st\<lparr>signal_aspect := aspect, cycle := cyc, app_seq := app\<rparr>
         in bnd (if control then build_wdc_control_payload (wiu_id st) (command d) (target d) (command_value d)
                                   (app AND 0xFFFF)
                 else build_ack_payload (app AND 0xFFFF) 0) (\<lambda>resp.
            bnd (emp_event (wire f) False (destination f) (source f) cid1 server_seq client_seq'
                   (if control then EMP_MSG_WDC_CONTROL else EMP_MSG_ACK) (dst_addr f) (src_addr f) resp) (\<lambda>(e2, emp2).
            Inr ([e1, e2],
                 st1\<lparr>commid := next_commid cid1, tcp_seq_client := client_seq',
                     tcp_seq_server := server_seq + classd_len emp2\<rparr>))))))"

fun emp_polls :: "emp_flow \<Rightarrow> draw list \<Rightarrow> emp_conv \<Rightarrow> (labelled list \<times> emp_conv) res" where
  "emp_polls f [] st = Inr ([], st)"
| "emp_polls f (d # ds) st =
     bnd (emp_poll f d st) (\<lambda>(evs, st1).
     bnd (emp_polls f ds st1) (\<lambda>(evs', st2). Inr (evs @ evs', st2)))"

definition emp_shutdown :: "emp_flow \<Rightarrow> emp_conv \<Rightarrow> labelled list res" where
  "emp_shutdown f st =
     (let c = tcp_seq_client st; s = tcp_seq_server st
      in bnd (tcp_send (wire f) True (source f) (destination f) [] c s ''FA'' None ''tcp_fin'') (\<lambda>fin.
         bnd (tcp_send (wire f) False (destination f) (source f) [] s (c + 1) ''FA'' None ''tcp_fin_ack'') (\<lambda>fin_ack.
         bnd (tcp_send (wire f) True (source f) (destination f) [] (c + 1) (s + 1) ''A'' None ''tcp_ack'') (\<lambda>last_ack.
         Inr [(fin, []), (fin_ack, []), (last_ack, [])]))))"

section \<open>One exchange\<close>

text \<open>The addresses that the header can carry: ASCII, free of NUL, short enough.\<close>

definition addresses_ok :: "emp_flow \<Rightarrow> bool" where
  "addresses_ok f =
     (list_all (\<lambda>c. (of_char c :: nat) < 128) (src_addr f) \<and> list_all (\<lambda>c. (of_char c :: nat) < 128) (dst_addr f)
      \<and> 0 \<notin> set (utf8 (src_addr f)) \<and> 0 \<notin> set (utf8 (dst_addr f)) \<and> length (src_addr f) + length (dst_addr f) < 254)"

definition carries :: "int \<Rightarrow> string \<Rightarrow> string \<Rightarrow> bytes \<Rightarrow> bool" where
  "carries mt s d emp =
     (case decode_emp emp of
        None \<Rightarrow> False
      | Some m \<Rightarrow> msg_type_of m = mt \<and> sender_of m = utf8 s \<and> dest_of m = utf8 d)"

definition commid_ok :: "int \<Rightarrow> bool" where
  "commid_ok c = (COMMID_MIN \<le> c \<and> c \<le> COMMID_MAX)"

lemma commid_ok_next [simp]: "commid_ok c \<Longrightarrow> commid_ok (next_commid c)"
  by (auto simp: commid_ok_def next_commid_def COMMID_MIN_def COMMID_MAX_def)

lemma emp_event_frame:
  assumes e: "emp_event w client src dst c seq ack mt s d pl = Inr ((ev, ls), emp)"
    and "commid_ok c" "0 \<le> mt" "mt < 65536" "length (fst pl) < 100"
    and n: "0 \<notin> set (utf8 s)" "0 \<notin> set (utf8 d)" "length s + length d < 254"
  shows "class_d_ok (c, 1, emp)"
    and "data_of side (ev # evs) = (if client = side then [(seq, class_d_bytes (c, 1, emp))] else []) @ data_of side evs"
    and "carries mt s d emp" and "classd_len emp = int (length (class_d_bytes (c, 1, emp)))"
proof -
  obtain frame k where b: "build_emp_message mt s d (fst pl) 120 0 0 = Inr emp"
    and f: "build_class_d emp c 1 = Inr frame" and ev: "ev = tcp_event client src dst frame seq ack ''PA'' (tcp_opts src) k"
    using e by (auto simp: emp_event_def Let_def res_simps emp_consts class_d_consts is_ok_iff)
  obtain s' d' where enc: "encode_ascii s = Inr s'" "encode_ascii d = Inr d'"
    using b by (auto simp: build_emp_eq res_simps)
  note u = utf8_length [OF enc(1)] utf8_length [OF enc(2)]
  have frame: "frame = class_d_bytes (c, 1, emp)" and l: "length emp < 4294967296"
    using f by (auto simp: build_class_d_eq split: if_splits)
  show "class_d_ok (c, 1, emp)"
    using l assms(2) by (simp add: commid_ok_def class_d_consts)
  show "data_of side (ev # evs) = (if client = side then [(seq, class_d_bytes (c, 1, emp))] else []) @ data_of side evs"
    by (simp add: ev frame)
  have "decode_emp emp = Some \<lparr>msg_type_of = mt mod 65536, flags_of = 0, ttl_of = 120, qos_of = 0,
      sender_of = s', dest_of = d', payload_of = fst pl\<rparr>"
    using b decode_emp_built [of s' d' "fst pl" mt 120 0 0] u n assms(5)
    by (simp add: build_emp_eq enc split: if_splits)
  then show "carries mt s d emp" using u assms(3,4) by (simp add: carries_def)
  show "classd_len emp = int (length (class_d_bytes (c, 1, emp)))"
    by (simp add: classd_len_def class_d_consts)
qed


text \<open>
  \<open>exchanged f c qc qs evs st\<close>: the events carry one frame of either side, numbered \<open>c\<close> and its
  successor, at the sequence numbers \<open>qc\<close> and \<open>qs\<close>, and lead to \<open>st\<close>.
\<close>

definition exchanged :: "emp_flow \<Rightarrow> int \<Rightarrow> int \<Rightarrow> int \<Rightarrow> labelled list \<Rightarrow> emp_conv \<Rightarrow> bool" where
  "exchanged f c qc qs evs st =
     (\<exists>emp1 emp2 mt1 mt2. class_d_ok (c, 1, emp1) \<and> class_d_ok (next_commid c, 1, emp2)
      \<and> carries mt1 (src_addr f) (dst_addr f) emp1 \<and> carries mt2 (dst_addr f) (src_addr f) emp2
      \<and> data_of True (map fst evs) = [(qc, class_d_bytes (c, 1, emp1))]
      \<and> data_of False (map fst evs) = [(qs, class_d_bytes (next_commid c, 1, emp2))]
      \<and> tcp_seq_client st = qc + int (length (class_d_bytes (c, 1, emp1)))
      \<and> tcp_seq_server st = qs + int (length (class_d_bytes (next_commid c, 1, emp2)))
      \<and> commid st = next_commid (next_commid c))"

lemmas payload_builders =
  build_registration_payload_def build_ack_payload_def build_wiu_status_payload_def build_wdc_control_payload_def

lemma exchanged_events:
  assumes e1: "emp_event w True a b c qc qs mt1 (src_addr f) (dst_addr f) pl1 = Inr ((ev1, ls1), emp1)"
    and e2: "emp_event w False b a (next_commid c) qs (qc + classd_len emp1) mt2 (dst_addr f) (src_addr f) pl2
      = Inr ((ev2, ls2), emp2)"
    and "commid_ok c" "addresses_ok f" "0 \<le> mt1" "mt1 < 65536" "0 \<le> mt2" "mt2 < 65536"
    and "length (fst pl1) < 100" "length (fst pl2) < 100"
    and "data_of True (map fst evs) = []" "data_of False (map fst evs) = []"
    and "tcp_seq_client st = qc + classd_len emp1" "tcp_seq_server st = qs + classd_len emp2"
    and "commid st = next_commid (next_commid c)"
  shows "exchanged f c qc qs (evs @ [(ev1, ls1), (ev2, ls2)]) st"
proof -
  have a: "0 \<notin> set (utf8 (src_addr f))" "0 \<notin> set (utf8 (dst_addr f))"
    "length (src_addr f) + length (dst_addr f) < 254" "length (dst_addr f) + length (src_addr f) < 254"
    using assms(4) by (simp_all add: addresses_ok_def)
  note f1 = emp_event_frame [OF e1 assms(3,5,6,9) a(1-3)]
  note f2 = emp_event_frame [OF e2 commid_ok_next [OF assms(3)] assms(7,8,10) a(2,1,4)]
  show ?thesis
    unfolding exchanged_def
    by (rule exI [of _ emp1], rule exI [of _ emp2], rule exI [of _ mt1], rule exI [of _ mt2])
      (simp add: f1 f2 assms(11-15) del: class_d_bytes.simps class_d_ok.simps)
qed

lemma startup_exchanged:
  assumes "emp_startup f st = Inr (evs, st1)" and "commid_ok (commid st)" and "addresses_ok f"
  shows "exchanged f (commid st) (tcp_seq_client st + 1) (tcp_seq_server st + 1) evs st1"
proof -
  obtain hs reg ack e1 ls1 emp1 e2 ls2 emp2 where
    h: "emp_handshake f st = Inr hs" and r: "build_registration_payload (wiu_id st) 1 = Inr reg" "build_ack_payload (app_seq st) 0 = Inr ack"
    and e: "emp_event (wire f) True (source f) (destination f) (commid st) (tcp_seq_client st + 1) (tcp_seq_server st + 1)
        EMP_MSG_REGISTRATION (src_addr f) (dst_addr f) reg = Inr ((e1, ls1), emp1)"
      "emp_event (wire f) False (destination f) (source f) (next_commid (commid st)) (tcp_seq_server st + 1)
        (tcp_seq_client st + 1 + classd_len emp1) EMP_MSG_ACK (dst_addr f) (src_addr f) ack = Inr ((e2, ls2), emp2)"
    and evs: "evs = hs @ [(e1, ls1), (e2, ls2)]"
    and st1: "st1 = st\<lparr>commid := next_commid (next_commid (commid st)),
        tcp_seq_client := tcp_seq_client st + 1 + classd_len emp1,
        tcp_seq_server := tcp_seq_server st + 1 + classd_len emp2\<rparr>"
    using assms(1) by (auto simp: emp_startup_def Let_def res_simps)
  have "data_of side (map fst hs) = []" for side
    using h by (auto simp: emp_handshake_def Let_def res_simps)
  with r show ?thesis
    unfolding evs
    by (intro exchanged_events [OF e assms(2,3)])
      (auto simp: emp_consts payload_builders res_simps st1 split: if_splits)
qed

lemma payload_small:
  "build_wiu_status_payload w a n o1 b v e = Inr pl \<Longrightarrow> length (fst pl) < 100"
  "(if ctl then build_wdc_control_payload w c t x q else build_ack_payload y z) = Inr pl \<Longrightarrow> length (fst pl) < 100"
  by (auto simp: payload_builders res_simps split: if_splits)

lemma poll_exchanged:
  assumes "emp_poll f d st = Inr (evs, st1)" and "commid_ok (commid st)" and "addresses_ok f"
  shows "exchanged f (commid st) (tcp_seq_client st) (tcp_seq_server st) evs st1"
proof -
  let ?ctl = "control_every f \<noteq> 0 \<and> (cycle st + 1) mod control_every f = 0"
  let ?app = "if ?ctl then app_seq st + 1 else app_seq st"
  let ?aspect = "max 0 (min 3 (signal_aspect st + aspect_step d))"
  obtain pl resp e1 ls1 emp1 e2 ls2 emp2 where
    r: "build_wiu_status_payload (wiu_id st) ?aspect (switch_normal d) (track_occupancy d) (battery_dv d)
        (vital_ok d) (epoch d) = Inr pl"
      "(if ?ctl then build_wdc_control_payload (wiu_id st) (command d) (target d) (command_value d) (?app AND 0xFFFF)
        else build_ack_payload (?app AND 0xFFFF) 0) = Inr resp"
    and e: "emp_event (wire f) True (source f) (destination f) (commid st) (tcp_seq_client st) (tcp_seq_server st)
        EMP_MSG_WIU_STATUS (src_addr f) (dst_addr f) pl = Inr ((e1, ls1), emp1)"
      "emp_event (wire f) False (destination f) (source f) (next_commid (commid st)) (tcp_seq_server st)
        (tcp_seq_client st + classd_len emp1) (if ?ctl then EMP_MSG_WDC_CONTROL else EMP_MSG_ACK)
        (dst_addr f) (src_addr f) resp = Inr ((e2, ls2), emp2)"
    and evs: "evs = [] @ [(e1, ls1), (e2, ls2)]"
    and st1: "tcp_seq_client st1 = tcp_seq_client st + classd_len emp1"
        "tcp_seq_server st1 = tcp_seq_server st + classd_len emp2"
        "commid st1 = next_commid (next_commid (commid st))"
    using assms(1) unfolding emp_poll_def Let_def by (simp only: res_simps split_paired_Ex prod.case) auto
  show ?thesis
    unfolding evs
    by (rule exchanged_events [OF e assms(2,3)])
      (use payload_small(1) [OF r(1)] payload_small(2) [OF r(2)] in \<open>auto simp: emp_consts st1\<close>)
qed

section \<open>Nothing raises\<close>

text \<open>
  Every number is masked to its field, so with such addresses every message can be built; its
  segment has octets as long as the sequence numbers, which are never reduced, fit 32 bits.
\<close>

definition seq_room :: "int \<Rightarrow> emp_conv \<Rightarrow> bool" where
  "seq_room n st \<longleftrightarrow> 0 \<le> tcp_seq_client st \<and> tcp_seq_client st + n < 2 ^ 32
     \<and> 0 \<le> tcp_seq_server st \<and> tcp_seq_server st + n < 2 ^ 32"

definition flow_ready :: "emp_flow \<Rightarrow> bool" where
  "flow_ready f \<longleftrightarrow> addresses_ok f \<and> link_ok (wire f) (source f) (destination f)"

lemma emp_event_total:
  assumes "list_all (\<lambda>c. (of_char c :: nat) < 128) s" "list_all (\<lambda>c. (of_char c :: nat) < 128) d"
    and "length s + length d < 254" "length (fst pl) < 100"
    and "link_ok w src dst" "fits 32 seq" "fits 32 ack"
  shows "\<exists>ev ls emp. emp_event w client src dst c seq ack mt s d pl = Inr ((ev, ls), emp)
    \<and> 0 \<le> classd_len emp \<and> classd_len emp \<le> 400"
proof -
  have enc: "encode_ascii s = Inr (utf8 s)" "encode_ascii d = Inr (utf8 d)"
    using assms(1,2) by (simp_all add: encode_ascii_def utf8_def)
  obtain emp where b: "build_emp_message mt s d (fst pl) EMP_DEFAULT_TTL_S EMP_DEFAULT_QOS 0 = Inr emp"
    and l: "length emp = 19 + length s + length d + length (fst pl)"
    using assms(4) utf8_length [OF enc(1)] utf8_length [OF enc(2)]
    by (simp add: build_emp_eq enc emp_consts length_emp_head)
  have len: "length emp < 400 - 13" using l assms(3,4) by simp
  obtain frame where c: "build_class_d emp c CLASS_D_DATA = Inr frame" and "length frame = 13 + length emp"
    using len by (simp add: build_class_d_eq class_d_consts)
  then have "length frame \<le> 65455" using len by simp
  then have t: "tcp_send w client src dst frame seq ack ''PA'' (tcp_opts src) k
      = Inr (tcp_event client src dst frame seq ack ''PA'' (tcp_opts src) k)" for k
    using assms(5-7) by (intro tcp_send_total) simp_all
  obtain ls where m: "emp_field_map mt s d (fst pl) (snd pl) EMP_DEFAULT_TTL_S = Inr ls"
    using enc by (simp add: emp_field_map_def Let_def)
  have "emp_event w client src dst c seq ack mt s d pl = Inr ((tcp_event client src dst frame seq ack ''PA'' (tcp_opts src)
      (''emp_'' @ (case map_of EMP_MSG_NAMES mt of Some s \<Rightarrow> s | None \<Rightarrow> int_str mt)),
      class_d_field_map c CLASS_D_DATA (length emp) @ map shift_label ls), emp)"
    unfolding emp_event_def b bnd.simps c t m Let_def ..
  moreover have "0 \<le> classd_len emp" "classd_len emp \<le> 400"
    using len by (simp_all add: classd_len_def class_d_consts)
  ultimately show ?thesis by blast
qed

lemma masked [simp]:
  "0 \<le> (v :: int) AND 255" "(v :: int) AND 255 < 256" "0 \<le> v AND 65535" "v AND 65535 < 65536"
  "0 \<le> v AND 4294967295" "v AND 4294967295 < 4294967296"
  by (simp_all add: and_mask_mod)

lemma payload_total:
  "\<exists>pl. build_registration_payload w r = Inr pl \<and> length (fst pl) < 100"
  "\<exists>pl. build_ack_payload q r = Inr pl \<and> length (fst pl) < 100"
  "\<exists>pl. build_wiu_status_payload w a n oc b v e = Inr pl \<and> length (fst pl) < 100"
  "\<exists>pl. (if ctl then build_wdc_control_payload w c t x q else build_ack_payload y r) = Inr pl \<and> length (fst pl) < 100"
  by (cases ctl; simp add: payload_builders)+

lemma handshake_total:
  assumes "flow_ready f" and "seq_room 2 st"
  shows "\<exists>hs. emp_handshake f st = Inr hs" "\<exists>evs. emp_shutdown f st = Inr evs"
proof -
  have "link_ok (wire f) (source f) (destination f)" "link_ok (wire f) (destination f) (source f)"
    using assms(1) link_ok_sym unfolding flow_ready_def by blast+
  moreover have "fits 32 0" "fits 32 (tcp_seq_client st)" "fits 32 (tcp_seq_server st)"
    "fits 32 (tcp_seq_client st + 1)" "fits 32 (tcp_seq_server st + 1)"
    using assms(2) by (auto simp: seq_room_def fits_def)
  ultimately show "\<exists>hs. emp_handshake f st = Inr hs" "\<exists>evs. emp_shutdown f st = Inr evs"
    by (simp_all add: emp_handshake_def emp_shutdown_def Let_def tcp_send_total)
qed

text \<open>Two messages, one of either side.\<close>

lemma exchange_total:
  assumes "flow_ready f" and "length (fst p1) < 100" "length (fst p2) < 100"
    and "0 \<le> qc" "qc + 400 < 2 ^ 32" "0 \<le> qs" "qs + 400 < 2 ^ 32"
  obtains e1 ls1 emp1 e2 ls2 emp2 where
    "emp_event (wire f) True (source f) (destination f) c1 qc qs m1 (src_addr f) (dst_addr f) p1 = Inr ((e1, ls1), emp1)"
    "emp_event (wire f) False (destination f) (source f) c2 qs (qc + classd_len emp1) m2 (dst_addr f) (src_addr f) p2
       = Inr ((e2, ls2), emp2)"
    "0 \<le> classd_len emp1" "classd_len emp1 \<le> 400" "0 \<le> classd_len emp2" "classd_len emp2 \<le> 400"
proof -
  have a: "list_all (\<lambda>c. (of_char c :: nat) < 128) (src_addr f)" "list_all (\<lambda>c. (of_char c :: nat) < 128) (dst_addr f)"
    "length (src_addr f) + length (dst_addr f) < 254" "length (dst_addr f) + length (src_addr f) < 254"
    and l: "link_ok (wire f) (source f) (destination f)" "link_ok (wire f) (destination f) (source f)"
    using assms(1) link_ok_sym by (auto simp: flow_ready_def addresses_ok_def)
  have q: "fits 32 qc" "fits 32 qs" using assms(4-7) by (simp_all add: fits_def)
  obtain e1 ls1 emp1 where e1: "emp_event (wire f) True (source f) (destination f) c1 qc qs m1 (src_addr f) (dst_addr f) p1
      = Inr ((e1, ls1), emp1)" "0 \<le> classd_len emp1" "classd_len emp1 \<le> 400"
    using emp_event_total [OF a(1-3) assms(2) l(1) q] by blast
  have "fits 32 (qc + classd_len emp1)" using assms(4,5) e1(2,3) by (simp add: fits_def)
  with emp_event_total [OF a(2,1,4) assms(3) l(2) q(2)] obtain e2 ls2 emp2 where
    "emp_event (wire f) False (destination f) (source f) c2 qs (qc + classd_len emp1) m2 (dst_addr f) (src_addr f) p2
       = Inr ((e2, ls2), emp2)" "0 \<le> classd_len emp2" "classd_len emp2 \<le> 400"
    by blast
  with e1 that show ?thesis by blast
qed

lemma startup_total:
  assumes "flow_ready f" and "0 \<le> n" "seq_room (n + 401) st"
  shows "\<exists>evs st1. emp_startup f st = Inr (evs, st1) \<and> seq_room n st1"
proof -
  have "seq_room 2 st" using assms(2,3) by (simp add: seq_room_def)
  then obtain hs where h: "emp_handshake f st = Inr hs" using handshake_total(1) [OF assms(1)] by blast
  obtain reg where r: "build_registration_payload (wiu_id st) 1 = Inr reg" "length (fst reg) < 100"
    using payload_total(1) by blast
  obtain ack where k: "build_ack_payload (app_seq st) 0 = Inr ack" "length (fst ack) < 100"
    using payload_total(2) by blast
  have room: "0 \<le> tcp_seq_client st + 1" "tcp_seq_client st + 1 + 400 < 2 ^ 32"
    "0 \<le> tcp_seq_server st + 1" "tcp_seq_server st + 1 + 400 < 2 ^ 32"
    using assms(2,3) by (simp_all add: seq_room_def)
  obtain e1 ls1 emp1 e2 ls2 emp2 where e: "emp_event (wire f) True (source f) (destination f) (commid st)
      (tcp_seq_client st + 1) (tcp_seq_server st + 1) EMP_MSG_REGISTRATION (src_addr f) (dst_addr f) reg = Inr ((e1, ls1), emp1)"
    "emp_event (wire f) False (destination f) (source f) (next_commid (commid st)) (tcp_seq_server st + 1)
      (tcp_seq_client st + 1 + classd_len emp1) EMP_MSG_ACK (dst_addr f) (src_addr f) ack = Inr ((e2, ls2), emp2)"
    and l: "0 \<le> classd_len emp1" "classd_len emp1 \<le> 400" "0 \<le> classd_len emp2" "classd_len emp2 \<le> 400"
    by (rule exchange_total [OF assms(1) r(2) k(2) room])
  let ?st1 = "st\<lparr>commid := next_commid (next_commid (commid st)), tcp_seq_client := tcp_seq_client st + 1 + classd_len emp1,
    tcp_seq_server := tcp_seq_server st + 1 + classd_len emp2\<rparr>"
  have "emp_startup f st = Inr (hs @ [(e1, ls1), (e2, ls2)], ?st1)"
    unfolding emp_startup_def Let_def h bnd.simps r(1) e(1) prod.case k(1) e(2) ..
  moreover have "seq_room n ?st1" using assms(2,3) l by (simp add: seq_room_def)
  ultimately show ?thesis by blast
qed

lemma poll_total:
  assumes "flow_ready f" and "0 \<le> n" "seq_room (n + 400) st"
  shows "\<exists>evs st1. emp_poll f d st = Inr (evs, st1) \<and> seq_room n st1"
proof -
  let ?ctl = "control_every f \<noteq> 0 \<and> (cycle st + 1) mod control_every f = 0"
  let ?app = "if ?ctl then app_seq st + 1 else app_seq st"
  let ?aspect = "max 0 (min 3 (signal_aspect st + aspect_step d))"
  obtain pl where p: "build_wiu_status_payload (wiu_id st) ?aspect (switch_normal d) (track_occupancy d) (battery_dv d)
        (vital_ok d) (epoch d) = Inr pl" "length (fst pl) < 100"
    using payload_total(3) by blast
  obtain resp where q: "(if ?ctl then build_wdc_control_payload (wiu_id st) (command d) (target d) (command_value d) (?app AND 0xFFFF)
        else build_ack_payload (?app AND 0xFFFF) 0) = Inr resp" "length (fst resp) < 100"
    using payload_total(4) [of ?ctl] by blast
  have room: "0 \<le> tcp_seq_client st" "tcp_seq_client st + 400 < 2 ^ 32" "0 \<le> tcp_seq_server st" "tcp_seq_server st + 400 < 2 ^ 32"
    using assms(2,3) by (simp_all add: seq_room_def)
  obtain e1 ls1 emp1 e2 ls2 emp2 where e: "emp_event (wire f) True (source f) (destination f) (commid st) (tcp_seq_client st)
      (tcp_seq_server st) EMP_MSG_WIU_STATUS (src_addr f) (dst_addr f) pl = Inr ((e1, ls1), emp1)"
    "emp_event (wire f) False (destination f) (source f) (next_commid (commid st)) (tcp_seq_server st)
      (tcp_seq_client st + classd_len emp1) (if ?ctl then EMP_MSG_WDC_CONTROL else EMP_MSG_ACK)
      (dst_addr f) (src_addr f) resp = Inr ((e2, ls2), emp2)"
    and l: "0 \<le> classd_len emp1" "classd_len emp1 \<le> 400" "0 \<le> classd_len emp2" "classd_len emp2 \<le> 400"
    by (rule exchange_total [OF assms(1) p(2) q(2) room])
  let ?st1 = "st\<lparr>signal_aspect := ?aspect, cycle := cycle st + 1, app_seq := ?app,
    commid := next_commid (next_commid (commid st)), tcp_seq_client := tcp_seq_client st + classd_len emp1,
    tcp_seq_server := tcp_seq_server st + classd_len emp2\<rparr>"
  have "emp_poll f d st = Inr ([(e1, ls1), (e2, ls2)], ?st1)"
    unfolding emp_poll_def Let_def p(1) bnd.simps e(1) prod.case q(1) e(2) by simp
  moreover have "seq_room n ?st1" using assms(2,3) l by (simp add: seq_room_def)
  ultimately show ?thesis by blast
qed

lemma polls_total:
  assumes "flow_ready f"
  shows "0 \<le> n \<Longrightarrow> seq_room (n + 400 * int (length ds)) st \<Longrightarrow>
    \<exists>evs st1. emp_polls f ds st = Inr (evs, st1) \<and> seq_room n st1"
proof (induction ds arbitrary: st)
  case (Cons d ds)
  have "seq_room (n + 400 * int (length ds) + 400) st" using Cons.prems(2) by (simp add: algebra_simps)
  with poll_total [OF assms, of "n + 400 * int (length ds)" st d] Cons.prems(1) obtain e st1 where
    "emp_poll f d st = Inr (e, st1)" "seq_room (n + 400 * int (length ds)) st1" by auto
  with Cons.IH [OF Cons.prems(1), of st1] show ?case by auto
qed simp

section \<open>The properties\<close>

text \<open>The numbers of the frames of \<open>n\<close> exchanges.\<close>

fun exchange_ids :: "int \<Rightarrow> nat \<Rightarrow> (int \<times> int) list" where
  "exchange_ids c 0 = []"
| "exchange_ids c (Suc n) = (c, next_commid c) # exchange_ids (next_commid (next_commid c)) n"

text \<open>Data frames between two addresses.\<close>

definition frames_between :: "string \<Rightarrow> string \<Rightarrow> (int \<times> int \<times> bytes) list \<Rightarrow> bool" where
  "frames_between s d fs = (\<forall>x \<in> set fs. class_d_ok x \<and> fst (snd x) = 1 \<and> (\<exists>mt. carries mt s d (snd (snd x))))"

lemma frames_between_simps [simp]:
  "frames_between s d []"
  "frames_between s d ((c, t, b) # fs) \<longleftrightarrow>
     class_d_ok (c, t, b) \<and> t = 1 \<and> (\<exists>mt. carries mt s d b) \<and> frames_between s d fs"
  by (auto simp: frames_between_def)

lemma polls_frames:
  assumes "emp_polls f ds st = Inr (evs, st')" and "commid_ok (commid st)" and "addresses_ok f"
  obtains cf sf where "length cf = length ds" and "length sf = length ds"
    and "data_of True (map fst evs) = segments class_d_bytes (tcp_seq_client st) cf"
    and "data_of False (map fst evs) = segments class_d_bytes (tcp_seq_server st) sf"
    and "frames_between (src_addr f) (dst_addr f) cf" and "frames_between (dst_addr f) (src_addr f) sf"
    and "zip (map fst cf) (map fst sf) = exchange_ids (commid st) (length ds)"
    and "tcp_seq_client st' = tcp_seq_client st + stream_length class_d_bytes cf"
    and "tcp_seq_server st' = tcp_seq_server st + stream_length class_d_bytes sf"
  using assms(1,2)
proof (induction ds arbitrary: st evs thesis)
  case Nil
  then show ?case by simp
next
  case (Cons d ds)
  obtain e1 st1 e2 where p: "emp_poll f d st = Inr (e1, st1)" and r: "emp_polls f ds st1 = Inr (e2, st')"
    and evs: "evs = e1 @ e2"
    using Cons.prems(2) by (auto simp: res_simps)
  obtain emp1 emp2 mt1 mt2 where x: "class_d_ok (commid st, 1, emp1)" "class_d_ok (next_commid (commid st), 1, emp2)"
    "carries mt1 (src_addr f) (dst_addr f) emp1" "carries mt2 (dst_addr f) (src_addr f) emp2"
    "data_of True (map fst e1) = [(tcp_seq_client st, class_d_bytes (commid st, 1, emp1))]"
    "data_of False (map fst e1) = [(tcp_seq_server st, class_d_bytes (next_commid (commid st), 1, emp2))]"
    "tcp_seq_client st1 = tcp_seq_client st + int (length (class_d_bytes (commid st, 1, emp1)))"
    "tcp_seq_server st1 = tcp_seq_server st + int (length (class_d_bytes (next_commid (commid st), 1, emp2)))"
    "commid st1 = next_commid (next_commid (commid st))"
    using poll_exchanged [OF p Cons.prems(3) assms(3)] unfolding exchanged_def by blast
  show ?case
  proof (rule Cons.IH [OF _ r])
    show "commid_ok (commid st1)" using Cons.prems(3) x(9) by simp
  next
    fix cf sf
    assume "length cf = length ds" "length sf = length ds"
      "data_of True (map fst e2) = segments class_d_bytes (tcp_seq_client st1) cf"
      "data_of False (map fst e2) = segments class_d_bytes (tcp_seq_server st1) sf"
      "frames_between (src_addr f) (dst_addr f) cf" "frames_between (dst_addr f) (src_addr f) sf"
      "zip (map fst cf) (map fst sf) = exchange_ids (commid st1) (length ds)"
      "tcp_seq_client st' = tcp_seq_client st1 + stream_length class_d_bytes cf"
      "tcp_seq_server st' = tcp_seq_server st1 + stream_length class_d_bytes sf"
    then show ?thesis
      using Cons.prems(1) [of "(commid st, 1, emp1) # cf" "(next_commid (commid st), 1, emp2) # sf"] x
      by (auto simp: evs simp del: class_d_bytes.simps class_d_ok.simps)
  qed
qed

lemma conversation_frames:
  assumes "emp_startup f st = Inr (e1, st1)" and "emp_polls f ds st1 = Inr (e2, st2)"
    and "commid_ok (commid st)" and "addresses_ok f"
  shows "\<exists>cf sf cb sb.
      receive (tcp_seq_client st + 1) [] (data_of True (map fst (e1 @ e2))) = (tcp_seq_client st2, cb)
    \<and> receive (tcp_seq_server st + 1) [] (data_of False (map fst (e1 @ e2))) = (tcp_seq_server st2, sb)
    \<and> parse_frames take_class_d (Suc (length ds)) cb = (cf, []) \<and> length cf = Suc (length ds)
    \<and> parse_frames take_class_d (Suc (length ds)) sb = (sf, []) \<and> length sf = Suc (length ds)
    \<and> frames_between (src_addr f) (dst_addr f) cf \<and> frames_between (dst_addr f) (src_addr f) sf
    \<and> zip (map fst cf) (map fst sf) = exchange_ids (commid st) (Suc (length ds))
    \<and> (\<forall>(c, d) \<in> set (exchange_ids (commid st) (Suc (length ds))). c \<noteq> 0 \<and> d \<noteq> 0)"
proof -
  obtain emp1 emp2 mt1 mt2 where x: "class_d_ok (commid st, 1, emp1)" "class_d_ok (next_commid (commid st), 1, emp2)"
    "carries mt1 (src_addr f) (dst_addr f) emp1" "carries mt2 (dst_addr f) (src_addr f) emp2"
    "data_of True (map fst e1) = [(tcp_seq_client st + 1, class_d_bytes (commid st, 1, emp1))]"
    "data_of False (map fst e1) = [(tcp_seq_server st + 1, class_d_bytes (next_commid (commid st), 1, emp2))]"
    "tcp_seq_client st1 = tcp_seq_client st + 1 + int (length (class_d_bytes (commid st, 1, emp1)))"
    "tcp_seq_server st1 = tcp_seq_server st + 1 + int (length (class_d_bytes (next_commid (commid st), 1, emp2)))"
    "commid st1 = next_commid (next_commid (commid st))"
    using startup_exchanged [OF assms(1,3,4)] unfolding exchanged_def by blast
  have ok1: "commid_ok (commid st1)" using assms(3) x(9) by simp
  obtain cf sf where p: "length cf = length ds" "length sf = length ds"
    "data_of True (map fst e2) = segments class_d_bytes (tcp_seq_client st1) cf"
    "data_of False (map fst e2) = segments class_d_bytes (tcp_seq_server st1) sf"
    "frames_between (src_addr f) (dst_addr f) cf" "frames_between (dst_addr f) (src_addr f) sf"
    "zip (map fst cf) (map fst sf) = exchange_ids (commid st1) (length ds)"
    "tcp_seq_client st2 = tcp_seq_client st1 + stream_length class_d_bytes cf"
    "tcp_seq_server st2 = tcp_seq_server st1 + stream_length class_d_bytes sf"
    by (rule polls_frames [OF assms(2) ok1 assms(4)])
  let ?cf = "(commid st, 1, emp1) # cf" and ?sf = "(next_commid (commid st), 1, emp2) # sf"
  have d: "data_of True (map fst (e1 @ e2)) = segments class_d_bytes (tcp_seq_client st + 1) ?cf"
    "data_of False (map fst (e1 @ e2)) = segments class_d_bytes (tcp_seq_server st + 1) ?sf"
    using x p by (simp_all del: class_d_bytes.simps)
  have fb: "frames_between (src_addr f) (dst_addr f) ?cf" "frames_between (dst_addr f) (src_addr f) ?sf"
    using x p by (auto simp del: class_d_ok.simps)
  then have ok: "\<forall>y \<in> set ?cf. class_d_ok y" "\<forall>y \<in> set ?sf. class_d_ok y"
    unfolding frames_between_def by blast+
  have nz: "commid_ok c \<Longrightarrow> \<forall>(a, b) \<in> set (exchange_ids c n). a \<noteq> 0 \<and> b \<noteq> 0" for c n
  proof (induction n arbitrary: c)
    case (Suc n)
    then have "c \<noteq> 0 \<and> next_commid c \<noteq> 0"
      using commid_ok_next [OF Suc.prems] by (auto simp: commid_ok_def COMMID_MIN_def)
    with Suc.IH [of "next_commid (next_commid c)"] Suc.prems show ?case by simp
  qed simp
  show ?thesis
    by (rule exI [of _ ?cf], rule exI [of _ ?sf],
        rule exI [of _ "snd (receive (tcp_seq_client st + 1) [] (data_of True (map fst (e1 @ e2))))"],
        rule exI [of _ "snd (receive (tcp_seq_server st + 1) [] (data_of False (map fst (e1 @ e2))))"])
      (use classd.delivered [OF d(1) ok(1)] classd.delivered [OF d(2) ok(2)] x(7,8,9) p fb
          nz [OF assms(3), of "Suc (length ds)"] in
        \<open>simp add: prod_eq_iff del: class_d_bytes.simps class_d_ok.simps parse_frames.simps length_class_d map_append\<close>)
qed

text \<open>
  C7: A conversation of a wayside node with the back office runs to its end, whatever is drawn,
  and delivers. The addresses are ASCII, free of NUL and fit the header; scapy serialises what fits
  its fields; and the sequence numbers, which the engine never reduces, stay below \<open>2 ^ 32\<close>: a
  poll adds at most 400 to either, so from the initial numbers of at most 900000 there is room for
  ten million polls. Following the sequence numbers from the handshake on, either side collects one
  Class D data frame for the registration and one for each cycle, every frame carries an EMP
  message with the addresses of the flow in the right order, and the communication ids of both
  sides together count up from the first one without ever being 0.
\<close>

theorem emp_conversation:
  assumes "commid_ok (commid st)" and "addresses_ok f"
    and "link_ok (wire f) (source f) (destination f)"
    and "0 \<le> tcp_seq_client st" "tcp_seq_client st + 403 + 400 * int (length ds) < 2 ^ 32"
    and "0 \<le> tcp_seq_server st" "tcp_seq_server st + 403 + 400 * int (length ds) < 2 ^ 32"
  shows "\<exists>e1 st1 e2 st2 e3 cf sf cb sb.
      emp_startup f st = Inr (e1, st1) \<and> emp_polls f ds st1 = Inr (e2, st2) \<and> emp_shutdown f st2 = Inr e3
    \<and> receive (tcp_seq_client st + 1) [] (data_of True (map fst (e1 @ e2))) = (tcp_seq_client st2, cb)
    \<and> receive (tcp_seq_server st + 1) [] (data_of False (map fst (e1 @ e2))) = (tcp_seq_server st2, sb)
    \<and> parse_frames take_class_d (Suc (length ds)) cb = (cf, []) \<and> length cf = Suc (length ds)
    \<and> parse_frames take_class_d (Suc (length ds)) sb = (sf, []) \<and> length sf = Suc (length ds)
    \<and> frames_between (src_addr f) (dst_addr f) cf \<and> frames_between (dst_addr f) (src_addr f) sf
    \<and> zip (map fst cf) (map fst sf) = exchange_ids (commid st) (Suc (length ds))
    \<and> (\<forall>(c, d) \<in> set (exchange_ids (commid st) (Suc (length ds))). c \<noteq> 0 \<and> d \<noteq> 0)"
proof -
  have f: "flow_ready f" using assms(2,3) by (simp add: flow_ready_def)
  have "seq_room (2 + 400 * int (length ds) + 401) st" using assms(4-7) by (simp add: seq_room_def algebra_simps)
  then obtain e1 st1 where s: "emp_startup f st = Inr (e1, st1)" and r: "seq_room (2 + 400 * int (length ds)) st1"
    using startup_total [OF f, of "2 + 400 * int (length ds)" st] by auto
  obtain e2 st2 where p: "emp_polls f ds st1 = Inr (e2, st2)" and r2: "seq_room 2 st2"
    using polls_total [OF f _ r] by auto
  obtain e3 where d: "emp_shutdown f st2 = Inr e3" using handshake_total(2) [OF f r2] by blast
  show ?thesis
    by (rule exI [of _ e1], rule exI [of _ st1], rule exI [of _ e2], rule exI [of _ st2], rule exI [of _ e3])
      (use conversation_frames [OF s p assms(1,2)] in \<open>simp only: s p d simp_thms\<close>)
qed

definition demo_emp_flow :: emp_flow where
  "demo_emp_flow = \<lparr>source = demo_dev ''10.0.0.1'', destination = demo_dev ''10.0.0.2'', src_addr = ''aar.w.a'',
     dst_addr = ''aar.b.c'', control_every = 5, wire = demo_scapy\<rparr>"

definition demo_emp_conv :: emp_conv where
  "demo_emp_conv = \<lparr>commid = 4294967295, tcp_seq_client = 7, tcp_seq_server = 9, app_seq = 0, wiu_id = 1,
     signal_aspect = 0, cycle = 4\<rparr>"

definition demo_draw :: draw where
  "demo_draw = \<lparr>aspect_step = 1, switch_normal = True, track_occupancy = 3, battery_dv = 1200, vital_ok = True,
     epoch = 5, command = 1, target = 2, command_value = 3\<rparr>"

theorem emp_conversation_witness:
  "\<exists>e1 st1 e2 st2 cf (sf :: (int \<times> int \<times> bytes) list) cb.
      emp_startup demo_emp_flow demo_emp_conv = Inr (e1, st1) \<and> emp_polls demo_emp_flow [demo_draw] st1 = Inr (e2, st2)
    \<and> parse_frames take_class_d 2 cb = (cf, []) \<and> zip (map fst cf) (map fst sf) = [(4294967295, 1), (2, 3)]"
proof -
  have c: "commid_ok (commid demo_emp_conv)" "addresses_ok demo_emp_flow"
    "link_ok (wire demo_emp_flow) (source demo_emp_flow) (destination demo_emp_flow)"
    by (simp_all add: commid_ok_def class_d_consts addresses_ok_def utf8_def link_ok_def device_fits_def fits_def demo_dev_def
        demo_fp_def demo_emp_conv_def demo_emp_flow_def)
  have b: "0 \<le> tcp_seq_client demo_emp_conv" "tcp_seq_client demo_emp_conv + 403 + 400 * int (length [demo_draw]) < 2 ^ 32"
    "0 \<le> tcp_seq_server demo_emp_conv" "tcp_seq_server demo_emp_conv + 403 + 400 * int (length [demo_draw]) < 2 ^ 32"
    by (simp_all add: demo_emp_conv_def)
  from emp_conversation [OF c b] obtain e1 st1 e2 st2 cf cb and sf :: "(int \<times> int \<times> bytes) list" where r:
    "emp_startup demo_emp_flow demo_emp_conv = Inr (e1, st1)" "emp_polls demo_emp_flow [demo_draw] st1 = Inr (e2, st2)"
    "parse_frames take_class_d (Suc (length [demo_draw])) cb = (cf, [])"
    "zip (map fst cf) (map fst sf) = exchange_ids (commid demo_emp_conv) (Suc (length [demo_draw]))"
    by (elim exE conjE) (rule that)
  have i: "exchange_ids (commid demo_emp_conv) (Suc (length [demo_draw])) = [(4294967295, 1), (2, 3)]"
    and n: "Suc (length [demo_draw]) = 2"
    by (simp_all add: next_commid_def class_d_consts demo_emp_conv_def)
  show ?thesis
    using r(1,2) r(3) [unfolded n] r(4) [unfolded i] by (intro exI conjI)
qed

end
