(* ===== verification/Topology.thy ===== *)
theory Topology
  imports RawHeader "HOL-Library.Char_ord" "HOL-Library.List_Lexorder"
begin

text \<open>
  \<open>backend/app/protocol_engines/topology_router.py\<close>: the copies of a frame for the SPAN ports
  along its path, each with other MAC addresses, VLAN tag and TTL.

  What scapy's dissectors report of a frame is the parameter \<open>dissector\<close>: the source address of
  the IPv4 packet behind the Ethernet header and its tags, and the ARP, IPv4 and MAC addresses
  of the frame; \<open>None\<close> stands for an exception or a missing attribute.
\<close>

section \<open>The plan\<close>

record seg =
  span_of :: string
  ttl_delta :: int
  seg_dst_mac :: string
  seg_src_mac :: string
  vlan :: "int option"

record flow_plan =
  source_ip :: string
  segments_forward :: "seg list"
  segments_reverse :: "seg list"

record router =
  flow_plans :: "(string \<times> flow_plan) list"
  ip_to_zone :: "(string \<times> string) list"
  mac_to_zone :: "(string \<times> string) list"
  unplanned_logged :: "string list"

record frame_view =
  arp_ips :: "(string option \<times> string option) option"
  ip_addrs :: "(string \<times> string) option"
  eth_macs :: "string option \<times> string option"

record dissector =
  l3_src :: "bytes \<Rightarrow> string option"
  eth_view :: "bytes \<Rightarrow> frame_view option"

section \<open>Rewriting one frame\<close>

definition ETH_P_IP :: int where "ETH_P_IP = 0x0800"
definition ETH_P_8021Q :: int where "ETH_P_8021Q = 0x8100"

text \<open>\<open>int(x, 16)\<close>\<close>

fun hex_digits_ok :: "string \<Rightarrow> bool" where
  "hex_digits_ok [] = False"
| "hex_digits_ok [c] = (hex_digit c \<noteq> None)"
| "hex_digits_ok (c # d # s) =
     (hex_digit c \<noteq> None \<and> (if d = CHR ''_'' then hex_digits_ok s else hex_digits_ok (d # s)))"

definition hex_prefix :: "string \<Rightarrow> string" where
  "hex_prefix s =
     (case s of
        z # x # r \<Rightarrow>
          if z = CHR ''0'' \<and> (x = CHR ''x'' \<or> x = CHR ''X'')
          then (case r of u # r' \<Rightarrow> if u = CHR ''_'' then r' else r | [] \<Rightarrow> r)
          else s
      | _ \<Rightarrow> s)"

definition int_of_hex :: "string \<Rightarrow> int res" where
  "int_of_hex s =
     (let (neg, b) = split_sign (strip s); ds = hex_prefix b;
          n = int (foldl (\<lambda>n c. case hex_digit c of Some v \<Rightarrow> 16 * n + v | None \<Rightarrow> n) 0 ds)
      in if hex_digits_ok ds then Inr (if neg then - n else n) else Inl ValueError)"

definition mac_bytes :: "string \<Rightarrow> bytes res" where
  "mac_bytes mac = mapM (\<lambda>x. bnd (int_of_hex x) py_byte) (split_on CHR '':'' mac)"

text \<open>The sum of the big-endian 16-bit words, an odd last octet padded with zero.\<close>

fun word_sum :: "bytes \<Rightarrow> int" where
  "word_sum [] = 0"
| "word_sum [a] = 256 * uint a"
| "word_sum (a # b # bs) = 256 * uint a + uint b + word_sum bs"

definition ip_checksum :: "bytes \<Rightarrow> int" where
  "ip_checksum header =
     (let total = word_sum header;
          total = drop_bit 16 total + (total AND 0xFFFF);
          total = total + drop_bit 16 total
      in NOT total AND 0xFFFF)"

text \<open>The EtherType behind the tags and the offset of the payload.\<close>

fun skip_tags :: "nat \<Rightarrow> bytes \<Rightarrow> int \<Rightarrow> nat \<Rightarrow> int \<times> nat" where
  "skip_tags 0 p etype n = (etype, n)"
| "skip_tags (Suc fuel) p etype n =
     (if etype = ETH_P_8021Q \<and> n + 4 \<le> length p
      then skip_tags fuel p (be_val (slice (n + 2) (n + 4) p)) (n + 4)
      else (etype, n))"

definition adjust_ttl :: "int \<Rightarrow> bytes \<Rightarrow> bytes" where
  "adjust_ttl delta l3 =
     (let ihl = nat ((uint (l3 ! 0) AND 0x0F) * 4)
      in if 20 \<le> ihl \<and> ihl \<le> length l3 then
           let l3 = l3[8 := word_of_int (max 1 (uint (l3 ! 8) + delta) AND 0xFF)];
               l3 = l3[10 := 0, 11 := 0];
               ck = ip_checksum (take ihl l3)
           in l3[10 := word_of_int (drop_bit 8 ck AND 0xFF), 11 := word_of_int (ck AND 0xFF)]
         else l3)"

definition reframe :: "bytes \<Rightarrow> seg \<Rightarrow> bytes option res" where
  "reframe packet_bytes s =
     (if length packet_bytes < 14 then Inr None
      else
        let (etype, n) = skip_tags (length packet_bytes) packet_bytes (be_val (slice 12 14 packet_bytes)) 14;
            l3 = drop n packet_bytes;
            l3 = (if etype = ETH_P_IP \<and> ttl_delta s \<noteq> 0 \<and> 20 \<le> length l3 then adjust_ttl (ttl_delta s) l3 else l3)
        in bnd (mac_bytes (seg_dst_mac s)) (\<lambda>dst.
           bnd (mac_bytes (seg_src_mac s)) (\<lambda>src.
           bnd (struct_pack ''!H'' [etype]) (\<lambda>et.
           case vlan s of
             Some v \<Rightarrow>
               bnd (struct_pack ''!H'' [ETH_P_8021Q]) (\<lambda>q.
               bnd (struct_pack ''!H'' [v AND 0x0FFF]) (\<lambda>tci. Inr (Some (dst @ src @ q @ tci @ et @ l3))))
           | None \<Rightarrow> Inr (Some (dst @ src @ et @ l3))))))"

section \<open>Routing\<close>

fun reframe_all :: "bytes \<Rightarrow> seg list \<Rightarrow> (string \<times> bytes) list res" where
  "reframe_all p [] = Inr []"
| "reframe_all p (s # segs) =
     bnd (reframe p s) (\<lambda>r. bnd (reframe_all p segs) (\<lambda>out.
     Inr (case r of Some b \<Rightarrow> (span_of s, b) # out | None \<Rightarrow> out)))"

definition is_forward :: "dissector \<Rightarrow> bytes \<Rightarrow> flow_plan \<Rightarrow> bool" where
  "is_forward d packet_bytes plan =
     (case l3_src d packet_bytes of
        Some s \<Rightarrow> \<not> (source_ip plan \<noteq> [] \<and> lower s \<noteq> source_ip plan)
      | None \<Rightarrow> True)"

definition route_planned :: "dissector \<Rightarrow> bytes \<Rightarrow> flow_plan \<Rightarrow> (string \<times> bytes) list res" where
  "route_planned d packet_bytes plan =
     reframe_all packet_bytes
       (if is_forward d packet_bytes plan then segments_forward plan else segments_reverse plan)"

definition zone_at :: "(string \<times> string) list \<Rightarrow> string option \<Rightarrow> string list" where
  "zone_at index a =
     (case map_of index (lower (case a of Some s \<Rightarrow> s | None \<Rightarrow> [])) of
        Some z \<Rightarrow> if z = [] then [] else [z]
      | None \<Rightarrow> [])"

definition frame_zones :: "dissector \<Rightarrow> router \<Rightarrow> bytes \<Rightarrow> string list" where
  "frame_zones d r packet_bytes =
     (case eth_view d packet_bytes of
        None \<Rightarrow> []
      | Some v \<Rightarrow>
          let zones =
            (case arp_ips v of
               Some (a, b) \<Rightarrow> zone_at (ip_to_zone r) a @ zone_at (ip_to_zone r) b
             | None \<Rightarrow>
                 (case ip_addrs v of
                    Some (a, b) \<Rightarrow> zone_at (ip_to_zone r) (Some a) @ zone_at (ip_to_zone r) (Some b)
                  | None \<Rightarrow> []))
          in if zones = []
             then zone_at (mac_to_zone r) (fst (eth_macs v)) @ zone_at (mac_to_zone r) (snd (eth_macs v))
             else zones)"

definition route_unplanned ::
    "dissector \<Rightarrow> router \<Rightarrow> bytes \<Rightarrow> string option \<Rightarrow> (string \<times> bytes) list \<times> router" where
  "route_unplanned d r packet_bytes flow_id =
     (let zones = frame_zones d r packet_bytes
      in if zones = [] then
           let f = (case flow_id of None \<Rightarrow> ''?'' | Some s \<Rightarrow> if s = [] then ''?'' else s);
               key = takeWhile (\<lambda>c. c \<noteq> CHR ''_'') f
           in ([], r\<lparr>unplanned_logged := set_add key (unplanned_logged r)\<rparr>)
         else (map (\<lambda>z. (''zone:'' @ z, packet_bytes)) (sort (remdups zones)), r))"

definition route :: "dissector \<Rightarrow> router \<Rightarrow> bytes \<Rightarrow> string option \<Rightarrow> ((string \<times> bytes) list \<times> router) res" where
  "route d r packet_bytes flow_id =
     (case (case flow_id of None \<Rightarrow> None | Some s \<Rightarrow> if s = [] then None else map_of (flow_plans r) s) of
        Some plan \<Rightarrow> bnd (route_planned d packet_bytes plan) (\<lambda>out. Inr (out, r))
      | None \<Rightarrow> Inr (route_unplanned d r packet_bytes flow_id))"

section \<open>The tags\<close>

text \<open>The fuel of \<open>skip_tags\<close> is never exhausted: every turn of the loop passes four octets.\<close>

lemma skip_tags_fuel:
  "length p \<le> n + 4 * f \<Longrightarrow> length p \<le> n + 4 * g \<Longrightarrow> skip_tags f p e n = skip_tags g p e n"
proof (induction f arbitrary: e n g)
  case 0
  then show ?case by (cases g) auto
next
  case (Suc f)
  then show ?case by (cases g) auto
qed

text \<open>Where the loop ends there is no complete tag any more.\<close>

lemma skip_tags_ends:
  assumes "skip_tags f p e n = (e', n')" and "length p \<le> n + 4 * f"
  shows "\<not> (e' = ETH_P_8021Q \<and> n' + 4 \<le> length p) \<and> n \<le> n' \<and> (n \<le> length p \<longrightarrow> n' \<le> length p)"
  using assms
proof (induction f p e n rule: skip_tags.induct)
  case (2 f p e n)
  show ?case
  proof (cases "e = ETH_P_8021Q \<and> n + 4 \<le> length p")
    case True
    with "2.IH" "2.prems" show ?thesis by simp
  next
    case False
    with "2.prems" show ?thesis by (simp split: if_splits)
  qed
qed simp

lemma skip_tags_range:
  assumes "skip_tags f p e n = (e', n')" and "0 \<le> e" and "e < 65536"
  shows "0 \<le> e' \<and> e' < 65536"
  using assms
proof (induction f p e n rule: skip_tags.induct)
  case (2 f p e n)
  have "be_val (slice (n + 2) (n + 4) p) < 256 ^ length (slice (n + 2) (n + 4) p)"
    by (rule be_val_less)
  then have "n + 4 \<le> length p \<Longrightarrow> be_val (slice (n + 2) (n + 4) p) < 65536"
    by simp
  with 2 show ?case by (auto split: if_splits)
qed simp

text \<open>The EtherType and the payload a receiver finds.\<close>

definition frame_payload :: "bytes \<Rightarrow> int \<times> nat" where
  "frame_payload p = skip_tags (length p) p (be_val (slice 12 14 p)) 14"

lemma frame_payload_bounds:
  assumes "frame_payload p = (e, n)" and "14 \<le> length p"
  shows "14 \<le> n" and "n \<le> length p" and "0 \<le> e" and "e < 65536"
    and "\<not> (e = ETH_P_8021Q \<and> n + 4 \<le> length p)"
proof -
  have "be_val (slice 12 14 p) < 256 ^ length (slice 12 14 p)" by (rule be_val_less)
  with assms(2) have "be_val (slice 12 14 p) < 65536" by simp
  moreover note sk = assms(1) [unfolded frame_payload_def]
  moreover have "length p \<le> 14 + 4 * length p" by simp
  ultimately show "14 \<le> n" "n \<le> length p" "0 \<le> e" "e < 65536" "\<not> (e = ETH_P_8021Q \<and> n + 4 \<le> length p)"
    using assms(2) skip_tags_ends [OF sk] skip_tags_range [OF sk] by (simp, simp, simp, simp, blast)
qed

lemma skip_tags_stop: "\<not> (e = ETH_P_8021Q \<and> n + 4 \<le> length p) \<Longrightarrow> skip_tags f p e n = (e, n)"
  by (cases f) auto

lemma frame_payload_untagged:
  assumes "length d = 6" and "length s = 6" and "0 \<le> e" and "e < 65536"
    and "\<not> (e = ETH_P_8021Q \<and> 4 \<le> length l)"
  shows "frame_payload (d @ s @ be_bytes 2 e @ l) = (e, 14)"
proof -
  have "slice 12 14 (d @ s @ be_bytes 2 e @ l) = be_bytes 2 e"
    using assms by (simp add: slice_def)
  then show ?thesis
    using assms by (simp add: frame_payload_def skip_tags_stop)
qed

lemma frame_payload_tagged:
  assumes "length d = 6" and "length s = 6" and "0 \<le> e" and "e < 65536"
    and "\<not> (e = ETH_P_8021Q \<and> 4 \<le> length l)"
  shows "frame_payload (d @ s @ be_bytes 2 ETH_P_8021Q @ be_bytes 2 t @ be_bytes 2 e @ l) = (e, 18)"
proof -
  let ?f = "d @ s @ be_bytes 2 ETH_P_8021Q @ be_bytes 2 t @ be_bytes 2 e @ l"
  have tag: "be_val (slice 12 14 ?f) = ETH_P_8021Q"
    using assms by (simp add: slice_def ETH_P_8021Q_def)
  have inner: "be_val (slice 16 18 ?f) = e"
    using assms by (simp add: slice_def)
  have len: "length ?f = Suc (17 + length l)"
    using assms by simp
  have "skip_tags (length ?f) ?f ETH_P_8021Q 14 = skip_tags (17 + length l) ?f e 18"
    unfolding len using inner by (simp only: skip_tags.simps len) simp
  also have "\<dots> = (e, 18)"
    by (rule skip_tags_stop) (use assms in \<open>simp add: len\<close>)
  finally show ?thesis
    by (simp only: frame_payload_def tag)
qed

section \<open>The checksum\<close>

text \<open>Two additions of the carries reduce a sum below \<open>2 ^ 32\<close> modulo \<open>65535\<close>.\<close>

lemma carries_step:
  assumes "(0 :: int) \<le> q" and "q < 65536" and "0 \<le> r" and "r < 65536"
  shows "(q + r + (q + r) div 65536) mod 65536 = (if q + r < 65536 then q + r else q + r - 65535)"
proof (cases "q + r < 65536")
  case True
  with assms show ?thesis by simp
next
  case False
  have d: "0 \<le> q + r - 65536" "q + r - 65536 < 65536" "0 \<le> q + r - 65535" "q + r - 65535 < 65536"
    using False assms by linarith+
  have "(q + r) div 65536 = ((q + r - 65536) + 65536) div 65536" by simp
  also have "\<dots> = 1"
    using d by (simp add: div_add_self2 div_pos_pos_trivial)
  finally have "(q + r + (q + r) div 65536) mod 65536 = ((q + r - 65535) + 65536) mod 65536"
    by (simp add: algebra_simps)
  also have "\<dots> = q + r - 65535"
    using d by (simp only: mod_add_self2 mod_pos_pos_trivial)
  finally show ?thesis using False by simp
qed

lemma fold_carries:
  assumes "(0 :: int) \<le> w" and "w < 4294967296"
  defines "t \<equiv> w div 65536 + w mod 65536"
  defines "u \<equiv> (t + t div 65536) mod 65536"
  shows "u mod 65535 = w mod 65535" and "u = 0 \<longleftrightarrow> w = 0" and "0 \<le> u" and "u \<le> 65535"
proof -
  obtain q r where q: "q = w div 65536" and r: "r = w mod 65536" by blast
  have a: "0 \<le> q" "q < 65536" "0 \<le> r" "r < 65536"
    using assms(1,2) by (auto simp: q r)
  have w: "w = 65535 * q + (q + r)"
    using div_mult_mod_eq [of w 65536] by (simp add: q r)
  have u: "u = (if q + r < 65536 then q + r else q + r - 65535)"
    unfolding u_def t_def q [symmetric] r [symmetric] by (rule carries_step [OF a])
  have "w mod 65535 = (q + r) mod 65535"
    unfolding w by (rule mod_mult_self4)
  moreover have "(q + r - 65535) mod 65535 = (q + r) mod (65535 :: int)" by simp
  ultimately show "u mod 65535 = w mod 65535"
    by (simp only: u split: if_split) simp
  have "w = 0 \<longleftrightarrow> q + r = 0" using a unfolding w by linarith
  then show "u = 0 \<longleftrightarrow> w = 0" "0 \<le> u" "u \<le> 65535"
    using a by (simp_all add: u)
qed

lemma ip_checksum_fold:
  assumes "0 \<le> word_sum h" and "word_sum h < 4294967296"
  obtains u where "ip_checksum h = 65535 - u" and "u mod 65535 = word_sum h mod 65535"
    and "u = 0 \<longleftrightarrow> word_sum h = 0" and "0 \<le> u" and "u \<le> 65535"
proof
  let ?t = "word_sum h div 65536 + word_sum h mod 65536"
  let ?u = "(?t + ?t div 65536) mod 65536"
  have "NOT v AND 65535 = 65535 - v mod 65536" for v :: int
  proof -
    have "NOT v = (65535 - v mod 65536) + 65536 * (- (v div 65536) - 1)"
      using minus_mod_eq_mult_div [of v 65536] by (simp add: not_int_def algebra_simps)
    then have "NOT v AND 65535 = (65535 - v mod 65536) mod 65536"
      by (simp only: and_mask_mod mod_mult_self2)
    then show ?thesis
      by (simp add: mod_pos_pos_trivial)
  qed
  then show "ip_checksum h = 65535 - ?u"
    by (simp add: ip_checksum_def drop_bit_eq_div and_mask_mod Let_def)
qed (rule fold_carries [OF assms])+

lemma word_sum_bounds: "0 \<le> word_sum h \<and> word_sum h \<le> 65535 * ((int (length h) + 1) div 2)"
proof (induction h rule: word_sum.induct)
  case (2 a)
  have "uint a < 256" "0 \<le> uint a" by simp_all
  then have "256 * uint a \<le> 65535" by linarith
  then show ?case by simp
next
  case (3 a b bs)
  have "uint a < 256" "uint b < 256" "0 \<le> uint a" "0 \<le> uint b" by simp_all
  then have "0 \<le> 256 * uint a + uint b" "256 * uint a + uint b \<le> 65535" by linarith+
  moreover have "(int (length (a # b # bs)) + 1) div 2 = (int (length bs) + 1) div 2 + 1" by simp
  ultimately show ?case
    using "3" unfolding word_sum.simps by linarith
qed simp

lemma word_sum_append: "even (length a) \<Longrightarrow> word_sum (a @ b) = word_sum a + word_sum b"
  by (induction a rule: word_sum.induct) auto

text \<open>A header whose checksum field holds the checksum computed over the field as zero verifies.\<close>

lemma checksum_verifies:
  assumes len: "length h < 1024" "12 \<le> length h"
    and zero: "h ! 10 = 0" "h ! 11 = 0"
  defines "ck \<equiv> ip_checksum h"
  shows "ip_checksum (h[10 := word_of_int (drop_bit 8 ck AND 0xFF), 11 := word_of_int (ck AND 0xFF)]) = 0"
proof -
  let ?h' = "h[10 := word_of_int (drop_bit 8 ck AND 0xFF), 11 := word_of_int (ck AND 0xFF)]"
  have bounds: "0 \<le> word_sum x" "word_sum x < 4294967296 - 65536" if "length x < 1024" for x
    using word_sum_bounds [of x] that by (linarith, linarith)
  obtain u where ck: "ck = 65535 - u" and u: "u mod 65535 = word_sum h mod 65535" "u = 0 \<longleftrightarrow> word_sum h = 0"
      "0 \<le> u" "u \<le> 65535"
    using bounds [OF len(1)] unfolding ck_def by (elim ip_checksum_fold [rotated 2]) auto
  have "drop 10 h = h ! 10 # h ! 11 # drop 12 h"
    using len Cons_nth_drop_Suc [of 10 h] Cons_nth_drop_Suc [of 11 h] by simp
  then have "h = take 10 h @ h ! 10 # h ! 11 # drop 12 h"
    using append_take_drop_id [of 10 h] by simp
  then have h: "h = take 10 h @ 0 # 0 # drop 12 h"
    by (simp only: zero)
  have sum: "word_sum (h[10 := x, 11 := y]) = word_sum h + 256 * uint x + uint y" for x y
  proof -
    have "h[10 := x, 11 := y] = take 10 h @ x # y # drop 12 h"
      using len by (subst h) (simp add: list_update_append)
    moreover have "word_sum h = word_sum (take 10 h @ 0 # 0 # drop 12 h)"
      using h by simp
    ultimately show ?thesis
      using len by (simp add: word_sum_append)
  qed
  have "256 * (ck div 256 mod 256) + ck mod 256 = ck"
    using ck u by (simp add: mod_pos_pos_trivial)
  then have total: "word_sum ?h' = word_sum h + ck"
    unfolding sum by (simp add: uint_byte and_mask_mod drop_bit_eq_div)
  have "word_sum h < 4294967296 - 65536" "0 \<le> word_sum h" using bounds [OF len(1)] by auto
  then obtain v where v: "ip_checksum ?h' = 65535 - v" "v mod 65535 = word_sum ?h' mod 65535"
      "v = 0 \<longleftrightarrow> word_sum ?h' = 0" "0 \<le> v" "v \<le> 65535"
    using total ck u by (elim ip_checksum_fold [of ?h', rotated 2]) auto
  have "(word_sum h - u) mod 65535 = 0"
    using u(1) by (metis diff_self mod_0 mod_diff_eq)
  then have "(word_sum h + ck) mod 65535 = 0"
    using mod_add_self2 [of "word_sum h - u" 65535] by (simp add: ck algebra_simps)
  then have "v mod 65535 = 0" using v(2) total by simp
  moreover have "v \<noteq> 0"
    using v(3) total ck u \<open>0 \<le> word_sum h\<close> by auto
  ultimately have "v = 65535"
    using v(4,5) by (smt (verit) mod_pos_pos_trivial)
  with v(1) show ?thesis by simp
qed

lemma adjust_ttl_other: "\<not> (20 \<le> nat ((uint (l ! 0) AND 15) * 4) \<and> nat ((uint (l ! 0) AND 15) * 4) \<le> length l) \<Longrightarrow>
    adjust_ttl delta l = l"
  by (auto simp: adjust_ttl_def Let_def)

lemma length_adjust_ttl [simp]: "length (adjust_ttl delta l) = length l"
  by (simp add: adjust_ttl_def Let_def)

lemma adjust_ttl_octets: "i \<notin> {8, 10, 11} \<Longrightarrow> adjust_ttl delta l ! i = l ! i"
  by (simp add: adjust_ttl_def Let_def)

lemma adjust_ttl_header:
  assumes "h = nat ((uint (l ! 0) AND 15) * 4)" and "20 \<le> h" and "h \<le> length l"
  shows "uint (adjust_ttl delta l ! 8) = max 1 (uint (l ! 8) + delta) mod 256"
    and "ip_checksum (take h (adjust_ttl delta l)) = 0"
proof -
  let ?l = "l[8 := word_of_int (max 1 (uint (l ! 8) + delta) AND 0xFF), 10 := 0, 11 := 0]"
  let ?ck = "ip_checksum (take h ?l)"
  have eq: "adjust_ttl delta l
      = ?l[10 := word_of_int (drop_bit 8 ?ck AND 0xFF), 11 := word_of_int (?ck AND 0xFF)]"
    using assms by (simp add: adjust_ttl_def Let_def)
  show "uint (adjust_ttl delta l ! 8) = max 1 (uint (l ! 8) + delta) mod 256"
    using assms(2,3) by (simp add: eq uint_byte and_mask_8)
  have "uint (l ! 0) AND 15 < 16"
    by (simp add: and_mask_4)
  then have "(uint (l ! 0) AND 15) * 4 \<le> 60" by linarith
  then have "h \<le> 60" unfolding assms(1) by linarith
  then have "ip_checksum ((take h ?l)[10 := word_of_int (drop_bit 8 ?ck AND 0xFF), 11 := word_of_int (?ck AND 0xFF)]) = 0"
    using assms by (intro checksum_verifies) auto
  then show "ip_checksum (take h (adjust_ttl delta l)) = 0"
    unfolding eq by (simp only: take_update_swap)
qed

section \<open>A reframed copy\<close>

text \<open>The payload of the copy on one segment.\<close>

definition hop_payload :: "seg \<Rightarrow> int \<Rightarrow> bytes \<Rightarrow> bytes" where
  "hop_payload s e l = (if e = ETH_P_IP \<and> ttl_delta s \<noteq> 0 \<and> 20 \<le> length l then adjust_ttl (ttl_delta s) l else l)"

lemma length_hop_payload [simp]: "length (hop_payload s e l) = length l"
  by (simp add: hop_payload_def)

lemma hop_payload_octets: "i \<notin> {8, 10, 11} \<Longrightarrow> hop_payload s e l ! i = l ! i"
  by (simp add: hop_payload_def adjust_ttl_octets)

definition seg_macs :: "seg \<Rightarrow> bytes \<Rightarrow> bytes \<Rightarrow> bool" where
  "seg_macs s d m \<longleftrightarrow> mac_bytes (seg_dst_mac s) = Inr d \<and> mac_bytes (seg_src_mac s) = Inr m \<and> length d = 6 \<and> length m = 6"

lemma reframe_eq:
  assumes "14 \<le> length p" and "seg_macs s d m" and "frame_payload p = (e, n)"
  shows "reframe p s = Inr (Some (d @ m @
    (case vlan s of Some v \<Rightarrow> be_bytes 2 ETH_P_8021Q @ be_bytes 2 (v AND 0xFFF) | None \<Rightarrow> [])
    @ be_bytes 2 e @ hop_payload s e (drop n p)))"
proof -
  have e: "0 \<le> e" "e < 65536"
    using frame_payload_bounds [OF assms(3,1)] by auto
  have sk: "skip_tags (length p) p (be_val (slice 12 14 p)) 14 = (e, n)"
    using assms(3) by (simp add: frame_payload_def)
  have "0 \<le> v AND 4095" "v AND 4095 < 65536" for v :: int
    using pos_mod_bound [of 4096 v] by (simp_all add: and_mask_12)
  then show ?thesis
    using assms(1,2) e
    by (simp add: reframe_def sk seg_macs_def hop_payload_def [symmetric] ETH_P_8021Q_def Let_def split: option.split)
qed

lemma reframe_parts:
  assumes "14 \<le> length p" and "seg_macs s d m" and "frame_payload p = (e, n)"
  obtains f where "reframe p s = Inr (Some f)" and "take 6 f = d" and "slice 6 12 f = m"
    and "frame_payload f = (e, if vlan s = None then 14 else 18)"
    and "drop (snd (frame_payload f)) f = hop_payload s e (drop n p)"
    and "case vlan s of None \<Rightarrow> True
         | Some v \<Rightarrow> be_val (slice 12 14 f) = ETH_P_8021Q \<and> be_val (slice 14 16 f) = v mod 4096"
proof -
  have e: "0 \<le> e" "e < 65536" "\<not> (e = ETH_P_8021Q \<and> 4 \<le> length (hop_payload s e (drop n p)))"
    using frame_payload_bounds [OF assms(3,1)] by auto
  have l: "length d = 6" "length m = 6" using assms(2) by (simp_all add: seg_macs_def)
  note eq = reframe_eq [OF assms]
  show thesis
  proof (cases "vlan s")
    case None
    let ?f = "d @ m @ be_bytes 2 e @ hop_payload s e (drop n p)"
    show thesis
      by (rule that [of ?f])
        (use None eq l frame_payload_untagged [OF l e] in \<open>simp_all add: slice_def\<close>)
  next
    case (Some v)
    let ?f = "d @ m @ be_bytes 2 ETH_P_8021Q @ be_bytes 2 (v AND 0xFFF) @ be_bytes 2 e @ hop_payload s e (drop n p)"
    have "v mod 4096 mod 65536 = v mod 4096"
      using pos_mod_bound [of 4096 v] by (simp add: mod_pos_pos_trivial)
    then show thesis
      by (intro that [of ?f])
        (use Some eq l frame_payload_tagged [OF l e] in \<open>simp_all add: slice_def ETH_P_8021Q_def and_mask_mod\<close>)
  qed
qed

section \<open>Properties of the copies\<close>

text \<open>
  C25: reframing keeps the payload. With two six-octet addresses the copy for a segment starts
  with them; a receiver that skips the tags finds the EtherType of the original frame, whatever
  it is, behind no tag or exactly one tag with the segment's VLAN identifier, and a payload of
  the same length that differs from the original at most in the octets 8, 10 and 11, and not
  at all unless the frame carries IPv4 and the segment changes the TTL.
\<close>

theorem reframe_keeps_payload:
  assumes "14 \<le> length p" and "seg_macs s d m" and "frame_payload p = (e, n)"
  shows "\<exists>f. reframe p s = Inr (Some f) \<and> take 6 f = d \<and> slice 6 12 f = m
      \<and> frame_payload f = (e, if vlan s = None then 14 else 18)
      \<and> (case vlan s of None \<Rightarrow> True
         | Some v \<Rightarrow> be_val (slice 12 14 f) = ETH_P_8021Q \<and> be_val (slice 14 16 f) = v mod 4096)
      \<and> (let l = drop n p; l' = drop (snd (frame_payload f)) f
         in length l' = length l
            \<and> (\<forall>i. i < length l \<and> i \<notin> {8, 10, 11} \<longrightarrow> l' ! i = l ! i)
            \<and> (e \<noteq> ETH_P_IP \<or> ttl_delta s = 0 \<longrightarrow> l' = l))"
proof -
  obtain f where f: "reframe p s = Inr (Some f)" "take 6 f = d" "slice 6 12 f = m"
      "frame_payload f = (e, if vlan s = None then 14 else 18)"
      "drop (snd (frame_payload f)) f = hop_payload s e (drop n p)"
      "case vlan s of None \<Rightarrow> True
         | Some v \<Rightarrow> be_val (slice 12 14 f) = ETH_P_8021Q \<and> be_val (slice 14 16 f) = v mod 4096"
    by (rule reframe_parts [OF assms])
  have changed: "\<forall>i. i < length l \<and> i \<notin> {8, 10, 11} \<longrightarrow> hop_payload s e l ! i = l ! i" for l
    by (simp add: hop_payload_octets)
  have same: "e \<noteq> ETH_P_IP \<or> ttl_delta s = 0 \<longrightarrow> hop_payload s e (drop n p) = drop n p"
    by (auto simp: hop_payload_def)
  show ?thesis
    by (rule exI [of _ f])
      (use f changed [of "drop n p"] same in \<open>simp add: Let_def split: option.split\<close>)
qed

text \<open>
  C26: a copy behind a routed hop has a valid IPv4 header. When the frame carries IPv4 with a
  whole header and the segment changes the TTL, the header of the copy, of the same length,
  passes the Internet checksum, whether or not the original one did, and its TTL is the old one
  plus the change, at least 1 and modulo 256: a decrement never gives 0.
\<close>

theorem routed_hop_header_valid:
  assumes "14 \<le> length p" and "seg_macs s d m" and "frame_payload p = (ETH_P_IP, n)"
    and "ttl_delta s \<noteq> 0"
    and "h = nat ((uint (p ! n) AND 15) * 4)" and "20 \<le> h" and "n + h \<le> length p"
  shows "\<exists>f. reframe p s = Inr (Some f)
      \<and> (let l' = drop (snd (frame_payload f)) f
         in nat ((uint (l' ! 0) AND 15) * 4) = h \<and> ip_checksum (take h l') = 0
            \<and> uint (l' ! 8) = max 1 (uint (p ! (n + 8)) + ttl_delta s) mod 256
            \<and> (ttl_delta s < 0 \<longrightarrow> 0 < uint (l' ! 8)))"
proof -
  let ?l = "drop n p"
  obtain f where f: "reframe p s = Inr (Some f)"
      and l': "drop (snd (frame_payload f)) f = hop_payload s ETH_P_IP ?l"
    by (rule reframe_parts [OF assms(1-3)])
  have at: "?l ! 0 = p ! n" "?l ! 8 = p ! (n + 8)" using assms(6,7) by simp_all
  have h: "h = nat ((uint (?l ! 0) AND 15) * 4)" "20 \<le> h" "h \<le> length ?l"
    using assms(5-7) at by simp_all
  then have hop: "hop_payload s ETH_P_IP ?l = adjust_ttl (ttl_delta s) ?l"
    using assms(4) by (simp add: hop_payload_def)
  note hdr = adjust_ttl_header [OF h, of "ttl_delta s"]
  have "adjust_ttl (ttl_delta s) ?l ! 0 = ?l ! 0"
    by (rule adjust_ttl_octets) simp
  moreover have "ttl_delta s < 0 \<longrightarrow> 0 < max 1 (uint (p ! (n + 8)) + ttl_delta s) mod 256"
  proof
    assume "ttl_delta s < 0"
    moreover have "uint (p ! (n + 8)) < 256" by simp
    ultimately have "max 1 (uint (p ! (n + 8)) + ttl_delta s) < 256" by linarith
    then show "0 < max 1 (uint (p ! (n + 8)) + ttl_delta s) mod 256"
      by (simp only: mod_pos_pos_trivial)
  qed
  ultimately show ?thesis
    by (intro exI [of _ f]) (use f l' hop hdr h at in \<open>simp add: Let_def\<close>)
qed

definition demo_seg :: seg where
  "demo_seg = \<lparr>span_of = ''zone:cell1'', ttl_delta = -1, seg_dst_mac = ''00:1b:1b:01:02:03'',
     seg_src_mac = ''00:1b:1b:0a:0b:0c'', vlan = Some 4106\<rparr>"

definition demo_ip_frame :: bytes where
  "demo_ip_frame = replicate 12 2 @ [8, 0] @
     [0x45, 0, 0, 22, 0, 1, 0, 0, 1, 6, 0, 0, 10, 0, 0, 1, 10, 0, 0, 2] @ [7, 9]"

lemma demo_seg_macs: "seg_macs demo_seg [0, 0x1b, 0x1b, 1, 2, 3] [0, 0x1b, 0x1b, 10, 11, 12]"
  by (simp add: seg_macs_def demo_seg_def mac_bytes_def int_of_hex_def hex_prefix_def hex_digit_def strip_def
      split_sign_def is_space_def cong: bnd_weak_cong)

lemma demo_ip_frame_payload: "frame_payload demo_ip_frame = (ETH_P_IP, 14)" "length demo_ip_frame = 36"
  by (simp_all add: frame_payload_def demo_ip_frame_def slice_def be_val_def skip_tags_stop ETH_P_8021Q_def ETH_P_IP_def)

theorem reframe_keeps_payload_witness:
  "\<exists>f. reframe demo_ip_frame demo_seg = Inr (Some f) \<and> frame_payload f = (ETH_P_IP, 18)
     \<and> be_val (slice 14 16 f) = 10"
proof -
  have "14 \<le> length demo_ip_frame" by (simp add: demo_ip_frame_payload)
  from reframe_keeps_payload [OF this demo_seg_macs demo_ip_frame_payload(1)]
  show ?thesis
    by (elim ex_forward) (simp add: demo_seg_def)
qed

theorem routed_hop_header_valid_witness:
  "\<exists>f. reframe demo_ip_frame demo_seg = Inr (Some f) \<and> ip_checksum (take 20 (drop (snd (frame_payload f)) f)) = 0
     \<and> uint (drop (snd (frame_payload f)) f ! 8) = 1"
proof -
  have "ttl_delta demo_seg \<noteq> 0" "(20 :: nat) = nat ((uint (demo_ip_frame ! 14) AND 15) * 4)"
    by (simp_all add: demo_seg_def demo_ip_frame_def nth_append)
  moreover have "uint (demo_ip_frame ! (14 + 8)) = 1" "ttl_delta demo_seg = -1"
    by (simp_all add: demo_seg_def demo_ip_frame_def nth_append)
  ultimately show ?thesis
    using routed_hop_header_valid [OF _ demo_seg_macs demo_ip_frame_payload(1), of 20] demo_ip_frame_payload(2)
    by (auto simp: Let_def)
qed

section \<open>Routing\<close>

lemma reframe_all_spans:
  assumes "reframe_all p segs = Inr out"
  shows "map fst out = (if length p < 14 then [] else map span_of segs)"
    and "14 \<le> length p \<Longrightarrow> list_all2 (\<lambda>s x. reframe p s = Inr (Some (snd x))) segs out"
  using assms
proof (induction segs arbitrary: out)
  case (Cons s segs)
  have some: "14 \<le> length p \<Longrightarrow> reframe p s = Inr r \<Longrightarrow> r \<noteq> None" for r
    by (auto simp: reframe_def Let_def res_simps split: prod.splits option.splits)
  have none: "length p < 14 \<Longrightarrow> reframe p s = Inr None"
    by (simp add: reframe_def)
  { case 1
    with Cons.IH some none show ?case by (auto simp: res_simps split: option.splits)
  next
    case 2
    with Cons.IH some show ?case by (fastforce simp: res_simps split: option.splits) }
qed auto

definition planned :: "router \<Rightarrow> string option \<Rightarrow> flow_plan option" where
  "planned r flow_id = (case flow_id of None \<Rightarrow> None | Some s \<Rightarrow> if s = [] then None else map_of (flow_plans r) s)"

text \<open>
  Where a frame belongs, as the documentation of the router has it: in the zones of its own
  addresses, the two of an ARP or IP packet, source and destination, or, if neither of them is
  known, the two of the Ethernet header.
\<close>

definition indexed :: "(string \<times> string) list \<Rightarrow> string option \<Rightarrow> string \<Rightarrow> bool" where
  "indexed index a z \<longleftrightarrow> z \<noteq> [] \<and> map_of index (lower (case a of Some s \<Rightarrow> s | None \<Rightarrow> [])) = Some z"

definition network_ends :: "frame_view \<Rightarrow> string option set" where
  "network_ends v =
     (case (arp_ips v, ip_addrs v) of
        (Some (a, b), _) \<Rightarrow> {a, b}
      | (None, Some (a, b)) \<Rightarrow> {Some a, Some b}
      | (None, None) \<Rightarrow> {})"

definition belongs :: "dissector \<Rightarrow> router \<Rightarrow> bytes \<Rightarrow> string \<Rightarrow> bool" where
  "belongs dis r p z \<longleftrightarrow>
     (\<exists>v. eth_view dis p = Some v
        \<and> ((\<exists>a \<in> network_ends v. indexed (ip_to_zone r) a z)
           \<or> (\<forall>a \<in> network_ends v. \<forall>z'. \<not> indexed (ip_to_zone r) a z')
             \<and> (\<exists>a \<in> {fst (eth_macs v), snd (eth_macs v)}. indexed (mac_to_zone r) a z)))"

lemma zone_at_indexed: "z \<in> set (zone_at index a) \<longleftrightarrow> indexed index a z"
  by (cases "map_of index (lower (case a of Some s \<Rightarrow> s | None \<Rightarrow> []))") (simp_all add: zone_at_def indexed_def, metis)

lemma frame_zones_belongs: "z \<in> set (frame_zones dis r p) \<longleftrightarrow> belongs dis r p z"
proof (cases "eth_view dis p")
  case (Some v)
  define zs where "zs = (case arp_ips v of
      Some (a, b) \<Rightarrow> zone_at (ip_to_zone r) a @ zone_at (ip_to_zone r) b
    | None \<Rightarrow> (case ip_addrs v of
        Some (a, b) \<Rightarrow> zone_at (ip_to_zone r) (Some a) @ zone_at (ip_to_zone r) (Some b) | None \<Rightarrow> []))"
  have ends: "z' \<in> set zs \<longleftrightarrow> (\<exists>a \<in> network_ends v. indexed (ip_to_zone r) a z')" for z'
    by (auto simp: zs_def network_ends_def zone_at_indexed split: option.split)
  have "zs = [] \<longleftrightarrow> (\<forall>z'. z' \<notin> set zs)" by (cases zs) auto
  then have none: "zs = [] \<longleftrightarrow> (\<forall>a \<in> network_ends v. \<forall>z'. \<not> indexed (ip_to_zone r) a z')"
    unfolding ends by blast
  have "frame_zones dis r p = (if zs = [] then zone_at (mac_to_zone r) (fst (eth_macs v)) @ zone_at (mac_to_zone r) (snd (eth_macs v)) else zs)"
    by (simp add: frame_zones_def Some zs_def Let_def)
  then show ?thesis
    using ends none by (auto simp: belongs_def Some zone_at_indexed)
qed (simp add: frame_zones_def belongs_def)

text \<open>
  The segments of a planned frame: the reverse ones exactly when the frame has a source address
  in its network header, the plan knows the address of the flow's source, and the two differ.
\<close>

definition planned_segments :: "dissector \<Rightarrow> bytes \<Rightarrow> flow_plan \<Rightarrow> seg list" where
  "planned_segments dis p plan =
     (case l3_src dis p of
        None \<Rightarrow> segments_forward plan
      | Some s \<Rightarrow> if source_ip plan \<noteq> [] \<and> lower s \<noteq> source_ip plan then segments_reverse plan else segments_forward plan)"

text \<open>
  C27: a frame is emitted exactly where it belongs. The copies of a frame of a planned flow, a
  whole Ethernet header provided, are one for each segment of the path, in order and each reframed
  for its segment: those of the reverse path if the frame's source address is not the one of the
  flow's source, those of the forward path otherwise. A frame without a plan is emitted unchanged,
  exactly once on the span of each zone that the index has for its network addresses, source or
  destination, or, if it has none for these, for its Ethernet addresses, and nowhere else. The plan
  and the zone index stay as they are.
\<close>

theorem route_where_it_belongs:
  assumes "route dis r p flow_id = Inr (out, r')"
  shows "flow_plans r' = flow_plans r \<and> ip_to_zone r' = ip_to_zone r \<and> mac_to_zone r' = mac_to_zone r
    \<and> (case planned r flow_id of
         Some plan \<Rightarrow>
           (if length p < 14 then out = []
            else map fst out = map span_of (planned_segments dis p plan)
              \<and> list_all2 (\<lambda>s x. reframe p s = Inr (Some (snd x))) (planned_segments dis p plan) out)
       | None \<Rightarrow> distinct (map fst out) \<and> set out = {(''zone:'' @ z, p) |z. belongs dis r p z})"
proof (cases "planned r flow_id")
  case None
  then have eq: "route_unplanned dis r p flow_id = (out, r')"
    using assms by (simp add: route_def planned_def)
  have "distinct (map fst (map (\<lambda>z. (''zone:'' @ z, p)) (sort (remdups zs))))" for zs
    by (simp add: distinct_map comp_def inj_on_def)
  moreover have "{(''zone:'' @ z, p) |z. belongs dis r p z} = (\<lambda>z. (''zone:'' @ z, p)) ` set (frame_zones dis r p)"
    by (auto simp: frame_zones_belongs)
  ultimately show ?thesis
    using None eq by (auto simp: route_unplanned_def Let_def split: if_splits)
next
  case (Some plan)
  have segs: "(if is_forward dis p plan then segments_forward plan else segments_reverse plan) = planned_segments dis p plan"
    by (simp add: is_forward_def planned_segments_def split: option.split)
  with Some have "r' = r" and out: "reframe_all p (planned_segments dis p plan) = Inr out"
    using assms by (simp_all add: route_def planned_def route_planned_def res_simps)
  with Some reframe_all_spans [OF out] show ?thesis by auto
qed

definition demo_router :: router where
  "demo_router = \<lparr>flow_plans = [(''f1'', \<lparr>source_ip = ''10.0.0.1'', segments_forward = [demo_seg], segments_reverse = []\<rparr>)],
     ip_to_zone = [(''10.0.0.1'', ''cell1''), (''10.0.0.2'', ''cell2'')], mac_to_zone = [], unplanned_logged = []\<rparr>"

definition demo_dissector :: dissector where
  "demo_dissector = \<lparr>l3_src = (\<lambda>_. Some ''10.0.0.1''),
     eth_view = (\<lambda>_. Some \<lparr>arp_ips = None, ip_addrs = Some (''10.0.0.1'', ''10.0.0.2''), eth_macs = (None, None)\<rparr>)\<rparr>"

lemma demo_lower_ips: "lower ''10.0.0.1'' = ''10.0.0.1''" "lower ''10.0.0.2'' = ''10.0.0.2''"
  by (simp_all add: lower_def lower_char_def)

lemma demo_belongs: "belongs demo_dissector demo_router p z \<longleftrightarrow> z = ''cell1'' \<or> z = ''cell2''"
  by (auto simp: belongs_def indexed_def network_ends_def demo_dissector_def demo_router_def demo_lower_ips)

lemma demo_unplanned: "\<exists>out r'. route demo_dissector demo_router [1, 2] None = Inr (out, r')"
  by (simp add: route_def)

theorem route_where_it_belongs_witness:
  "\<exists>out r'. route demo_dissector demo_router [1, 2] None = Inr (out, r')
     \<and> distinct (map fst out) \<and> set out = {(''zone:cell1'', [1, 2]), (''zone:cell2'', [1, 2])}"
proof -
  obtain out r' where r: "route demo_dissector demo_router [1, 2] None = Inr (out, r')" using demo_unplanned by blast
  have "distinct (map fst out)" "set out = {(''zone:'' @ z, [1, 2]) |z. belongs demo_dissector demo_router [1, 2] z}"
    using route_where_it_belongs [OF r] by (simp_all add: planned_def)
  moreover have "{(''zone:'' @ z, [1, 2 :: byte]) |z. belongs demo_dissector demo_router [1, 2] z}
      = {(''zone:cell1'', [1, 2]), (''zone:cell2'', [1, 2])}"
    by (auto simp: demo_belongs)
  ultimately show ?thesis using r by auto
qed

end
