(* ===== verification/Planner.thy ===== *)
theory Planner
  imports PyValue Topology
begin

text \<open>
  \<open>plan_segments\<close> of \<open>backend/app/services/topology_planner.py\<close>: for every flow of a scenario
  definition the ordered list of SPAN segments it crosses, with the addresses, the VLAN tag and
  the TTL change on each, and the index of endpoints for frames without a plan.

  The definition is any JSON value.  The core switch with its SVIs (\<open>derive_topology\<close>) is part of
  the plan that comes in.  A span is \<open>CoreSpan\<close> or \<open>ZoneSpan z\<close> for the string \<open>zone:z\<close>;
  \<open>span_id\<close> writes it out when the zone id is a string.  The messages of the issues are left
  out.
\<close>

section \<open>The plan\<close>

datatype span = ZoneSpan pyval | CoreSpan

record segment =
  sg_span :: span
  sg_src_mac :: string
  sg_dst_mac :: string
  sg_vlan :: "int option"
  sg_ttl_delta :: int

record flow_path =
  cross_zone :: bool
  source_zone :: pyval
  target_zone :: pyval
  path_source_ip :: string
  path_target_ip :: string
  path_forward :: "segment list"
  path_reverse :: "segment list"

record svi =
  svi_ip :: string
  svi_mac :: string
  svi_vlan :: int

record issue =
  issue_code :: string
  issue_subject :: pyval

record topology_plan =
  plan_errors :: "issue list"
  plan_warnings :: "issue list"
  core_svis :: "(pyval \<times> svi) list"
  plan_paths :: "(pyval \<times> flow_path) list"
  index_ip :: "(string \<times> pyval) list"
  index_mac :: "(string \<times> pyval) list"

definition L2_ONLY_PROTOCOLS :: "string list" where
  "L2_ONLY_PROTOCOLS = [''profinet'', ''goose'', ''sv'']"

text \<open>Dicts keyed by the ids of a document, with values of any type.\<close>

definition kfind :: "pyval \<Rightarrow> (pyval \<times> 'v) list \<Rightarrow> 'v option" where
  "kfind k d = map_option snd (find (\<lambda>kv. py_eq k (fst kv)) d)"

fun kput :: "pyval \<Rightarrow> 'v \<Rightarrow> (pyval \<times> 'v) list \<Rightarrow> (pyval \<times> 'v) list" where
  "kput k v [] = [(k, v)]"
| "kput k v ((k', v') # d) = (if py_eq k k' then (k', v) # d else (k', v') # kput k v d)"

section \<open>Reading the definition\<close>

fun planner_dict :: "pyval \<Rightarrow> odict res" where
  "planner_dict (PDict d) = Inr (oitems d)"
| "planner_dict (PList items) =
     foldM (\<lambda>out item.
         case item of
           PDict d \<Rightarrow> (let i = pd_get d ''id'' PNone in if truthy i then oupdate i item out else Inr out)
         | _ \<Rightarrow> Inr out)
       [] items"
| "planner_dict _ = Inr []"

definition member_ids :: "pyval \<Rightarrow> pyval res" where
  "member_ids zone =
     bnd (py_get zone ''device_ids'' (PList [])) (\<lambda>dflt.
     bnd (py_get zone ''deviceIds'' dflt) (\<lambda>m. Inr (py_or m (PList []))))"

fun claim_members :: "pyval \<Rightarrow> pyval list \<Rightarrow> odict \<Rightarrow> pyval list res" where
  "claim_members device_id claimed [] = Inr claimed"
| "claim_members device_id claimed ((zid, zone) # zs) =
     bnd (member_ids zone) (\<lambda>ms.
     bnd (py_in device_id ms) (\<lambda>found.
     claim_members device_id
       (if found \<and> \<not> list_ex (py_eq zid) claimed then claimed @ [zid] else claimed) zs))"

definition device_zone :: "pyval \<Rightarrow> pyval \<Rightarrow> odict \<Rightarrow> pyval list res" where
  "device_zone device_id device zones =
     bnd (get_first device [''zoneId'', ''zone_id'', ''zone'']) (\<lambda>own.
     bnd (if truthy own then bnd (olookup own zones) (\<lambda>z. Inr (z \<noteq> None)) else Inr False) (\<lambda>known.
     claim_members device_id (if known then [own] else []) zones))"

text \<open>\<open>(d.get(k) or "").lower()\<close>\<close>

fun lower_of :: "pyval \<Rightarrow> string res" where
  "lower_of (PStr s) = Inr (lower s)"
| "lower_of _ = Inl AttributeError"

definition text_field :: "pyval \<Rightarrow> string \<Rightarrow> string res" where
  "text_field d k = bnd (py_get d k PNone) (\<lambda>v. lower_of (py_or v (PStr [])))"

definition network_of :: "pyval \<Rightarrow> pyval res" where
  "network_of device = bnd (py_get device ''network'' PNone) (\<lambda>n. Inr (py_or n (PDict [])))"

section \<open>The endpoint index\<close>

record endpoint_state =
  zone_of_device :: "(pyval \<times> pyval) list"
  ips :: "(string \<times> pyval) list"
  macs :: "(string \<times> pyval) list"

definition index_device :: "odict \<Rightarrow> endpoint_state \<Rightarrow> pyval \<times> pyval \<Rightarrow> endpoint_state res" where
  "index_device zones st dev =
     bnd (device_zone (fst dev) (snd dev) zones) (\<lambda>claimed.
     case claimed of
       [z] \<Rightarrow>
         bnd (network_of (snd dev)) (\<lambda>net.
         bnd (text_field net ''ipAddress'') (\<lambda>ip.
         bnd (text_field net ''macAddress'') (\<lambda>mac.
         Inr (st\<lparr>zone_of_device := kput (fst dev) z (zone_of_device st),
                 ips := (if ip = [] then ips st else dset ip z (ips st)),
                 macs := (if mac = [] then macs st else dset mac z (macs st))\<rparr>))))
     | _ \<Rightarrow> Inr st)"

section \<open>The segments of a flow\<close>

definition segment_at :: "span \<Rightarrow> string \<Rightarrow> string \<Rightarrow> int option \<Rightarrow> int \<Rightarrow> segment" where
  "segment_at sp s d v ttl = \<lparr>sg_span = sp, sg_src_mac = s, sg_dst_mac = d, sg_vlan = v, sg_ttl_delta = ttl\<rparr>"

definition intra_path :: "pyval \<Rightarrow> string \<Rightarrow> string \<Rightarrow> string \<Rightarrow> string \<Rightarrow> flow_path" where
  "intra_path z src_mac dst_mac src_ip dst_ip =
     \<lparr>cross_zone = False, source_zone = z, target_zone = z, path_source_ip = src_ip, path_target_ip = dst_ip,
      path_forward = [segment_at (ZoneSpan z) src_mac dst_mac None 0],
      path_reverse = [segment_at (ZoneSpan z) dst_mac src_mac None 0]\<rparr>"

definition cross_path ::
    "pyval \<Rightarrow> pyval \<Rightarrow> svi \<Rightarrow> svi \<Rightarrow> string \<Rightarrow> string \<Rightarrow> string \<Rightarrow> string \<Rightarrow> flow_path" where
  "cross_path za zb svi_a svi_b src_mac dst_mac src_ip dst_ip =
     (let vlan_a = Some (svi_vlan svi_a); vlan_b = Some (svi_vlan svi_b)
      in \<lparr>cross_zone = True, source_zone = za, target_zone = zb, path_source_ip = src_ip, path_target_ip = dst_ip,
          path_forward =
            [segment_at (ZoneSpan za) src_mac (svi_mac svi_a) vlan_a 0,
             segment_at CoreSpan src_mac (svi_mac svi_a) vlan_a 0,
             segment_at CoreSpan (svi_mac svi_b) dst_mac vlan_b (- 1),
             segment_at (ZoneSpan zb) (svi_mac svi_b) dst_mac vlan_b (- 1)],
          path_reverse =
            [segment_at (ZoneSpan zb) dst_mac (svi_mac svi_b) vlan_b 0,
             segment_at CoreSpan dst_mac (svi_mac svi_b) vlan_b 0,
             segment_at CoreSpan (svi_mac svi_a) src_mac vlan_a (- 1),
             segment_at (ZoneSpan za) (svi_mac svi_a) src_mac vlan_a (- 1)]\<rparr>)"

definition warn :: "string \<Rightarrow> pyval \<Rightarrow> topology_plan \<Rightarrow> topology_plan" where
  "warn c i p = p\<lparr>plan_warnings := plan_warnings p @ [\<lparr>issue_code = c, issue_subject = i\<rparr>]\<rparr>"

definition fail_with :: "string \<Rightarrow> pyval \<Rightarrow> topology_plan \<Rightarrow> topology_plan" where
  "fail_with c i p = p\<lparr>plan_errors := plan_errors p @ [\<lparr>issue_code = c, issue_subject = i\<rparr>]\<rparr>"

definition add_path :: "pyval \<Rightarrow> flow_path \<Rightarrow> topology_plan \<Rightarrow> topology_plan" where
  "add_path i path p = p\<lparr>plan_paths := kput i path (plan_paths p)\<rparr>"

definition svi_at :: "pyval \<Rightarrow> topology_plan \<Rightarrow> svi res" where
  "svi_at z p = (case kfind z (core_svis p) of Some s \<Rightarrow> Inr s | None \<Rightarrow> Inl KeyError)"

definition plan_route ::
    "pyval \<Rightarrow> string \<Rightarrow> pyval \<Rightarrow> pyval \<Rightarrow> string \<Rightarrow> string \<Rightarrow> string \<Rightarrow> string \<Rightarrow> topology_plan \<Rightarrow> topology_plan res" where
  "plan_route flow_id protocol src_zone dst_zone src_mac dst_mac src_ip dst_ip p =
     (if py_eq src_zone dst_zone then
        Inr (add_path flow_id (intra_path src_zone src_mac dst_mac src_ip dst_ip) p)
      else if protocol \<in> set L2_ONLY_PROTOCOLS then Inr (fail_with ''L2_CROSS_ZONE'' flow_id p)
      else
        bnd (svi_at src_zone p) (\<lambda>svi_a.
        bnd (svi_at dst_zone p) (\<lambda>svi_b.
        Inr (add_path flow_id (cross_path src_zone dst_zone svi_a svi_b src_mac dst_mac src_ip dst_ip) p))))"

definition found_truthy :: "pyval option \<Rightarrow> bool" where
  "found_truthy v = (case v of Some x \<Rightarrow> truthy x | None \<Rightarrow> False)"

definition plan_flow ::
    "odict \<Rightarrow> (pyval \<times> pyval) list \<Rightarrow> topology_plan \<Rightarrow> pyval \<times> pyval \<Rightarrow> topology_plan res" where
  "plan_flow devices zone_ids p fl =
     (let flow_id = fst fl; flow = snd fl
      in bnd (get_first flow [''sourceDeviceId'', ''source_device_id'']) (\<lambda>src_id.
         bnd (get_first flow [''targetDeviceId'', ''target_device_id'']) (\<lambda>dst_id.
         bnd (text_field flow ''protocol'') (\<lambda>protocol.
         bnd (olookup src_id devices) (\<lambda>src.
         bnd (olookup dst_id devices) (\<lambda>dst.
         if \<not> found_truthy src \<or> \<not> found_truthy dst then Inr (warn ''UNKNOWN_FLOW_ENDPOINT'' flow_id p)
         else
           bnd (network_of (the src)) (\<lambda>src_net.
           bnd (network_of (the dst)) (\<lambda>dst_net.
           bnd (text_field src_net ''macAddress'') (\<lambda>src_mac.
           bnd (text_field dst_net ''macAddress'') (\<lambda>dst_mac.
           bnd (text_field src_net ''ipAddress'') (\<lambda>src_ip.
           bnd (text_field dst_net ''ipAddress'') (\<lambda>dst_ip.
           if src_mac = [] \<or> dst_mac = [] then Inr (warn ''DEVICE_MISSING_NET'' flow_id p)
           else
             case (kfind src_id zone_ids, kfind dst_id zone_ids) of
               (Some src_zone, Some dst_zone) \<Rightarrow>
                 plan_route flow_id protocol src_zone dst_zone src_mac dst_mac src_ip dst_ip p
             | _ \<Rightarrow> Inr p))))))))))))"

definition plan_segments :: "pydict \<Rightarrow> topology_plan \<Rightarrow> topology_plan res" where
  "plan_segments defn p =
     (if plan_errors p \<noteq> [] then Inr p
      else
        bnd (planner_dict (pd_get defn ''zones'' PNone)) (\<lambda>zones.
        bnd (planner_dict (pd_get defn ''devices'' PNone)) (\<lambda>devices.
        bnd (planner_dict (pd_get defn ''flows'' PNone)) (\<lambda>flows.
        bnd (foldM (index_device zones) \<lparr>zone_of_device = [], ips = index_ip p, macs = index_mac p\<rparr> devices) (\<lambda>st.
        foldM (plan_flow devices (zone_of_device st)) (p\<lparr>index_ip := ips st, index_mac := macs st\<rparr>) flows)))))"

section \<open>The plan as the router reads it\<close>

fun span_id :: "span \<Rightarrow> string option" where
  "span_id CoreSpan = Some ''core''"
| "span_id (ZoneSpan (PStr z)) = Some (''zone:'' @ z)"
| "span_id _ = None"

definition router_seg :: "segment \<Rightarrow> seg" where
  "router_seg s = \<lparr>span_of = (case span_id (sg_span s) of Some i \<Rightarrow> i | None \<Rightarrow> []), ttl_delta = sg_ttl_delta s,
     seg_dst_mac = sg_dst_mac s, seg_src_mac = sg_src_mac s, vlan = sg_vlan s\<rparr>"

definition router_plan :: "flow_path \<Rightarrow> flow_plan" where
  "router_plan path = \<lparr>source_ip = path_source_ip path, segments_forward = map router_seg (path_forward path),
     segments_reverse = map router_seg (path_reverse path)\<rparr>"

section \<open>What a plan promises\<close>

text \<open>
  A path joins the two ends of a flow: it goes from the zone of the source device to that of the
  target device, is within one zone exactly when these are the same, and carries the addresses of
  the two devices.  \<open>in_zone i z\<close> says that the device \<open>i\<close> is in the zone \<open>z\<close>.
\<close>

definition device_at :: "odict \<Rightarrow> pyval \<Rightarrow> string \<Rightarrow> string \<Rightarrow> bool" where
  "device_at devices i mac addr \<longleftrightarrow>
     (\<exists>d net. olookup i devices = Inr (Some d) \<and> network_of d = Inr net
        \<and> text_field net ''macAddress'' = Inr mac \<and> text_field net ''ipAddress'' = Inr addr)"

definition joins :: "odict \<Rightarrow> (pyval \<Rightarrow> pyval \<Rightarrow> bool) \<Rightarrow> pyval \<Rightarrow> flow_path \<Rightarrow> bool" where
  "joins devices in_zone flow path \<longleftrightarrow>
     (\<exists>i j zb. get_first flow [''sourceDeviceId'', ''source_device_id''] = Inr i
        \<and> get_first flow [''targetDeviceId'', ''target_device_id''] = Inr j
        \<and> in_zone i (source_zone path) \<and> in_zone j zb
        \<and> (cross_zone path \<longleftrightarrow> \<not> py_eq (source_zone path) zb)
        \<and> target_zone path = (if cross_zone path then zb else source_zone path)
        \<and> device_at devices i (sg_src_mac (hd (path_forward path))) (path_source_ip path)
        \<and> device_at devices j (sg_dst_mac (last (path_forward path))) (path_target_ip path))"

lemma joins_mono: "joins devices P flow path \<Longrightarrow> (\<And>i z. P i z \<Longrightarrow> Q i z) \<Longrightarrow> joins devices Q flow path"
  unfolding joins_def by blast

text \<open>
  The abstract specification of one flow: it is left out, refused, or gets the path between the
  zones of its two devices.
\<close>

inductive plan_step :: "odict \<Rightarrow> (pyval \<times> pyval) list \<Rightarrow> pyval \<times> pyval \<Rightarrow> topology_plan \<Rightarrow> topology_plan \<Rightarrow> bool"
  for devices zone_ids where
  skipped: "plan_step devices zone_ids fl p p"
| warned: "plan_step devices zone_ids fl p (warn c (fst fl) p)"
| refused: "text_field (snd fl) ''protocol'' = Inr pr \<Longrightarrow> pr \<in> set L2_ONLY_PROTOCOLS \<Longrightarrow>
    plan_step devices zone_ids fl p (fail_with ''L2_CROSS_ZONE'' (fst fl) p)"
| intra: "joins devices (\<lambda>i z. kfind i zone_ids = Some z) (snd fl) (intra_path z sm dm si di) \<Longrightarrow>
    plan_step devices zone_ids fl p (add_path (fst fl) (intra_path z sm dm si di) p)"
| cross: "text_field (snd fl) ''protocol'' = Inr pr \<Longrightarrow> pr \<notin> set L2_ONLY_PROTOCOLS \<Longrightarrow>
    kfind za (core_svis p) = Some sa \<Longrightarrow> kfind zb (core_svis p) = Some sb \<Longrightarrow>
    joins devices (\<lambda>i z. kfind i zone_ids = Some z) (snd fl) (cross_path za zb sa sb sm dm si di) \<Longrightarrow>
    plan_step devices zone_ids fl p (add_path (fst fl) (cross_path za zb sa sb sm dm si di) p)"

lemma svi_at_Inr [simp]: "svi_at z p = Inr s \<longleftrightarrow> kfind z (core_svis p) = Some s"
  by (simp add: svi_at_def split: option.split)

lemma path_ends [simp]:
  "source_zone (intra_path z sm dm si di) = z" "target_zone (intra_path z sm dm si di) = z"
  "path_source_ip (intra_path z sm dm si di) = si" "path_target_ip (intra_path z sm dm si di) = di"
  "sg_src_mac (hd (path_forward (intra_path z sm dm si di))) = sm"
  "sg_dst_mac (last (path_forward (intra_path z sm dm si di))) = dm"
  "source_zone (cross_path za zb sa sb sm dm si di) = za" "target_zone (cross_path za zb sa sb sm dm si di) = zb"
  "path_source_ip (cross_path za zb sa sb sm dm si di) = si" "path_target_ip (cross_path za zb sa sb sm dm si di) = di"
  "sg_src_mac (hd (path_forward (cross_path za zb sa sb sm dm si di))) = sm"
  "sg_dst_mac (last (path_forward (cross_path za zb sa sb sm dm si di))) = dm"
  by (simp_all add: intra_path_def cross_path_def segment_at_def Let_def)

lemma cross_zone_paths [simp]:
  "\<not> cross_zone (intra_path z sm dm si di)" "cross_zone (cross_path za zb sa sb sm dm si di)"
  by (simp_all add: intra_path_def cross_path_def Let_def)

lemma plan_route_step:
  assumes "plan_route (fst fl) pr za zb sm dm si di p = Inr p'" and "text_field (snd fl) ''protocol'' = Inr pr"
    and "get_first (snd fl) [''sourceDeviceId'', ''source_device_id''] = Inr i"
    and "get_first (snd fl) [''targetDeviceId'', ''target_device_id''] = Inr j"
    and "kfind i zone_ids = Some za" "kfind j zone_ids = Some zb" "device_at devices i sm si" "device_at devices j dm di"
  shows "plan_step devices zone_ids fl p p'"
proof -
  have "joins devices (\<lambda>i z. kfind i zone_ids = Some z) (snd fl) (intra_path za sm dm si di)" if "py_eq za zb"
    unfolding joins_def by (rule exI [of _ i], rule exI [of _ j], rule exI [of _ zb]) (use assms that in \<open>simp del: get_first.simps\<close>)
  moreover have "joins devices (\<lambda>i z. kfind i zone_ids = Some z) (snd fl) (cross_path za zb sa sb sm dm si di)" if "\<not> py_eq za zb" for sa sb
    unfolding joins_def by (rule exI [of _ i], rule exI [of _ j], rule exI [of _ zb]) (use assms that in \<open>simp del: get_first.simps\<close>)
  ultimately show ?thesis
    using assms(1,2) by (auto simp: plan_route_def res_simps intro: plan_step.intros split: if_splits)
qed

lemma plan_flow_step:
  assumes "plan_flow devices zone_ids p fl = Inr p'"
  shows "plan_step devices zone_ids fl p p'"
proof -
  obtain i j pr a b where k: "get_first (snd fl) [''sourceDeviceId'', ''source_device_id''] = Inr i"
      "get_first (snd fl) [''targetDeviceId'', ''target_device_id''] = Inr j" "text_field (snd fl) ''protocol'' = Inr pr"
      "olookup i devices = Inr a" "olookup j devices = Inr b"
    using assms unfolding plan_flow_def Let_def by (simp only: res_simps) blast
  note run = assms [unfolded plan_flow_def Let_def k bnd.simps]
  show ?thesis
  proof (cases "\<not> found_truthy a \<or> \<not> found_truthy b")
    case True
    then show ?thesis using run by (auto intro: plan_step.warned)
  next
    case False
    then obtain s t where st: "a = Some s" "b = Some t" by (auto simp: found_truthy_def split: option.splits)
    note run = run [unfolded st option.sel, folded st, unfolded if_not_P [OF False]]
    obtain sn dn sm dm si di where n: "network_of s = Inr sn" "network_of t = Inr dn" "text_field sn ''macAddress'' = Inr sm"
        "text_field dn ''macAddress'' = Inr dm" "text_field sn ''ipAddress'' = Inr si" "text_field dn ''ipAddress'' = Inr di"
      using run by (simp only: res_simps) blast
    have d: "device_at devices i sm si" "device_at devices j dm di" using k(4,5) n st by (auto simp: device_at_def)
    note run = run [unfolded n bnd.simps]
    show ?thesis
    proof (cases "kfind i zone_ids = None \<or> kfind j zone_ids = None")
      case True
      then show ?thesis using run by (auto split: if_splits option.splits intro: plan_step.skipped plan_step.warned)
    next
      case False
      then obtain za zb where "kfind i zone_ids = Some za" "kfind j zone_ids = Some zb" by auto
      with run plan_route_step [OF _ k(3,1,2) this d] show ?thesis by (auto split: if_splits intro: plan_step.warned)
    qed
  qed
qed

text \<open>
  The reverse segments of a path show the same link from the other side: the spans and tags in
  the opposite order and the two addresses swapped.
\<close>

definition mirrored :: "segment \<Rightarrow> segment \<Rightarrow> bool" where
  "mirrored f r \<longleftrightarrow> sg_span r = sg_span f \<and> sg_vlan r = sg_vlan f
     \<and> sg_src_mac r = sg_dst_mac f \<and> sg_dst_mac r = sg_src_mac f"

text \<open>The spans and the TTL changes of a path in one direction, from zone \<open>a\<close> to zone \<open>b\<close>.\<close>

definition hops :: "bool \<Rightarrow> pyval \<Rightarrow> pyval \<Rightarrow> (span \<times> int) list" where
  "hops crossing a b =
     (if crossing then [(ZoneSpan a, 0), (CoreSpan, 0), (CoreSpan, - 1), (ZoneSpan b, - 1)] else [(ZoneSpan a, 0)])"

definition seg_hop :: "segment \<Rightarrow> span \<times> int" where
  "seg_hop s = (sg_span s, sg_ttl_delta s)"

text \<open>A tagged copy is on the link of the core's interface for its VLAN.\<close>

definition on_interface :: "(pyval \<times> svi) list \<Rightarrow> segment \<Rightarrow> bool" where
  "on_interface svis s \<longleftrightarrow>
     (case sg_vlan s of
        None \<Rightarrow> True
      | Some v \<Rightarrow> \<exists>z svi. kfind z svis = Some svi \<and> svi_vlan svi = v \<and> svi_mac svi \<in> {sg_src_mac s, sg_dst_mac s}
                    \<and> sg_span s \<in> {CoreSpan, ZoneSpan z})"

definition path_ok :: "(pyval \<times> svi) list \<Rightarrow> flow_path \<Rightarrow> bool" where
  "path_ok svis path \<longleftrightarrow>
     map seg_hop (path_forward path) = hops (cross_zone path) (source_zone path) (target_zone path)
     \<and> map seg_hop (path_reverse path) = hops (cross_zone path) (target_zone path) (source_zone path)
     \<and> list_all2 mirrored (path_forward path) (rev (path_reverse path))
     \<and> list_all (on_interface svis) (path_forward path)
     \<and> (cross_zone path \<longleftrightarrow> None \<notin> sg_vlan ` set (path_forward path))"

lemmas path_defs = path_ok_def seg_hop_def hops_def mirrored_def on_interface_def segment_at_def

lemma intra_path_ok: "path_ok svis (intra_path z sm dm si di)"
  by (simp add: path_defs intra_path_def)

lemma cross_path_ok:
  "kfind za svis = Some sa \<Longrightarrow> kfind zb svis = Some sb \<Longrightarrow> path_ok svis (cross_path za zb sa sb sm dm si di)"
  by (auto simp: path_defs cross_path_def Let_def)

lemma kput_mem: "kv \<in> set (kput k v d) \<Longrightarrow> kv \<in> set d \<or> snd kv = v \<and> (fst kv = k \<or> py_eq k (fst kv))"
  by (induction k v d rule: kput.induct) (auto split: if_splits)

lemma plan_simps [simp]:
  "core_svis (warn c i p) = core_svis p" "plan_paths (warn c i p) = plan_paths p" "plan_errors (warn c i p) = plan_errors p"
  "core_svis (fail_with c i p) = core_svis p" "plan_paths (fail_with c i p) = plan_paths p"
  "plan_errors (fail_with c i p) = plan_errors p @ [\<lparr>issue_code = c, issue_subject = i\<rparr>]"
  "core_svis (add_path i path p) = core_svis p" "plan_paths (add_path i path p) = kput i path (plan_paths p)"
  "plan_errors (add_path i path p) = plan_errors p"
  by (simp_all add: warn_def fail_with_def add_path_def)

text \<open>
  The invariant of the loop over the flows; \<open>in_zone\<close> says where the devices are.
\<close>

definition plan_inv :: "odict \<Rightarrow> (pyval \<Rightarrow> pyval \<Rightarrow> bool) \<Rightarrow> odict \<Rightarrow> (pyval \<times> svi) list \<Rightarrow> topology_plan \<Rightarrow> bool" where
  "plan_inv devices in_zone flows svis p \<longleftrightarrow> core_svis p = svis
     \<and> (\<forall>kp \<in> set (plan_paths p). path_ok svis (snd kp)
          \<and> (\<exists>fl \<in> set flows. (fst kp = fst fl \<or> py_eq (fst fl) (fst kp)) \<and> joins devices in_zone (snd fl) (snd kp)
               \<and> (cross_zone (snd kp) \<longrightarrow>
                    (\<exists>pr. text_field (snd fl) ''protocol'' = Inr pr \<and> pr \<notin> set L2_ONLY_PROTOCOLS))))
     \<and> (\<forall>e \<in> set (plan_errors p). issue_code e = ''L2_CROSS_ZONE''
          \<and> (\<exists>fl \<in> set flows. issue_subject e = fst fl
               \<and> (\<exists>pr. text_field (snd fl) ''protocol'' = Inr pr \<and> pr \<in> set L2_ONLY_PROTOCOLS)))"

lemma plan_inv_add:
  assumes "plan_inv devices in_zone flows svis p" and "fl \<in> set flows" and "path_ok svis path" and "joins devices in_zone (snd fl) path"
    and "cross_zone path \<Longrightarrow> \<exists>pr. text_field (snd fl) ''protocol'' = Inr pr \<and> pr \<notin> set L2_ONLY_PROTOCOLS"
  shows "plan_inv devices in_zone flows svis (add_path (fst fl) path p)"
  unfolding plan_inv_def
proof (intro conjI ballI)
  fix kp assume "kp \<in> set (plan_paths (add_path (fst fl) path p))"
  then have "kp \<in> set (plan_paths p) \<or> snd kp = path \<and> (fst kp = fst fl \<or> py_eq (fst fl) (fst kp))"
    by (auto dest: kput_mem)
  with assms show "path_ok svis (snd kp)"
    "\<exists>fl \<in> set flows. (fst kp = fst fl \<or> py_eq (fst fl) (fst kp)) \<and> joins devices in_zone (snd fl) (snd kp) \<and> (cross_zone (snd kp) \<longrightarrow>
       (\<exists>pr. text_field (snd fl) ''protocol'' = Inr pr \<and> pr \<notin> set L2_ONLY_PROTOCOLS))"
    by (auto simp: plan_inv_def)
qed (use assms(1) in \<open>auto simp: plan_inv_def\<close>)

lemma plan_step_inv:
  assumes "plan_step devices zone_ids fl p p'" and "fl \<in> set flows"
    and "plan_inv devices (\<lambda>i z. kfind i zone_ids = Some z) flows svis p"
  shows "plan_inv devices (\<lambda>i z. kfind i zone_ids = Some z) flows svis p'"
  using assms
proof cases
  case intra
  with assms(2,3) show ?thesis
    by (auto intro!: plan_inv_add intra_path_ok)
next
  case (cross pr za sa zb sb sm dm si di)
  moreover have "core_svis p = svis" using assms(3) by (simp add: plan_inv_def)
  ultimately show ?thesis
    using assms(2,3) by (auto intro!: plan_inv_add cross_path_ok)
qed (auto simp: plan_inv_def)

text \<open>
  Where a device is: in the zone that alone claims it, by the device's own field or by the list of
  members of the zone.
\<close>

definition placed_in :: "odict \<Rightarrow> odict \<Rightarrow> pyval \<Rightarrow> pyval \<Rightarrow> bool" where
  "placed_in devices zones i z \<longleftrightarrow>
     (\<exists>dev \<in> set devices. \<exists>k. py_eq i k \<and> (k = fst dev \<or> py_eq (fst dev) k) \<and> device_zone (fst dev) (snd dev) zones = Inr [z])"

lemma kfind_mem: "kfind i d = Some z \<Longrightarrow> \<exists>k. (k, z) \<in> set d \<and> py_eq i k"
  by (induction d) (auto simp: kfind_def split: if_splits)

lemma index_device_zone:
  assumes "index_device zones st dev = Inr st'"
  shows "zone_of_device st' = zone_of_device st
    \<or> (\<exists>z. device_zone (fst dev) (snd dev) zones = Inr [z] \<and> zone_of_device st' = kput (fst dev) z (zone_of_device st))"
proof -
  obtain claimed where c: "device_zone (fst dev) (snd dev) zones = Inr claimed"
    using assms by (auto simp: index_device_def res_simps)
  consider z where "claimed = [z]" | "\<forall>z. claimed \<noteq> [z]" by blast
  then show ?thesis
  proof cases
    case 1
    then show ?thesis using assms c by (auto simp: index_device_def res_simps)
  next
    case 2
    then have "st' = st" using assms c by (cases claimed; cases "tl claimed") (auto simp: index_device_def)
    then show ?thesis by simp
  qed
qed

definition claimed_by :: "odict \<Rightarrow> odict \<Rightarrow> pyval \<times> pyval \<Rightarrow> bool" where
  "claimed_by devices zones kz \<longleftrightarrow>
     (\<exists>dev \<in> set devices. (fst kz = fst dev \<or> py_eq (fst dev) (fst kz)) \<and> device_zone (fst dev) (snd dev) zones = Inr [snd kz])"

lemma indexed_placed:
  assumes "foldM (index_device zones) st0 devices = Inr st" and "zone_of_device st0 = []" and "kfind i (zone_of_device st) = Some z"
  shows "placed_in devices zones i z"
proof -
  have "\<forall>kz \<in> set (zone_of_device st). claimed_by devices zones kz"
  proof (rule foldM_invariant [OF assms(1)])
    show "\<forall>kz \<in> set (zone_of_device st0). claimed_by devices zones kz" using assms(2) by simp
    fix s dev s' assume dev: "dev \<in> set devices" and s: "\<forall>kz \<in> set (zone_of_device s). claimed_by devices zones kz"
      and step: "index_device zones s dev = Inr s'"
    show "\<forall>kz \<in> set (zone_of_device s'). claimed_by devices zones kz"
      using index_device_zone [OF step]
    proof (elim disjE exE conjE)
      fix z assume z: "device_zone (fst dev) (snd dev) zones = Inr [z]" "zone_of_device s' = kput (fst dev) z (zone_of_device s)"
      show ?thesis
      proof
        fix kz assume "kz \<in> set (zone_of_device s')"
        then have "kz \<in> set (zone_of_device s) \<or> snd kz = z \<and> (fst kz = fst dev \<or> py_eq (fst dev) (fst kz))"
          using kput_mem z(2) by simp
        with s dev z(1) show "claimed_by devices zones kz" unfolding claimed_by_def by auto
      qed
    qed (use s in simp)
  qed
  moreover obtain k where "(k, z) \<in> set (zone_of_device st)" "py_eq i k" using kfind_mem [OF assms(3)] by blast
  ultimately have "claimed_by devices zones (k, z)" "py_eq i k" by blast+
  then show ?thesis unfolding placed_in_def claimed_by_def fst_conv snd_conv by blast
qed

lemma plan_inv_mono:
  assumes "plan_inv devices P flows svis p" and "\<And>i z. P i z \<Longrightarrow> Q i z"
  shows "plan_inv devices Q flows svis p"
proof -
  have "joins devices P flow path \<Longrightarrow> joins devices Q flow path" for flow path using joins_mono assms(2) by blast
  then show ?thesis using assms(1) unfolding plan_inv_def by blast
qed

lemma plan_segments_inv:
  assumes "plan_segments defn p = Inr p'" and "plan_errors p = []" and "plan_paths p = []"
  obtains zones devices flows where "planner_dict (pd_get defn ''zones'' PNone) = Inr zones"
    and "planner_dict (pd_get defn ''devices'' PNone) = Inr devices" and "planner_dict (pd_get defn ''flows'' PNone) = Inr flows"
    and "plan_inv devices (placed_in devices zones) flows (core_svis p) p'"
proof -
  obtain zones flows devices and st :: endpoint_state where zones: "planner_dict (pd_get defn ''zones'' PNone) = Inr zones"
    and devices: "planner_dict (pd_get defn ''devices'' PNone) = Inr devices"
    and flows: "planner_dict (pd_get defn ''flows'' PNone) = Inr flows"
    and index: "foldM (index_device zones) \<lparr>zone_of_device = [], ips = index_ip p, macs = index_mac p\<rparr> devices = Inr st"
    and run: "foldM (plan_flow devices (zone_of_device st)) (p\<lparr>index_ip := ips st, index_mac := macs st\<rparr>) flows = Inr p'"
    using assms(1,2) unfolding plan_segments_def by (simp add: res_simps) blast
  have "plan_inv devices (\<lambda>i z. kfind i (zone_of_device st) = Some z) flows (core_svis p) p'"
  proof (rule foldM_invariant [OF run])
    show "plan_inv devices (\<lambda>i z. kfind i (zone_of_device st) = Some z) flows (core_svis p) (p\<lparr>index_ip := ips st, index_mac := macs st\<rparr>)"
      using assms by (simp add: plan_inv_def)
  qed (blast dest: plan_flow_step intro: plan_step_inv)
  then have "plan_inv devices (placed_in devices zones) flows (core_svis p) p'"
    by (rule plan_inv_mono) (rule indexed_placed [OF index], simp)
  with zones devices flows that show thesis by blast
qed

section \<open>Planned frames on the wire\<close>

definition payload_of :: "bytes \<Rightarrow> bytes" where
  "payload_of f = drop (snd (frame_payload f)) f"

lemma reframe_all_payloads:
  assumes "14 \<le> length p" and "frame_payload p = (e, n)" and "\<forall>s \<in> set segs. \<exists>d m. seg_macs s d m"
  shows "\<exists>out. reframe_all p segs = Inr out \<and> map fst out = map span_of segs
    \<and> map (payload_of \<circ> snd) out = map (\<lambda>s. hop_payload s e (drop n p)) segs"
  using assms(3)
proof (induction segs)
  case (Cons s segs)
  then obtain out d m where out: "reframe_all p segs = Inr out" "map fst out = map span_of segs"
      "map (payload_of \<circ> snd) out = map (\<lambda>s. hop_payload s e (drop n p)) segs" and sm: "seg_macs s d m"
    unfolding list.set by blast
  obtain f where f: "reframe p s = Inr (Some f)" "drop (snd (frame_payload f)) f = hop_payload s e (drop n p)"
    by (rule reframe_parts [OF assms(1) sm assms(2)])
  show ?case
    by (rule exI [of _ "(span_of s, f) # out"]) (use out f in \<open>simp add: payload_of_def [symmetric] comp_def\<close>)
qed simp

definition span_name :: "span \<Rightarrow> string" where
  "span_name sp = (case span_id sp of Some i \<Rightarrow> i | None \<Rightarrow> [])"

lemma router_seg_simps [simp]: "span_of (router_seg s) = span_name (sg_span s)" "ttl_delta (router_seg s) = sg_ttl_delta s"
  by (simp_all add: router_seg_def span_name_def)

lemma mirrored_seg_macs: "mirrored f r \<Longrightarrow> seg_macs (router_seg f) d m \<Longrightarrow> seg_macs (router_seg r) m d"
  by (simp add: mirrored_def seg_macs_def router_seg_def)

lemma mirrored_all_macs:
  assumes "list_all2 mirrored fs rs" and "\<forall>s \<in> set fs. \<exists>d m. seg_macs (router_seg s) d m"
  shows "\<forall>s \<in> set rs. \<exists>d m. seg_macs (router_seg s) d m"
proof
  fix r assume "r \<in> set rs"
  then obtain f where "f \<in> set fs" "mirrored f r"
    using assms(1) by (metis in_set_conv_nth list_all2_conv_all_nth)
  with assms(2) show "\<exists>d m. seg_macs (router_seg r) d m"
    using mirrored_seg_macs by blast
qed

text \<open>The payload of an IPv4 frame with the hop's TTL.\<close>

definition hop_of :: "bytes \<Rightarrow> int \<Rightarrow> bytes" where
  "hop_of l ttl = (if ttl \<noteq> 0 \<and> 20 \<le> length l then adjust_ttl ttl l else l)"

lemma hop_payload_hop_of: "hop_payload (router_seg s) ETH_P_IP l = hop_of l (sg_ttl_delta s)"
  by (simp add: hop_payload_def hop_of_def)

lemma route_hops:
  assumes "14 \<le> length p" and "frame_payload p = (ETH_P_IP, n)"
    and "\<forall>s \<in> set segs. \<exists>d m. seg_macs (router_seg s) d m" and "map seg_hop segs = hs"
  shows "\<exists>out. reframe_all p (map router_seg segs) = Inr out \<and> map fst out = map (span_name \<circ> fst) hs
    \<and> map (payload_of \<circ> snd) out = map (hop_of (drop n p) \<circ> snd) hs"
proof -
  have "\<forall>s \<in> set (map router_seg segs). \<exists>d m. seg_macs s d m" using assms(3) by simp
  from reframe_all_payloads [OF assms(1,2) this] obtain out where
    "reframe_all p (map router_seg segs) = Inr out" "map fst out = map (span_name \<circ> sg_span) segs"
    "map (payload_of \<circ> snd) out = map (hop_of (drop n p) \<circ> sg_ttl_delta) segs"
    by (auto simp: hop_payload_hop_of comp_def)
  with assms(4) show ?thesis by (auto simp: seg_hop_def comp_def)
qed

section \<open>Properties\<close>

text \<open>
  C28: the planner's paths are sound. On a valid topology every planned path belongs to a flow of
  the definition and joins its two devices: it leads from the zone that alone claims the source
  device to the zone that alone claims the target device, with the addresses of these devices, and
  stays within a zone exactly when the two are the same. The TTL is lowered once, behind the core;
  the reverse direction is the mirror image, same spans and tags and swapped addresses; a path is
  tagged exactly when it crosses zones, and then every copy is on the link of the core's interface
  whose VLAN it carries. No flow with a layer-2 protocol gets a path across zones, and every error
  that planning adds names such a flow. The core's interfaces stay as they are.
\<close>

theorem planned_paths_sound:
  assumes "plan_segments defn p = Inr p'" and "plan_errors p = []" and "plan_paths p = []"
  shows "\<exists>zones devices flows. planner_dict (pd_get defn ''zones'' PNone) = Inr zones
    \<and> planner_dict (pd_get defn ''devices'' PNone) = Inr devices
    \<and> planner_dict (pd_get defn ''flows'' PNone) = Inr flows \<and> core_svis p' = core_svis p
    \<and> (\<forall>kp \<in> set (plan_paths p'). path_ok (core_svis p) (snd kp)
          \<and> (\<exists>fl \<in> set flows. (fst kp = fst fl \<or> py_eq (fst fl) (fst kp))
               \<and> joins devices (placed_in devices zones) (snd fl) (snd kp)
               \<and> (cross_zone (snd kp) \<longrightarrow>
                    (\<exists>pr. text_field (snd fl) ''protocol'' = Inr pr \<and> pr \<notin> set L2_ONLY_PROTOCOLS))))
    \<and> (\<forall>e \<in> set (plan_errors p'). issue_code e = ''L2_CROSS_ZONE''
          \<and> (\<exists>fl \<in> set flows. issue_subject e = fst fl
               \<and> (\<exists>pr. text_field (snd fl) ''protocol'' = Inr pr \<and> pr \<in> set L2_ONLY_PROTOCOLS)))"
proof -
  obtain zones devices flows where "planner_dict (pd_get defn ''zones'' PNone) = Inr zones"
    "planner_dict (pd_get defn ''devices'' PNone) = Inr devices" "planner_dict (pd_get defn ''flows'' PNone) = Inr flows"
    "plan_inv devices (placed_in devices zones) flows (core_svis p) p'"
    by (rule plan_segments_inv [OF assms])
  then show ?thesis unfolding plan_inv_def by blast
qed

text \<open>
  C29: a routed frame crosses the core once. The router, given a planned path, emits an IPv4 frame
  of the flow on the sender's zone, twice on the core and on the receiver's zone (within one
  zone, only there). The copies before the core carry the packet unchanged; those behind it
  differ in the octets of TTL and checksum only, with the TTL lowered by one, never to zero, and
  a header that passes the Internet checksum. In the reverse direction the zones are swapped.
\<close>

theorem planned_frame_crosses_core_once:
  assumes "plan_segments defn p = Inr p'" and "plan_errors p = []" and "plan_paths p = []"
    and "(k, path) \<in> set (plan_paths p')" and "source_zone path = PStr a" and "target_zone path = PStr b"
    and "planned r (Some i) = Some (router_plan path)"
    and "\<forall>s \<in> set (path_forward path). \<exists>d m. seg_macs (router_seg s) d m"
    and "14 \<le> length f" and "frame_payload f = (ETH_P_IP, n)"
    and "h = nat ((uint (f ! n) AND 15) * 4)" and "20 \<le> h" and "n + h \<le> length f"
  shows "\<exists>out l'. route dis r f (Some i) = Inr (out, r)
    \<and> (let l = drop n f; forward = is_forward dis f (router_plan path);
           x = ''zone:'' @ (if forward then a else b); y = ''zone:'' @ (if forward then b else a)
       in map fst out = (if cross_zone path then [x, ''core'', ''core'', y] else [x])
          \<and> map (payload_of \<circ> snd) out = (if cross_zone path then [l, l, l', l'] else [l])
          \<and> length l' = length l \<and> (\<forall>j. j \<notin> {8, 10, 11} \<longrightarrow> l' ! j = l ! j)
          \<and> ip_checksum (take h l') = 0 \<and> uint (l' ! 8) = max 1 (uint (l ! 8) - 1))"
proof -
  let ?l = "drop n f" and ?fwd = "is_forward dis f (router_plan path)"
  obtain zones devices flows where inv: "plan_inv devices (placed_in devices zones) flows (core_svis p) p'"
    by (rule plan_segments_inv [OF assms(1-3)])
  with assms(4) have ok: "path_ok (core_svis p) path"
    by (force simp: plan_inv_def)
  let ?segs = "if ?fwd then path_forward path else path_reverse path"
  let ?hops = "hops (cross_zone path) (PStr (if ?fwd then a else b)) (PStr (if ?fwd then b else a))"
  have macs: "\<forall>s \<in> set ?segs. \<exists>d m. seg_macs (router_seg s) d m"
    using ok assms(8) mirrored_all_macs [of "path_forward path" "rev (path_reverse path)"] by (simp add: path_ok_def)
  have hop: "map seg_hop ?segs = ?hops"
    using ok assms(5,6) by (simp add: path_ok_def)
  from route_hops [OF assms(9,10) macs hop] obtain out where out: "reframe_all f (map router_seg ?segs) = Inr out"
      "map fst out = map (span_name \<circ> fst) ?hops" "map (payload_of \<circ> snd) out = map (hop_of ?l \<circ> snd) ?hops"
    by blast
  have "route_planned dis f (router_plan path) = Inr out"
    using out(1) by (cases ?fwd) (simp_all add: route_planned_def router_plan_def)
  then have route: "route dis r f (Some i) = Inr (out, r)"
    using assms(7) by (simp add: route_def planned_def)
  have at: "?l ! 0 = f ! n" using assms(12,13) by simp
  have h: "h = nat ((uint (?l ! 0) AND 15) * 4)" "20 \<le> h" "h \<le> length ?l"
    using assms(11-13) at by simp_all
  note hdr = adjust_ttl_header [OF h, of "-1"]
  have "uint (?l ! 8) < 256" by simp
  then have "max 1 (uint (?l ! 8) - 1) < 256" by linarith
  then have ttl: "uint (adjust_ttl (- 1) ?l ! 8) = max 1 (uint (?l ! 8) - 1)"
    using hdr(1) by (simp add: mod_pos_pos_trivial)
  show ?thesis
    by (rule exI [of _ out], rule exI [of _ "adjust_ttl (- 1) ?l"])
      (use route out(2,3) hdr(2) ttl h in \<open>simp add: Let_def hops_def span_name_def hop_of_def adjust_ttl_octets\<close>)
qed

section \<open>A plant with two zones\<close>

definition demo_device :: "string \<Rightarrow> string \<Rightarrow> string \<Rightarrow> pyval" where
  "demo_device z i m = PDict [(''zoneId'', PStr z),
     (''network'', PDict [(''ipAddress'', PStr i), (''macAddress'', PStr m)])]"

definition demo_definition :: pydict where
  "demo_definition = [
     (''zones'', PDict [(''a'', PDict []), (''b'', PDict [])]),
     (''devices'', PDict [(''d1'', demo_device ''a'' ''10.0.0.1'' ''2:0:0:0:0:1''),
                          (''d2'', demo_device ''b'' ''10.0.0.2'' ''2:0:0:0:0:2'')]),
     (''flows'', PDict [(''f'', PDict [(''sourceDeviceId'', PStr ''d1''), (''targetDeviceId'', PStr ''d2''),
                                     (''protocol'', PStr ''Modbus'')])])]"

definition demo_svi :: "int \<Rightarrow> svi" where
  "demo_svi v = \<lparr>svi_ip = ''10.0.0.254'', svi_mac = ''2:0:0:0:0:f'', svi_vlan = v\<rparr>"

definition demo_plan :: topology_plan where
  "demo_plan = \<lparr>plan_errors = [], plan_warnings = [], core_svis = [(PStr ''a'', demo_svi 100), (PStr ''b'', demo_svi 101)],
     plan_paths = [], index_ip = [], index_mac = []\<rparr>"

definition demo_path :: flow_path where
  "demo_path = cross_path (PStr ''a'') (PStr ''b'') (demo_svi 100) (demo_svi 101)
     ''2:0:0:0:0:1'' ''2:0:0:0:0:2'' ''10.0.0.1'' ''10.0.0.2''"

definition demo_planned :: topology_plan where
  "demo_planned = demo_plan\<lparr>plan_paths := [(PStr ''f'', demo_path)],
     index_ip := [(''10.0.0.1'', PStr ''a''), (''10.0.0.2'', PStr ''b'')],
     index_mac := [(''2:0:0:0:0:1'', PStr ''a''), (''2:0:0:0:0:2'', PStr ''b'')]\<rparr>"

lemma demo_lower:
  "lower ''10.0.0.1'' = ''10.0.0.1''" "lower ''10.0.0.2'' = ''10.0.0.2''" "lower ''2:0:0:0:0:1'' = ''2:0:0:0:0:1''"
  "lower ''2:0:0:0:0:2'' = ''2:0:0:0:0:2''" "lower ''Modbus'' = ''modbus''"
  by (simp_all add: lower_def lower_char_def char_of_def bit_0)

lemma demo_plan_segments: "plan_segments demo_definition demo_plan = Inr demo_planned"
  by (simp add: plan_segments_def demo_definition_def demo_plan_def demo_planned_def demo_path_def demo_device_def
      pd_get_def oitems_def index_device_def device_zone_def olookup_def ofind_def member_ids_def py_or_def network_of_def
      text_field_def plan_flow_def found_truthy_def kfind_def plan_route_def L2_ONLY_PROTOCOLS_def add_path_def
      svi_at_def demo_lower Let_def cong: bnd_weak_cong)

theorem planned_paths_sound_witness:
  "\<exists>zones devices flows. planner_dict (pd_get demo_definition ''zones'' PNone) = Inr zones
     \<and> planner_dict (pd_get demo_definition ''devices'' PNone) = Inr devices
     \<and> planner_dict (pd_get demo_definition ''flows'' PNone) = Inr flows
     \<and> (\<exists>p'. plan_segments demo_definition demo_plan = Inr p' \<and> (PStr ''f'', demo_path) \<in> set (plan_paths p'))
     \<and> path_ok (core_svis demo_plan) demo_path
     \<and> (\<exists>fl \<in> set flows. joins devices (placed_in devices zones) (snd fl) demo_path)"
proof -
  have clean: "plan_errors demo_plan = []" "plan_paths demo_plan = []" by (simp_all add: demo_plan_def)
  have mem: "(PStr ''f'', demo_path) \<in> set (plan_paths demo_planned)" by (simp add: demo_planned_def)
  obtain zones devices flows where d: "planner_dict (pd_get demo_definition ''zones'' PNone) = Inr zones"
      "planner_dict (pd_get demo_definition ''devices'' PNone) = Inr devices" "planner_dict (pd_get demo_definition ''flows'' PNone) = Inr flows"
    and all: "\<forall>kp \<in> set (plan_paths demo_planned). path_ok (core_svis demo_plan) (snd kp)
          \<and> (\<exists>fl \<in> set flows. (fst kp = fst fl \<or> py_eq (fst fl) (fst kp)) \<and> joins devices (placed_in devices zones) (snd fl) (snd kp)
               \<and> (cross_zone (snd kp) \<longrightarrow> (\<exists>pr. text_field (snd fl) ''protocol'' = Inr pr \<and> pr \<notin> set L2_ONLY_PROTOCOLS)))"
    using planned_paths_sound [OF demo_plan_segments clean] by (elim exE conjE) (rule that)
  have "path_ok (core_svis demo_plan) demo_path" "\<exists>fl \<in> set flows. joins devices (placed_in devices zones) (snd fl) demo_path"
    using bspec [OF all mem] by auto
  with d mem demo_plan_segments show ?thesis by blast
qed

definition demo_plan_router :: router where
  "demo_plan_router = \<lparr>flow_plans = [(''f'', router_plan demo_path)], ip_to_zone = [], mac_to_zone = [], unplanned_logged = []\<rparr>"

lemma demo_macs:
  "mac_bytes ''2:0:0:0:0:1'' = Inr [2, 0, 0, 0, 0, 1]" "mac_bytes ''2:0:0:0:0:2'' = Inr [2, 0, 0, 0, 0, 2]"
  "mac_bytes ''2:0:0:0:0:f'' = Inr [2, 0, 0, 0, 0, 15]"
  by (simp_all add: mac_bytes_def int_of_hex_def hex_prefix_def hex_digit_def strip_def split_sign_def is_space_def
      cong: bnd_weak_cong)

theorem planned_frame_crosses_core_once_witness:
  "\<exists>out. route demo_dissector demo_plan_router demo_ip_frame (Some ''f'') = Inr (out, demo_plan_router)
     \<and> map fst out = [''zone:a'', ''core'', ''core'', ''zone:b'']"
proof -
  have "(PStr ''f'', demo_path) \<in> set (plan_paths demo_planned)" "plan_errors demo_plan = []" "plan_paths demo_plan = []"
    "source_zone demo_path = PStr ''a''" "target_zone demo_path = PStr ''b''" "cross_zone demo_path"
    "planned demo_plan_router (Some ''f'') = Some (router_plan demo_path)"
    by (simp_all add: demo_planned_def demo_plan_def demo_path_def cross_path_def Let_def planned_def demo_plan_router_def)
  moreover have "\<forall>s \<in> set (path_forward demo_path). \<exists>d m. seg_macs (router_seg s) d m"
    by (simp add: demo_path_def cross_path_def segment_at_def seg_macs_def router_seg_def demo_svi_def demo_macs Let_def)
  moreover have "14 \<le> length demo_ip_frame" "(20 :: nat) = nat ((uint (demo_ip_frame ! 14) AND 15) * 4)"
    "14 + 20 \<le> length demo_ip_frame"
    by (simp_all add: demo_ip_frame_def nth_append)
  moreover have "is_forward demo_dissector demo_ip_frame (router_plan demo_path)"
    by (simp add: is_forward_def demo_dissector_def router_plan_def demo_path_def cross_path_def demo_lower Let_def)
  ultimately show ?thesis
    using planned_frame_crosses_core_once [OF demo_plan_segments, where f = demo_ip_frame and h = 20 and n = 14
        and r = demo_plan_router and i = "''f''" and dis = demo_dissector and a = "''a''" and b = "''b''"
        and k = "PStr ''f''" and path = demo_path] demo_ip_frame_payload(1)
    by (auto simp: Let_def)
qed

end
