(* ===== verification/ProcessModel.thy ===== *)
theory ProcessModel
  imports Prelude FloatOps
begin

text \<open>
  The simulated physical process: \<open>variables.py\<close>, \<open>equations.py\<close>, \<open>state_machine.py\<close> and
  \<open>process_model.py\<close> of \<open>backend/app/protocol_engines/process_sim\<close> (and their verbatim copies
  under \<open>backend/app/mimic/slim/psim\<close>).

  A dict is an association list in insertion order with distinct keys.  The state machine and
  its model share one dict of variables; here the model owns it and the machine's operations
  take it and return it.  The random numbers of one step are the fields of \<open>draws\<close>:
  \<open>coin i\<close> is \<open>random.random()\<close> at the \<open>i\<close>-th transition, \<open>gauss x\<close> is
  \<open>random.gauss(0, noise_std)\<close> for the variable \<open>x\<close>.  The function of an equation is any
  function of the values; it may raise.  Numbers are floats, as the annotations say.
\<close>

section \<open>Types\<close>

datatype process_state =
    COLD_START | WARMING_UP | STEADY_STATE | LOAD_CHANGE | ALARM | MAINTENANCE | SHUTDOWN

fun state_value :: "process_state \<Rightarrow> string" where
  "state_value COLD_START = ''cold_start''"
| "state_value WARMING_UP = ''warming_up''"
| "state_value STEADY_STATE = ''steady_state''"
| "state_value LOAD_CHANGE = ''load_change''"
| "state_value ALARM = ''alarm''"
| "state_value MAINTENANCE = ''maintenance''"
| "state_value SHUTDOWN = ''shutdown''"

definition all_states :: "process_state list" where
  "all_states = [COLD_START, WARMING_UP, STEADY_STATE, LOAD_CHANGE, ALARM, MAINTENANCE, SHUTDOWN]"

text \<open>\<open>ProcessState(s)\<close>\<close>

definition process_state_of :: "string \<Rightarrow> process_state res" where
  "process_state_of s = (case find (\<lambda>st. state_value st = s) all_states of Some st \<Rightarrow> Inr st | None \<Rightarrow> Inl ValueError)"

datatype variable_role =
    TEMPERATURE | PRESSURE | FLOW_RATE | LEVEL | SPEED | POSITION | POWER | SETPOINT | VALVE_POSITION
  | STATUS | COUNTER | CONCENTRATION | LOAD | VIBRATION | HUMIDITY

record draws =
  coin :: "nat \<Rightarrow> pyfloat"
  gauss :: "string \<Rightarrow> pyfloat"

section \<open>Variables\<close>

record process_variable =
  var_name :: string
  var_role :: variable_role
  initial_value :: pyfloat
  min_value :: pyfloat
  max_value :: pyfloat
  noise_std :: pyfloat
  time_constant_s :: pyfloat
  state_setpoints :: "(string \<times> pyfloat) list"
  var_value :: pyfloat
  var_target :: pyfloat

definition post_init :: "process_variable \<Rightarrow> process_variable" where
  "post_init v = v\<lparr>var_value := initial_value v, var_target := initial_value v\<rparr>"

definition clamped :: "process_variable \<Rightarrow> pyfloat \<Rightarrow> pyfloat" where
  "clamped v x = py_max (min_value v) (py_min (max_value v) x)"

definition set_target :: "pyfloat \<Rightarrow> process_variable \<Rightarrow> process_variable" where
  "set_target x v = v\<lparr>var_target := clamped v x\<rparr>"

definition set_value :: "pyfloat \<Rightarrow> process_variable \<Rightarrow> process_variable" where
  "set_value x v = v\<lparr>var_value := clamped v x\<rparr>"

definition step_variable :: "draws \<Rightarrow> pyfloat \<Rightarrow> process_variable \<Rightarrow> process_variable res" where
  "step_variable d dt_s v =
     (if dt_s \<le> float_of_nat 0 then Inr v
      else
        bnd (if float_of_nat 0 < time_constant_s v then
               bnd (py_div dt_s (fadd (time_constant_s v) dt_s)) (\<lambda>alpha.
               Inr (fadd (var_value v) (fmul alpha (fsub (var_target v) (var_value v)))))
             else Inr (var_target v)) (\<lambda>x.
        let x = (if float_of_nat 0 < noise_std v then fadd x (gauss d (var_name v)) else x)
        in Inr (v\<lparr>var_value := clamped v x\<rparr>)))"

definition apply_state_setpoint :: "process_state \<Rightarrow> process_variable \<Rightarrow> process_variable" where
  "apply_state_setpoint st v =
     (case map_of (state_setpoints v) (state_value st) of Some x \<Rightarrow> set_target x v | None \<Rightarrow> v)"

definition reset_variable :: "process_variable \<Rightarrow> process_variable" where
  "reset_variable v = v\<lparr>var_value := initial_value v, var_target := initial_value v\<rparr>"

type_synonym var_dict = "(string \<times> process_variable) list"

text \<open>Calling a method of one variable or of all of them.\<close>

definition on_var :: "string \<Rightarrow> ('v \<Rightarrow> 'v) \<Rightarrow> (string \<times> 'v) list \<Rightarrow> (string \<times> 'v) list" where
  "on_var x f vs = map (\<lambda>(k, v). if k = x then (k, f v) else (k, v)) vs"

definition on_all :: "('v \<Rightarrow> 'v) \<Rightarrow> (string \<times> 'v) list \<Rightarrow> (string \<times> 'v) list" where
  "on_all f vs = map (\<lambda>(k, v). (k, f v)) vs"

text \<open>\<open>{v.name: v for v in variables}\<close>: a later variable of the same name takes the place.\<close>

fun dict_put :: "'k \<Rightarrow> 'v \<Rightarrow> ('k \<times> 'v) list \<Rightarrow> ('k \<times> 'v) list" where
  "dict_put k v [] = [(k, v)]"
| "dict_put k v ((k', v') # d) = (if k' = k then (k, v) # d else (k', v') # dict_put k v d)"

section \<open>Equations\<close>

record equation =
  eq_target :: string
  eq_kind :: string
  eq_func :: "(string \<times> pyfloat) list \<Rightarrow> pyfloat res"

record equation_set =
  algebraic :: "equation list"
  ode :: "equation list"

definition new_equation_set :: "equation list \<Rightarrow> equation_set" where
  "new_equation_set eqs =
     \<lparr>algebraic = filter (\<lambda>e. eq_kind e = ''algebraic'') eqs, ode = filter (\<lambda>e. eq_kind e \<noteq> ''algebraic'') eqs\<rparr>"

fun algebraic_pass ::
    "equation list \<Rightarrow> (string \<times> pyfloat) list \<Rightarrow> var_dict \<Rightarrow> ((string \<times> pyfloat) list \<times> var_dict) res" where
  "algebraic_pass [] vals vs = Inr (vals, vs)"
| "algebraic_pass (e # es) vals vs =
     bnd (eq_func e vals) (\<lambda>x.
     case map_of vs (eq_target e) of
       Some v \<Rightarrow>
         algebraic_pass es (on_var (eq_target e) (\<lambda>_. x) vals)
           (on_var (eq_target e) (set_target x) vs)
     | None \<Rightarrow> algebraic_pass es vals vs)"

fun ode_pass :: "pyfloat \<Rightarrow> equation list \<Rightarrow> (string \<times> pyfloat) list \<Rightarrow> var_dict \<Rightarrow> var_dict res" where
  "ode_pass dt_s [] vals vs = Inr vs"
| "ode_pass dt_s (e # es) vals vs =
     bnd (eq_func e vals) (\<lambda>derivative.
     case map_of vs (eq_target e) of
       Some v \<Rightarrow>
         ode_pass dt_s es vals
           (on_var (eq_target e) (set_target (fadd (var_value v) (fmul derivative dt_s))) vs)
     | None \<Rightarrow> ode_pass dt_s es vals vs)"

definition step_all :: "draws \<Rightarrow> pyfloat \<Rightarrow> var_dict \<Rightarrow> var_dict res" where
  "step_all d dt_s vs = mapM (\<lambda>(k, v). bnd (step_variable d dt_s v) (\<lambda>v. Inr (k, v))) vs"

definition step_equations :: "draws \<Rightarrow> equation_set \<Rightarrow> var_dict \<Rightarrow> pyfloat \<Rightarrow> var_dict res" where
  "step_equations d es vs dt_s =
     (if dt_s \<le> float_of_nat 0 then Inr vs
      else
        let vals = map (\<lambda>(k, v). (k, var_value v)) vs
        in bnd (algebraic_pass (algebraic es) vals vs) (\<lambda>(vals, vs).
           bnd (ode_pass dt_s (ode es) vals vs) (\<lambda>vs.
           step_all d dt_s vs)))"

section \<open>The state machine\<close>

record state_transition =
  from_state :: process_state
  to_state :: process_state
  tr_condition :: string
  duration_s :: pyfloat
  tr_variable :: string
  tr_threshold :: pyfloat
  comparison :: string
  probability :: pyfloat

record state_machine =
  current_state :: process_state
  machine_transitions :: "state_transition list"
  state_entry_time :: pyfloat

definition apply_state_setpoints :: "process_state \<Rightarrow> var_dict \<Rightarrow> var_dict" where
  "apply_state_setpoints st vs = on_all (apply_state_setpoint st) vs"

definition new_state_machine ::
    "process_state \<Rightarrow> state_transition list \<Rightarrow> var_dict \<Rightarrow> state_machine \<times> var_dict" where
  "new_state_machine st trs vs =
     (\<lparr>current_state = st, machine_transitions = trs, state_entry_time = float_of_nat 0\<rparr>, apply_state_setpoints st vs)"

definition check_condition ::
    "pyfloat \<Rightarrow> state_machine \<Rightarrow> var_dict \<Rightarrow> state_transition \<Rightarrow> pyfloat \<Rightarrow> bool" where
  "check_condition rnd sm vs tr sim_time =
     (let elapsed = fsub sim_time (state_entry_time sm)
      in if tr_condition tr = ''time'' then duration_s tr \<le> elapsed
         else if tr_condition tr = ''threshold'' then
           (case map_of vs (tr_variable tr) of
              None \<Rightarrow> False
            | Some v \<Rightarrow>
                if comparison tr = ''>'' then tr_threshold tr < var_value v
                else var_value v < tr_threshold tr)
         else if tr_condition tr = ''random'' then rnd < probability tr
         else False)"

text \<open>The first transition, counted from \<open>i\<close>, that leaves the current state and is due.\<close>

fun first_due ::
    "draws \<Rightarrow> state_machine \<Rightarrow> var_dict \<Rightarrow> pyfloat \<Rightarrow> nat \<Rightarrow> state_transition list \<Rightarrow> state_transition option" where
  "first_due d sm vs sim_time i [] = None"
| "first_due d sm vs sim_time i (tr # trs) =
     (if from_state tr \<noteq> current_state sm then first_due d sm vs sim_time (Suc i) trs
      else if check_condition (coin d i) sm vs tr sim_time then Some tr
      else first_due d sm vs sim_time (Suc i) trs)"

definition enter_state ::
    "process_state \<Rightarrow> pyfloat \<Rightarrow> state_machine \<Rightarrow> var_dict \<Rightarrow> state_machine \<times> var_dict" where
  "enter_state st sim_time sm vs =
     (sm\<lparr>current_state := st, state_entry_time := sim_time\<rparr>, apply_state_setpoints st vs)"

definition step_machine ::
    "draws \<Rightarrow> state_machine \<Rightarrow> var_dict \<Rightarrow> pyfloat \<Rightarrow> process_state option \<times> state_machine \<times> var_dict" where
  "step_machine d sm vs sim_time =
     (case first_due d sm vs sim_time 0 (machine_transitions sm) of
        Some tr \<Rightarrow> (Some (to_state tr), enter_state (to_state tr) sim_time sm vs)
      | None \<Rightarrow> (None, sm, vs))"

definition force_machine ::
    "process_state \<Rightarrow> pyfloat \<Rightarrow> state_machine \<Rightarrow> var_dict \<Rightarrow> state_machine \<times> var_dict" where
  "force_machine st sim_time sm vs =
     (if st = current_state sm then (sm, vs) else enter_state st sim_time sm vs)"

section \<open>The model\<close>

record process_model =
  model_id :: string
  variables :: var_dict
  equations :: equation_set
  machine :: state_machine
  sim_time_s :: pyfloat

definition new_process_model ::
    "string \<Rightarrow> process_variable list \<Rightarrow> equation list \<Rightarrow> state_transition list \<Rightarrow> process_state \<Rightarrow> process_model" where
  "new_process_model mid vars eqs trs st =
     (let vs = foldl (\<lambda>d v. dict_put (var_name v) v d) [] vars;
          (sm, vs) = new_state_machine st trs vs
      in \<lparr>model_id = mid, variables = vs, equations = new_equation_set eqs, machine = sm,
          sim_time_s = float_of_nat 0\<rparr>)"

definition step_model :: "draws \<Rightarrow> pyfloat \<Rightarrow> process_model \<Rightarrow> (process_state option \<times> process_model) res" where
  "step_model d dt_s m =
     (let m = m\<lparr>sim_time_s := fadd (sim_time_s m) dt_s\<rparr>;
          (new_state, sm, vs) = step_machine d (machine m) (variables m) (sim_time_s m)
      in bnd (step_equations d (equations m) vs dt_s) (\<lambda>vs.
         Inr (new_state, m\<lparr>machine := sm, variables := vs\<rparr>)))"

definition get_value :: "string \<Rightarrow> process_model \<Rightarrow> pyfloat" where
  "get_value x m = (case map_of (variables m) x of Some v \<Rightarrow> var_value v | None \<Rightarrow> float_of_nat 0)"

definition force_state :: "process_state \<Rightarrow> process_model \<Rightarrow> process_model" where
  "force_state st m =
     (let (sm, vs) = force_machine st (sim_time_s m) (machine m) (variables m)
      in m\<lparr>machine := sm, variables := vs\<rparr>)"

definition reset_model :: "process_model \<Rightarrow> process_model" where
  "reset_model m = m\<lparr>variables := on_all reset_variable (variables m), sim_time_s := float_of_nat 0\<rparr>"

section \<open>What the operations keep\<close>

text \<open>
  \<open>dict_all P d\<close>: every value of the dict satisfies \<open>P\<close>.  The collection \<open>keeps\<close> has the
  facts that an operation preserves a property of all variables.
\<close>

definition dict_all :: "('v \<Rightarrow> bool) \<Rightarrow> ('k \<times> 'v) list \<Rightarrow> bool" where
  "dict_all P d \<longleftrightarrow> (\<forall>x \<in> set d. P (snd x))"

lemma dict_all_simps [simp]: "dict_all P []" "dict_all P ((k, v) # d) \<longleftrightarrow> P v \<and> dict_all P d"
  by (simp_all add: dict_all_def)

named_theorems keeps \<open>properties of all entries of a dict that an operation preserves\<close>

lemma dict_all_on_var [keeps]: "dict_all P d \<Longrightarrow> (\<And>v. P v \<Longrightarrow> P (f v)) \<Longrightarrow> dict_all P (on_var x f d)"
  by (auto simp: dict_all_def on_var_def split: prod.splits)

lemma dict_all_on_all [keeps]: "dict_all P d \<Longrightarrow> (\<And>v. P v \<Longrightarrow> P (f v)) \<Longrightarrow> dict_all P (on_all f d)"
  by (auto simp: dict_all_def on_all_def split: prod.splits)

lemma dict_all_mapM:
  assumes "mapM (\<lambda>(k, v). bnd (f k v) (\<lambda>v. Inr (k, v))) d = Inr d'" and "dict_all P d"
    and "\<And>k v v'. P v \<Longrightarrow> f k v = Inr v' \<Longrightarrow> P v'"
  shows "dict_all P d'"
  using assms(1,2)
proof (induction d arbitrary: d')
  case (Cons a d)
  then show ?case
    using assms(3) by (cases a) (fastforce simp: dict_all_def res_simps)
qed (simp add: dict_all_def)

lemma dict_all_put: "dict_all P d \<Longrightarrow> P v \<Longrightarrow> dict_all P (dict_put k v d)"
  by (induction k v d rule: dict_put.induct) (auto simp: dict_all_def)

lemma map_of_on_var: "map_of (on_var x f d) y = (if y = x then map_option f (map_of d x) else map_of d y)"
  by (induction d) (auto simp: on_var_def)

lemma map_of_on_all: "map_of (on_all f d) y = map_option f (map_of d y)"
  by (induction d) (auto simp: on_all_def)

lemma on_var_keys [simp]: "map fst (on_var x f d) = map fst d"
  by (induction d) (auto simp: on_var_def)

lemma on_all_keys [simp]: "map fst (on_all f d) = map fst d"
  by (induction d) (auto simp: on_all_def)

section \<open>Bounds\<close>

text \<open>
  A variable is well configured when its bounds are ordered, its initial value lies between
  them, and its time constant is a binary64 value; it is in range when its value and its target
  lie between the bounds too.
\<close>

definition var_config_ok :: "process_variable \<Rightarrow> bool" where
  "var_config_ok v \<longleftrightarrow> min_value v \<le> max_value v \<and> in_bounds (min_value v) (max_value v) (initial_value v)
     \<and> f_valid (time_constant_s v)"

definition var_ok :: "process_variable \<Rightarrow> bool" where
  "var_ok v \<longleftrightarrow> var_config_ok v \<and> in_bounds (min_value v) (max_value v) (var_value v)
     \<and> in_bounds (min_value v) (max_value v) (var_target v)"

lemma set_target_ok [keeps]: "var_ok v \<Longrightarrow> var_ok (set_target x v)"
  by (simp add: var_ok_def var_config_ok_def set_target_def clamped_def clamp_within)

lemma set_value_ok [keeps]: "var_ok v \<Longrightarrow> var_ok (set_value x v)"
  by (simp add: var_ok_def var_config_ok_def set_value_def clamped_def clamp_within)

lemma reset_variable_ok [keeps]: "var_ok v \<Longrightarrow> var_ok (reset_variable v)"
  by (simp add: var_ok_def var_config_ok_def reset_variable_def)

lemma post_init_ok [keeps]: "var_config_ok v \<Longrightarrow> var_ok (post_init v)"
  by (simp add: var_ok_def var_config_ok_def post_init_def)

lemma apply_state_setpoint_ok [keeps]: "var_ok v \<Longrightarrow> var_ok (apply_state_setpoint st v)"
  by (simp add: apply_state_setpoint_def set_target_ok split: option.split)

lemma step_variable_ok: "var_ok v \<Longrightarrow> step_variable d dt v = Inr v' \<Longrightarrow> var_ok v'"
  by (auto simp: step_variable_def res_simps var_ok_def var_config_ok_def clamped_def clamp_within Let_def
      split: if_splits)

lemma retarget_ok [keeps]: "dict_all var_ok vs \<Longrightarrow> dict_all var_ok (on_var x (set_target y) vs)"
  by (intro keeps)

lemma algebraic_pass_ok:
  "algebraic_pass es vals vs = Inr (vals', vs') \<Longrightarrow> dict_all var_ok vs \<Longrightarrow> dict_all var_ok vs'"
proof (induction es arbitrary: vals vs)
  case (Cons e es)
  then obtain x where x: "eq_func e vals = Inr x" by (auto simp: res_simps)
  show ?case
  proof (cases "map_of vs (eq_target e)")
    case None
    with Cons.prems x have "algebraic_pass es vals vs = Inr (vals', vs')" by simp
    then show ?thesis using Cons.prems(2) by (rule Cons.IH)
  next
    case (Some v)
    with Cons.prems x have "algebraic_pass es (on_var (eq_target e) (\<lambda>_. x) vals)
        (on_var (eq_target e) (set_target x) vs) = Inr (vals', vs')" by simp
    then show ?thesis using retarget_ok [OF Cons.prems(2)] by (rule Cons.IH)
  qed
qed simp

lemma ode_pass_ok: "ode_pass dt es vals vs = Inr vs' \<Longrightarrow> dict_all var_ok vs \<Longrightarrow> dict_all var_ok vs'"
proof (induction es arbitrary: vs)
  case (Cons e es)
  then obtain x where x: "eq_func e vals = Inr x" by (auto simp: res_simps)
  show ?case
  proof (cases "map_of vs (eq_target e)")
    case None
    with Cons.prems x have "ode_pass dt es vals vs = Inr vs'" by simp
    then show ?thesis using Cons.prems(2) by (rule Cons.IH)
  next
    case (Some v)
    with Cons.prems x have "ode_pass dt es vals
        (on_var (eq_target e) (set_target (fadd (var_value v) (fmul x dt))) vs) = Inr vs'" by simp
    then show ?thesis using retarget_ok [OF Cons.prems(2)] by (rule Cons.IH)
  qed
qed simp

lemma step_all_ok: "step_all d dt vs = Inr vs' \<Longrightarrow> dict_all var_ok vs \<Longrightarrow> dict_all var_ok vs'"
  unfolding step_all_def by (rule dict_all_mapM) (auto intro: step_variable_ok)

lemma step_equations_ok:
  "step_equations d es vs dt = Inr vs' \<Longrightarrow> dict_all var_ok vs \<Longrightarrow> dict_all var_ok vs'"
  unfolding step_equations_def Let_def
  by (cases "dt \<le> float_of_nat 0") (simp, clarsimp simp: res_simps, metis algebraic_pass_ok ode_pass_ok step_all_ok)

lemma apply_state_setpoints_ok [keeps]: "dict_all var_ok vs \<Longrightarrow> dict_all var_ok (apply_state_setpoints st vs)"
  unfolding apply_state_setpoints_def by (intro keeps)

lemma step_machine_ok:
  "step_machine d sm vs t = (ns, sm', vs') \<Longrightarrow> dict_all var_ok vs \<Longrightarrow> dict_all var_ok vs'"
  by (auto simp: step_machine_def enter_state_def split: option.splits intro: keeps)

definition model_ok :: "process_model \<Rightarrow> bool" where
  "model_ok m \<longleftrightarrow> dict_all var_ok (variables m)"

lemma step_model_ok: "step_model d dt m = Inr (ns, m') \<Longrightarrow> model_ok m \<Longrightarrow> model_ok m'"
  by (auto simp: step_model_def model_ok_def Let_def res_simps split: prod.splits
      dest: step_machine_ok step_equations_ok)

lemma force_state_ok [keeps]: "model_ok m \<Longrightarrow> model_ok (force_state st m)"
  by (auto simp: force_state_def force_machine_def enter_state_def model_ok_def intro: keeps split: prod.splits if_splits)

lemma reset_model_ok [keeps]: "model_ok m \<Longrightarrow> model_ok (reset_model m)"
  by (simp add: model_ok_def reset_model_def keeps)

lemma new_process_model_ok [keeps]:
  assumes "\<forall>v \<in> set vars. var_config_ok v"
  shows "model_ok (new_process_model mid (map post_init vars) eqs trs st)"
proof -
  have "dict_all var_ok d \<Longrightarrow> \<forall>v \<in> set vs. var_ok v \<Longrightarrow> dict_all var_ok (foldl (\<lambda>d v. dict_put (var_name v) v d) d vs)" for d vs
    by (induction vs arbitrary: d) (auto intro: dict_all_put)
  from this [of "[]" "map post_init vars"] assms show ?thesis
    by (simp add: model_ok_def new_process_model_def new_state_machine_def Let_def keeps dict_all_def [of _ "[]"])
qed

section \<open>No step fails\<close>

text \<open>
  What a model expects of its equations, which are functions of the template: each returns on every
  dict that has the model's variables, whatever their values.  An equation that reads \<open>v["x"]\<close>
  raises a \<open>KeyError\<close> on other dicts.
\<close>

definition equations_total :: "process_model \<Rightarrow> bool" where
  "equations_total m \<longleftrightarrow>
     (\<forall>e \<in> set (algebraic (equations m)) \<union> set (ode (equations m)). \<forall>vals.
        map fst vals = map fst (variables m) \<longrightarrow> is_ok (eq_func e vals))"

text \<open>No step adds or removes a variable.\<close>

lemma algebraic_pass_keys:
  "algebraic_pass es vals vs = Inr (vals', vs') \<Longrightarrow> map fst vals' = map fst vals \<and> map fst vs' = map fst vs"
proof (induction es arbitrary: vals vs)
  case (Cons e es)
  then obtain x where x: "eq_func e vals = Inr x" by (auto simp: res_simps)
  show ?case
  proof (cases "map_of vs (eq_target e)")
    case None
    with Cons.prems x have "algebraic_pass es vals vs = Inr (vals', vs')" by simp
    then show ?thesis by (rule Cons.IH)
  next
    case (Some v)
    with Cons.prems x have "algebraic_pass es (on_var (eq_target e) (\<lambda>_. x) vals)
        (on_var (eq_target e) (set_target x) vs) = Inr (vals', vs')" by simp
    from Cons.IH [OF this] show ?thesis by simp
  qed
qed simp

lemma ode_pass_keys: "ode_pass dt es vals vs = Inr vs' \<Longrightarrow> map fst vs' = map fst vs"
proof (induction es arbitrary: vs)
  case (Cons e es)
  then obtain x where x: "eq_func e vals = Inr x" by (auto simp: res_simps)
  show ?case
  proof (cases "map_of vs (eq_target e)")
    case None
    with Cons.prems x have "ode_pass dt es vals vs = Inr vs'" by simp
    then show ?thesis by (rule Cons.IH)
  next
    case (Some v)
    with Cons.prems x have "ode_pass dt es vals
        (on_var (eq_target e) (set_target (fadd (var_value v) (fmul x dt))) vs) = Inr vs'" by simp
    from Cons.IH [OF this] show ?thesis by simp
  qed
qed simp

lemma mapM_keys: "mapM (\<lambda>(k, v). bnd (f k v) (\<lambda>v. Inr (k, v))) d = Inr d' \<Longrightarrow> map fst d' = map fst d"
  by (induction d arbitrary: d') (auto simp: res_simps)

lemma step_equations_keys:
  assumes "step_equations d es vs dt = Inr vs'"
  shows "map fst vs' = map fst vs"
proof (cases "dt \<le> float_of_nat 0")
  case False
  then obtain vals1 vs1 vs2 where
    a: "algebraic_pass (algebraic es) (map (\<lambda>(k, v). (k, var_value v)) vs) vs = Inr (vals1, vs1)"
    and o: "ode_pass dt (ode es) vals1 vs1 = Inr vs2" and s: "step_all d dt vs2 = Inr vs'"
    using assms by (auto simp: step_equations_def Let_def res_simps)
  show ?thesis
    using algebraic_pass_keys [OF a] ode_pass_keys [OF o] mapM_keys [OF s [unfolded step_all_def]] by simp
qed (use assms in \<open>simp add: step_equations_def\<close>)

lemma step_machine_keys: "step_machine d sm vs t = (ns, sm', vs') \<Longrightarrow> map fst vs' = map fst vs"
  by (auto simp: step_machine_def enter_state_def apply_state_setpoints_def split: option.splits)

lemma model_keys:
  "step_model d dt m = Inr (ns, m') \<Longrightarrow> map fst (variables m') = map fst (variables m)"
  "map fst (variables (force_state st m)) = map fst (variables m)"
  "map fst (variables (reset_model m)) = map fst (variables m)"
proof -
  show "map fst (variables m') = map fst (variables m)" if "step_model d dt m = Inr (ns, m')"
    using that
    by (auto simp: step_model_def Let_def res_simps split: prod.splits dest!: step_equations_keys step_machine_keys)
qed (auto simp: force_state_def force_machine_def enter_state_def apply_state_setpoints_def reset_model_def split: prod.splits if_splits)

lemma step_variable_total:
  assumes "var_ok v" and "f_valid dt"
  shows "is_ok (step_variable d dt v)"
proof -
  have "\<not> is_zero (fadd (time_constant_s v) dt)"
    if "\<not> dt \<le> float_of_nat 0" and "float_of_nat 0 < time_constant_s v"
    using that assms by (intro fadd_pos_nonzero) (auto simp: var_ok_def var_config_ok_def)
  then show ?thesis
    by (auto simp: step_variable_def py_div_def res_simps is_ok_iff Let_def)
qed

lemma algebraic_pass_total:
  "(\<And>e vals. e \<in> set es \<Longrightarrow> map fst vals = ks \<Longrightarrow> is_ok (eq_func e vals)) \<Longrightarrow> map fst vals = ks
   \<Longrightarrow> is_ok (algebraic_pass es vals vs)"
proof (induction es arbitrary: vals vs)
  case (Cons e es)
  then have "is_ok (eq_func e vals)" by simp
  then obtain x where "eq_func e vals = Inr x" unfolding is_ok_iff by blast
  with Cons show ?case by (cases "map_of vs (eq_target e)") simp_all
qed simp

lemma ode_pass_total: "(\<And>e. e \<in> set es \<Longrightarrow> is_ok (eq_func e vals)) \<Longrightarrow> is_ok (ode_pass dt es vals vs)"
proof (induction es arbitrary: vs)
  case (Cons e es)
  then have "is_ok (eq_func e vals)" by simp
  then obtain x where "eq_func e vals = Inr x" unfolding is_ok_iff by blast
  with Cons show ?case by (cases "map_of vs (eq_target e)") simp_all
qed simp

lemma step_all_total:
  assumes "dict_all var_ok vs" and "f_valid dt"
  shows "is_ok (step_all d dt vs)"
proof -
  have "is_ok (step_variable d dt (snd x))" if "x \<in> set vs" for x
    using that assms by (intro step_variable_total) (auto simp: dict_all_def)
  then show ?thesis
    by (simp add: step_all_def mapM_is_ok split_def is_ok_bnd) (simp add: is_ok_iff)
qed

lemma step_model_total:
  assumes "model_ok m" and "equations_total m" and "f_valid dt"
  shows "is_ok (step_model d dt m)"
proof -
  have "is_ok (step_equations d (equations m) vs dt)" if vs: "dict_all var_ok vs" and ks: "map fst vs = map fst (variables m)" for vs
  proof (cases "dt \<le> float_of_nat 0")
    case False
    let ?vals = "map (\<lambda>(k, v). (k, var_value v)) vs"
    have keys: "map fst ?vals = map fst (variables m)" using ks by (simp add: comp_def split_def)
    obtain vals1 vs1 where a: "algebraic_pass (algebraic (equations m)) ?vals vs = Inr (vals1, vs1)"
      using algebraic_pass_total [of "algebraic (equations m)" "map fst (variables m)" ?vals vs] keys assms(2)
      by (auto simp: equations_total_def is_ok_iff)
    then have vs1: "dict_all var_ok vs1" using vs by (rule algebraic_pass_ok)
    have "map fst vals1 = map fst (variables m)" using algebraic_pass_keys [OF a] keys by simp
    then have total: "is_ok (eq_func e vals1)" if "e \<in> set (ode (equations m))" for e
      using assms(2) that by (simp add: equations_total_def)
    obtain vs2 where o: "ode_pass dt (ode (equations m)) vals1 vs1 = Inr vs2"
      using ode_pass_total [of "ode (equations m)" vals1 dt vs1] total by (auto simp: is_ok_iff)
    then have "dict_all var_ok vs2" using vs1 by (rule ode_pass_ok)
    then have "is_ok (step_all d dt vs2)" using assms(3) by (rule step_all_total)
    with a o False show ?thesis by (simp add: step_equations_def)
  qed (simp add: step_equations_def)
  moreover have "dict_all var_ok (snd (snd (step_machine d (machine m) (variables m) t)))"
    and "map fst (snd (snd (step_machine d (machine m) (variables m) t))) = map fst (variables m)" for t
    using assms(1) step_machine_ok step_machine_keys by (metis model_ok_def prod.collapse)+
  ultimately have "is_ok (step_equations d (equations m) (snd (snd (step_machine d (machine m) (variables m) t))) dt)" for t
    by simp
  then obtain vs where "step_equations d (equations m)
      (snd (snd (step_machine d (machine m) (variables m) (fadd (sim_time_s m) dt)))) dt = Inr vs"
    by (meson is_ok_iff)
  then show ?thesis
    by (simp add: step_model_def Let_def split_def)
qed

end
