(* ===== verification/PayloadGen.thy ===== *)
theory PayloadGen
  imports FloatOps PyValue
begin

text \<open>
  \<open>backend/app/protocol_engines/payload_generator.py\<close>: the sensors of a flow, the value each has
  at a given time, its encoding, and the sensor profiles that come with the program.

  Integers among the bounds of a profile stand for the floats of the same value.  The random
  numbers of one reading are the fields of \<open>value_draws\<close>, and \<open>math.sin\<close> of a finite number is
  the parameter \<open>sin_of\<close>.
\<close>

section \<open>Profiles and states\<close>

datatype trend_type = STABLE | INCREASING | DECREASING | SINUSOIDAL | RANDOM_WALK | STEP | RAMP

datatype data_type = BOOL | INT8 | UINT8 | INT16 | UINT16 | INT32 | UINT32 | FLOAT32 | FLOAT64 | INT64 | UINT64

record sensor_profile =
  profile_name :: string
  profile_type :: data_type
  prof_min :: pyfloat
  prof_max :: pyfloat
  nominal_value :: pyfloat
  drift_rate :: pyfloat
  prof_noise :: pyfloat
  profile_trend :: trend_type
  trend_period :: "pyfloat option"
  step_size :: "pyfloat option"
  byte_order :: string
  profile_source :: "string option"
  source_scale :: pyfloat

record sensor_state =
  current_value :: pyfloat
  last_update_ms :: pyfloat
  random_walk_velocity :: pyfloat
  step_last_change_ms :: pyfloat

record payload_generator =
  sensor_states :: "(string \<times> sensor_state) list"
  sensor_profiles :: "(string \<times> sensor_profile) list"

text \<open>\<open>DATA_TYPE_FORMATS\<close> without the byte order, and \<open>DATA_TYPE_SIZES\<close>.\<close>

fun type_code :: "data_type \<Rightarrow> char" where
  "type_code BOOL = CHR ''?''"
| "type_code INT8 = CHR ''b''"
| "type_code UINT8 = CHR ''B''"
| "type_code INT16 = CHR ''h''"
| "type_code UINT16 = CHR ''H''"
| "type_code INT32 = CHR ''i''"
| "type_code UINT32 = CHR ''I''"
| "type_code FLOAT32 = CHR ''f''"
| "type_code FLOAT64 = CHR ''d''"
| "type_code INT64 = CHR ''q''"
| "type_code UINT64 = CHR ''Q''"

fun type_size :: "data_type \<Rightarrow> nat" where
  "type_size BOOL = 1"
| "type_size INT8 = 1"
| "type_size UINT8 = 1"
| "type_size INT16 = 2"
| "type_size UINT16 = 2"
| "type_size INT32 = 4"
| "type_size UINT32 = 4"
| "type_size FLOAT32 = 4"
| "type_size FLOAT64 = 8"
| "type_size INT64 = 8"
| "type_size UINT64 = 8"

definition get_format_string :: "sensor_profile \<Rightarrow> string" where
  "get_format_string p =
     (if byte_order p = ''little'' then [CHR ''<'', type_code (profile_type p)]
      else [CHR ''>'', type_code (profile_type p)])"

definition get_byte_size :: "sensor_profile \<Rightarrow> nat" where
  "get_byte_size p = type_size (profile_type p)"

definition fresh_state :: "sensor_profile \<Rightarrow> sensor_state" where
  "fresh_state p = \<lparr>current_value = nominal_value p, last_update_ms = float_of_nat 0,
     random_walk_velocity = float_of_nat 0, step_last_change_ms = float_of_nat 0\<rparr>"

definition add_profile :: "payload_generator \<Rightarrow> sensor_profile \<Rightarrow> payload_generator" where
  "add_profile g p =
     \<lparr>sensor_states = dset (profile_name p) (fresh_state p) (sensor_states g),
      sensor_profiles = dset (profile_name p) p (sensor_profiles g)\<rparr>"

definition new_generator :: "sensor_profile list \<Rightarrow> payload_generator" where
  "new_generator ps = foldl add_profile \<lparr>sensor_states = [], sensor_profiles = []\<rparr> ps"

section \<open>Arithmetic of the trends\<close>

fun fabs :: "pyfloat \<Rightarrow> pyfloat" where
  "fabs FNan = FNan"
| "fabs (FInf s) = FInf False"
| "fabs (Fin s m e) = Fin False m e"

text \<open>
  \<open>x % y\<close>: the exact remainder with the sign of \<open>x\<close>, moved by \<open>y\<close> when the signs of remainder
  and divisor differ; a zero remainder gets the sign of the divisor.
\<close>

fun fmod_exact :: "pyfloat \<Rightarrow> pyfloat \<Rightarrow> pyfloat" where
  "fmod_exact FNan y = FNan"
| "fmod_exact x FNan = FNan"
| "fmod_exact (FInf s) y = FNan"
| "fmod_exact (Fin s m e) (FInf t) = Fin s m e"
| "fmod_exact (Fin s m e) (Fin t n d) =
     (let k = min e d; r = nat \<bar>scaled_int s m e k\<bar> mod nat \<bar>scaled_int t n d k\<bar>
      in f64_scaled s r k)"

fun negative :: "pyfloat \<Rightarrow> bool" where
  "negative FNan = False"
| "negative (FInf s) = s"
| "negative (Fin s m e) = (s \<and> m \<noteq> 0)"

definition py_fmod :: "pyfloat \<Rightarrow> pyfloat \<Rightarrow> pyfloat res" where
  "py_fmod x y =
     (if is_zero y then Inl ZeroDivisionError
      else
        let r = fmod_exact x y
        in Inr (if is_zero r then Fin (negative y) 0 (- 1074)
                else if negative y \<noteq> negative r then fadd r y else r))"

definition pi_float :: pyfloat where
  "pi_float = Fin False 7074237752028440 (- 51)"

text \<open>\<open>math.sin\<close> raises ValueError for an infinity and keeps NaN.\<close>

fun py_sin :: "(pyfloat \<Rightarrow> pyfloat) \<Rightarrow> pyfloat \<Rightarrow> pyfloat res" where
  "py_sin sin_of FNan = Inr FNan"
| "py_sin sin_of (FInf s) = Inl ValueError"
| "py_sin sin_of x = Inr (sin_of x)"

definition or_default :: "pyfloat option \<Rightarrow> pyfloat \<Rightarrow> pyfloat" where
  "or_default x dflt = (case x of Some v \<Rightarrow> if float_truthy v then v else dflt | None \<Rightarrow> dflt)"

text \<open>The literals of the module: \<open>lit n d\<close> is the float nearest to \<open>n / d\<close>.\<close>

definition lit :: "nat \<Rightarrow> nat \<Rightarrow> pyfloat" where
  "lit n d = f64_of_ratio False n d"

section \<open>One reading\<close>

record value_draws =
  gauss_noise :: pyfloat
  gauss_velocity :: pyfloat
  step_up :: bool

definition apply_trend ::
    "(pyfloat \<Rightarrow> pyfloat) \<Rightarrow> value_draws \<Rightarrow> sensor_profile \<Rightarrow> sensor_state \<Rightarrow> pyfloat \<Rightarrow> pyfloat
      \<Rightarrow> (pyfloat \<times> sensor_state) res" where
  "apply_trend sin_of draws p st timestamp_ms elapsed_s =
     (case profile_trend p of
        STABLE \<Rightarrow> Inr (nominal_value p, st)
      | INCREASING \<Rightarrow>
          (let new_value = fadd (current_value st) (fmul (drift_rate p) elapsed_s)
           in Inr (if prof_max p \<le> new_value then nominal_value p else new_value, st))
      | DECREASING \<Rightarrow>
          (let new_value = fsub (current_value st) (fmul (drift_rate p) elapsed_s)
           in Inr (if new_value \<le> prof_min p then nominal_value p else new_value, st))
      | SINUSOIDAL \<Rightarrow>
          (let period = or_default (trend_period p) (float_of_nat 3600)
           in bnd (py_div (fsub (prof_max p) (prof_min p)) (float_of_nat 4)) (\<lambda>amplitude.
              bnd (py_div timestamp_ms (float_of_nat 1000)) (\<lambda>seconds.
              bnd (py_div (fmul (float_of_nat 2) pi_float) period) (\<lambda>omega.
              bnd (py_sin sin_of (fmul seconds omega)) (\<lambda>y.
              Inr (fadd (nominal_value p) (fmul amplitude y), st))))))
      | RANDOM_WALK \<Rightarrow>
          (let momentum = lit 9 10;
               velocity = fadd (fmul momentum (random_walk_velocity st))
                               (fmul (fsub (float_of_nat 1) momentum) (gauss_velocity draws));
               new_value = fadd (current_value st) (fmul velocity elapsed_s)
           in Inr (if new_value < prof_min p then
                     (fadd (prof_min p) (fabs (fsub new_value (prof_min p))), st\<lparr>random_walk_velocity := fabs velocity\<rparr>)
                   else if prof_max p < new_value then
                     (fsub (prof_max p) (fabs (fsub new_value (prof_max p))),
                      st\<lparr>random_walk_velocity := fneg (fabs velocity)\<rparr>)
                   else (new_value, st\<lparr>random_walk_velocity := velocity\<rparr>)))
      | STEP \<Rightarrow>
          (let period = or_default (trend_period p) (float_of_nat 60)
           in bnd (py_div (fsub (prof_max p) (prof_min p)) (float_of_nat 10)) (\<lambda>dflt.
              let size = or_default (step_size p) dflt
              in if fmul period (float_of_nat 1000) \<le> fsub timestamp_ms (step_last_change_ms st) then
                   let new_value = fadd (current_value st) (if step_up draws then size else fneg size)
                   in Inr (py_max (prof_min p) (py_min (prof_max p) new_value), st\<lparr>step_last_change_ms := timestamp_ms\<rparr>)
                 else Inr (current_value st, st)))
      | RAMP \<Rightarrow>
          (let period = or_default (trend_period p) (float_of_nat 60)
           in bnd (py_div timestamp_ms (float_of_nat 1000)) (\<lambda>seconds.
              bnd (py_fmod seconds period) (\<lambda>r.
              bnd (py_div r period) (\<lambda>progress.
              Inr (fadd (prof_min p) (fmul progress (fsub (prof_max p) (prof_min p))), st))))))"

text \<open>\<open>int(round(x))\<close>: the nearest integer, ties to even.\<close>

fun py_round :: "pyfloat \<Rightarrow> int res" where
  "py_round FNan = Inl ValueError"
| "py_round (FInf s) = Inl OverflowError"
| "py_round (Fin s m e) =
     (let k = int (rne (scaled_den m e) (scaled_num 1 e)) in Inr (if s then - k else k))"

text \<open>\<open>struct.pack("d", x)\<close>: sign, biased exponent and fraction of the binary64 value.\<close>

fun round_f64 :: "pyfloat \<Rightarrow> pyfloat" where
  "round_f64 (Fin s m e) = f64_scaled s m e"
| "round_f64 x = x"

fun f64_bits :: "pyfloat \<Rightarrow> int" where
  "f64_bits FNan = 0x7FF8000000000000"
| "f64_bits (FInf s) = (if s then 0x8000000000000000 else 0) + 0x7FF0000000000000"
| "f64_bits (Fin s m e) =
     (if s then 0x8000000000000000 else 0)
     + (if m < 4503599627370496 then int m else (e + 1075) * 4503599627370496 + (int m - 4503599627370496))"

definition pack_d :: "bool \<Rightarrow> pyfloat \<Rightarrow> bytes" where
  "pack_d big x = (if big then be_bytes 8 (f64_bits (round_f64 x)) else le_bytes 8 (f64_bits (round_f64 x)))"

definition encode_value :: "pyfloat \<Rightarrow> sensor_profile \<Rightarrow> bytes res" where
  "encode_value v p =
     (let big = (hd (get_format_string p) = CHR ''>'')
      in case profile_type p of
           BOOL \<Rightarrow> Inr [if lit 1 2 \<le> v then 1 else 0]
         | FLOAT32 \<Rightarrow> pack_f big v
         | FLOAT64 \<Rightarrow> Inr (pack_d big v)
         | _ \<Rightarrow> bnd (py_round v) (\<lambda>n. struct_pack (get_format_string p) [n]))"

text \<open>
  The value of a sensor at a time.  A call that raises leaves the generator as it was, except
  that an error of the encoding comes after the update of the state.
\<close>

definition next_value ::
    "(pyfloat \<Rightarrow> pyfloat) \<Rightarrow> value_draws \<Rightarrow> string \<Rightarrow> pyfloat \<Rightarrow> payload_generator
      \<Rightarrow> (pyfloat \<times> sensor_profile \<times> payload_generator) res" where
  "next_value sin_of draws s timestamp_ms g =
     (case (map_of (sensor_profiles g) s, map_of (sensor_states g) s) of
        (Some p, Some st) \<Rightarrow>
          bnd (py_div (fsub timestamp_ms (last_update_ms st)) (float_of_nat 1000)) (\<lambda>elapsed_s.
          let elapsed_s = (if elapsed_s < float_of_nat 0 then float_of_nat 0 else elapsed_s)
          in bnd (apply_trend sin_of draws p st timestamp_ms elapsed_s) (\<lambda>(base_value, st).
             let noise = (if float_of_nat 0 < prof_noise p then gauss_noise draws else float_of_nat 0);
                 v = py_max (prof_min p) (py_min (prof_max p) (fadd base_value noise))
             in Inr (v, p, g\<lparr>sensor_states := dset s (st\<lparr>current_value := v, last_update_ms := timestamp_ms\<rparr>)
                                (sensor_states g)\<rparr>)))
      | _ \<Rightarrow> Inl KeyError)"

definition get_sensor ::
    "(pyfloat \<Rightarrow> pyfloat) \<Rightarrow> value_draws \<Rightarrow> string \<Rightarrow> pyfloat \<Rightarrow> payload_generator
      \<Rightarrow> bytes res \<times> payload_generator" where
  "get_sensor sin_of draws s timestamp_ms g =
     (case next_value sin_of draws s timestamp_ms g of
        Inl e \<Rightarrow> (Inl e, g)
      | Inr (v, p, g') \<Rightarrow> (encode_value v p, g'))"

fun get_multiple_values ::
    "(pyfloat \<Rightarrow> pyfloat) \<Rightarrow> (value_draws \<times> string) list \<Rightarrow> pyfloat \<Rightarrow> payload_generator
      \<Rightarrow> bytes res \<times> payload_generator" where
  "get_multiple_values sin_of [] timestamp_ms g = (Inr [], g)"
| "get_multiple_values sin_of ((draws, s) # names) timestamp_ms g =
     (case get_sensor sin_of draws s timestamp_ms g of
        (Inl e, g) \<Rightarrow> (Inl e, g)
      | (Inr b, g) \<Rightarrow>
          (case get_multiple_values sin_of names timestamp_ms g of
             (Inl e, g) \<Rightarrow> (Inl e, g)
           | (Inr bs, g) \<Rightarrow> (Inr (b @ bs), g)))"

definition reset_sensor :: "string \<Rightarrow> payload_generator \<Rightarrow> payload_generator" where
  "reset_sensor s g =
     (case map_of (sensor_profiles g) s of
        Some p \<Rightarrow> g\<lparr>sensor_states := dset s (fresh_state p) (sensor_states g)\<rparr>
      | None \<Rightarrow> g)"

definition reset_all :: "payload_generator \<Rightarrow> payload_generator" where
  "reset_all g = foldl (\<lambda>g s. reset_sensor s g) g (map fst (sensor_profiles g))"

section \<open>Rounding to integers\<close>

text \<open>The real number of a finite float.\<close>

fun fval :: "pyfloat \<Rightarrow> real" where
  "fval (Fin s m e) = (if s then - 1 else 1) * real m * 2 powi e"
| "fval x = 0"

lemma scaled_int_fval: "k \<le> e \<Longrightarrow> real_of_int (scaled_int s m e k) = fval (Fin s m e) * 2 powi (- k)"
proof -
  assume "k \<le> e"
  then have "(2 :: real) ^ nat (e - k) = 2 powi (e - k)"
    by (simp add: power_int_def)
  also have "\<dots> = 2 powi e * 2 powi (- k)"
    by (simp flip: power_int_add)
  finally show ?thesis by simp
qed


lemma float_lt_fval: "float_lt (Fin s m e) (Fin t n d) \<longleftrightarrow> fval (Fin s m e) < fval (Fin t n d)"
proof -
  let ?k = "min e d"
  have "float_lt (Fin s m e) (Fin t n d)
      \<longleftrightarrow> real_of_int (scaled_int s m e ?k) < real_of_int (scaled_int t n d ?k)"
    by (simp add: Let_def del: scaled_int.simps)
  also have "\<dots> \<longleftrightarrow> fval (Fin s m e) * 2 powi (- ?k) < fval (Fin t n d) * 2 powi (- ?k)"
    by (simp only: scaled_int_fval min.cobounded1 min.cobounded2)
  also have "\<dots> \<longleftrightarrow> fval (Fin s m e) < fval (Fin t n d)"
    by (rule mult_less_cancel_right_pos) simp
  finally show ?thesis .
qed

text \<open>An integer that is nearest to a number, and even if two are.\<close>

definition rounds_to :: "real \<Rightarrow> int \<Rightarrow> bool" where
  "rounds_to v k \<longleftrightarrow> \<bar>v - k\<bar> \<le> 1 / 2 \<and> (\<bar>v - k\<bar> = 1 / 2 \<longrightarrow> even k)"

lemma rounds_to_mono:
  assumes "rounds_to v k" and "rounds_to w l" and "v \<le> w"
  shows "k \<le> l"
proof (rule ccontr)
  assume "\<not> k \<le> l"
  then have "l + 1 \<le> k" by simp
  then have le: "real_of_int l + 1 \<le> real_of_int k" by linarith
  have near: "\<bar>v - k\<bar> \<le> 1 / 2" "\<bar>w - l\<bar> \<le> 1 / 2"
    using assms(1,2) by (simp_all add: rounds_to_def)
  then have half: "v = k - 1 / 2" "w = l + 1 / 2" and "real_of_int k = l + 1"
    using le assms(3) by linarith+
  have "\<bar>v - k\<bar> = 1 / 2" "\<bar>w - l\<bar> = 1 / 2"
    by (simp_all add: half)
  then have "even k" "even l"
    using assms(1,2) by (simp_all add: rounds_to_def)
  moreover have "k = l + 1"
    using \<open>real_of_int k = l + 1\<close> by linarith
  ultimately show False by simp
qed

lemma rounds_to_minus: "rounds_to v k \<Longrightarrow> rounds_to (- v) (- k)"
  by (auto simp: rounds_to_def abs_if split: if_splits)

lemma rne_rounds_to:
  assumes "0 < d" shows "rounds_to (real n / real d) (int (rne n d))"
proof -
  let ?q = "n div d" and ?r = "n mod d"
  have v: "real n / real d = real ?q + real ?r / real d"
  proof -
    have "real n = real (?q * d + ?r)" by (simp only: div_mult_mod_eq)
    also have "\<dots> = real ?q * real d + real ?r" by (simp only: of_nat_add of_nat_mult)
    finally show ?thesis using assms by (simp add: field_simps)
  qed
  have r: "?r < d" using assms by simp
  consider "2 * ?r < d" | "2 * ?r = d" | "d < 2 * ?r" by linarith
  then show ?thesis
  proof cases
    case 1
    then have "0 \<le> real ?r / real d" "real ?r / real d < 1 / 2"
      using assms by (simp_all add: field_simps)
    with 1 v show ?thesis by (simp add: rounds_to_def rne_def Let_def)
  next
    case 2
    then have "real ?r / real d = 1 / 2"
      using assms by (simp add: field_simps)
    with 2 v show ?thesis by (simp add: rounds_to_def rne_def Let_def)
  next
    case 3
    then have "1 / 2 < real ?r / real d" "real ?r / real d < 1"
      using assms r by (simp_all add: field_simps)
    with 3 v show ?thesis by (simp add: rounds_to_def rne_def Let_def)
  qed
qed

lemma py_round_rounds_to:
  assumes "py_round x = Inr k" shows "rounds_to (fval x) k"
proof (cases x)
  case (Fin s m e)
  let ?n = "scaled_den m e" and ?d = "scaled_num 1 e"
  have "0 < ?d" by (simp add: scaled_num_def)
  moreover have "real ?n / real ?d = real m * 2 powi e"
    by (auto simp: scaled_den_def scaled_num_def power_int_def field_simps power_one_over)
  ultimately have "rounds_to (real m * 2 powi e) (int (rne ?n ?d))"
    using rne_rounds_to [of ?d ?n] by simp
  with assms Fin show ?thesis
    by (auto simp: Let_def dest: rounds_to_minus)
qed (use assms in simp_all)

text \<open>A number between two finite ones is finite, and rounding keeps the order.\<close>

lemma between_finite:
  assumes "py_round lo = Inr a" and "py_round hi = Inr b" and "in_bounds lo hi x"
  obtains s m e where "x = Fin s m e" and "fval lo \<le> fval x" and "fval x \<le> fval hi"
proof -
  obtain s m e t n d where f: "lo = Fin s m e" "hi = Fin t n d"
    using assms(1,2) by (cases lo; cases hi) auto
  then obtain u p c where x: "x = Fin u p c"
    using assms(3) by (cases x) (auto simp: in_bounds_def less_eq_pyfloat_def)
  then have "fval lo \<le> fval x" "fval x \<le> fval hi"
    using assms(3) f by (simp_all add: in_bounds_def less_eq_pyfloat_def float_lt_fval del: float_lt.simps fval.simps)
  with x that show thesis by blast
qed

lemma py_round_between:
  assumes "py_round lo = Inr a" and "py_round hi = Inr b" and "in_bounds lo hi x"
  obtains k where "py_round x = Inr k" and "a \<le> k" and "k \<le> b"
proof -
  obtain s m e where x: "x = Fin s m e" "fval lo \<le> fval x" "fval x \<le> fval hi"
    by (rule between_finite [OF assms])
  then obtain k where k: "py_round x = Inr k" by (simp add: Let_def)
  have "a \<le> k" "k \<le> b"
    using rounds_to_mono [OF py_round_rounds_to [OF assms(1)] py_round_rounds_to [OF k] x(2)]
      rounds_to_mono [OF py_round_rounds_to [OF k] py_round_rounds_to [OF assms(2)] x(3)]
    by simp_all
  with k that show thesis by blast
qed

section \<open>Rounding to binary32\<close>

lemma round_bin_finite:
  assumes "0 < den" and "real num < 2 powi (emax + int p - 1) * real den" and "emin < emax"
  shows "\<exists>m e. round_bin p emin emax s num den = Fin s m e"
proof (cases "num = 0")
  case False
  then have "real den * 2 powi ilog2 num den \<le> real num"
    using ilog2_le assms(1) by simp
  with assms(2) have "real den * 2 powi ilog2 num den < real den * 2 powi (emax + int p - 1)"
    by (simp add: mult.commute)
  then have "(2 :: real) powi ilog2 num den < 2 powi (emax + int p - 1)"
    using assms(1) by simp
  then have "ilog2 num den < emax + int p - 1"
    by (meson linorder_not_less power_int_increasing one_le_numeral)
  then have less: "max (ilog2 num den - int p + 1) emin < emax"
    using assms(3) by simp
  then have "\<not> emax < max (ilog2 num den - int p + 1) emin" "\<not> emax < max (ilog2 num den - int p + 1) emin + 1"
    by linarith+
  then show ?thesis
    using False by (simp add: round_bin_def Let_def del: max.bounded_iff max_less_iff_conj)
qed (simp add: round_bin_def)

lemma round_f32_finite:
  assumes "\<bar>fval (Fin s m e)\<bar> < 2 powi 127"
  shows "\<exists>n d. round_f32 (Fin s m e) = Fin s n d"
proof (cases "e < 0")
  case True
  then have p: "(2 :: real) powi e = 1 / 2 ^ nat (- e)"
    by (simp add: power_int_def power_one_over)
  have "real m * 2 powi e < 2 powi 127"
    using assms by (simp add: abs_mult split: if_splits)
  then have "real m < 2 powi 127 * real (2 ^ nat (- e))"
    unfolding p by (simp add: divide_less_eq)
  with True round_bin_finite [of "2 ^ nat (- e)" m 104 24 "- 149" s] show ?thesis by simp
next
  case False
  then have "real (m * 2 ^ nat e) < 2 powi 127 * real 1"
    using assms by (simp add: power_int_def abs_mult split: if_splits)
  with False round_bin_finite [of 1 "m * 2 ^ nat e" 104 24 "- 149" s] show ?thesis by simp
qed

lemma pack_f_ok:
  assumes "\<bar>fval (Fin s m e)\<bar> < 2 powi 127"
  shows "is_ok (pack_f big (Fin s m e))"
proof -
  obtain n d where "round_f32 (Fin s m e) = Fin s n d" using round_f32_finite [OF assms] by blast
  then show ?thesis by (simp add: pack_f_def Let_def del: round_f32.simps)
qed

section \<open>Profiles that fit their type\<close>

text \<open>The range of an integer type: octets and sign.\<close>

fun int_type :: "data_type \<Rightarrow> (nat \<times> bool) option" where
  "int_type INT8 = Some (1, True)"
| "int_type UINT8 = Some (1, False)"
| "int_type INT16 = Some (2, True)"
| "int_type UINT16 = Some (2, False)"
| "int_type INT32 = Some (4, True)"
| "int_type UINT32 = Some (4, False)"
| "int_type INT64 = Some (8, True)"
| "int_type UINT64 = Some (8, False)"
| "int_type t = None"

definition f32_limit :: pyfloat where
  "f32_limit = Fin False 1 127"

definition rounds_in :: "nat \<Rightarrow> bool \<Rightarrow> pyfloat \<Rightarrow> bool" where
  "rounds_in n sg x = (case py_round x of Inr k \<Rightarrow> in_range n sg k | Inl _ \<Rightarrow> False)"

text \<open>The bounds are in order, and, rounded, in the range of the type.\<close>

definition profile_ok :: "sensor_profile \<Rightarrow> bool" where
  "profile_ok p \<longleftrightarrow> prof_min p \<le> prof_max p
     \<and> (case int_type (profile_type p) of
          Some (n, sg) \<Rightarrow> rounds_in n sg (prof_min p) \<and> rounds_in n sg (prof_max p)
        | None \<Rightarrow> profile_type p = FLOAT32 \<longrightarrow> fneg f32_limit < prof_min p \<and> prof_max p < f32_limit)"

text \<open>How a receiver reads an integer of \<open>n\<close> octets.\<close>

definition read_int :: "sensor_profile \<Rightarrow> nat \<Rightarrow> bool \<Rightarrow> bytes \<Rightarrow> int" where
  "read_int p n sg b =
     (let u = (if byte_order p = ''little'' then le_val b else be_val b) in if sg then sign_val n u else u)"

lemma int_type_pack:
  assumes "int_type t = Some (n, sg)"
  shows "pack_int big (type_code t) v =
    (if in_range n sg v then Inr (if big then be_bytes n v else le_bytes n v) else Inl StructError)"
    and "type_size t = n" and "0 < n"
  using assms by (cases t; auto simp: pack_int_def pack_code_def)+

lemma encode_int:
  assumes "int_type (profile_type p) = Some (n, sg)" and "py_round v = Inr k" and "in_range n sg k"
  shows "\<exists>b. encode_value v p = Inr b \<and> length b = n \<and> read_int p n sg b = k"
proof -
  let ?b = "if byte_order p = ''little'' then le_bytes n k else be_bytes n k"
  have sg: "sg \<Longrightarrow> sign_val n (k mod 256 ^ n) = k" and un: "\<not> sg \<Longrightarrow> k mod 256 ^ n = k"
    using assms(3) int_type_pack(3) [OF assms(1)] by (auto simp: in_range_def intro: sign_val_mod)
  have "encode_value v p = bnd (py_round v) (\<lambda>n. struct_pack (get_format_string p) [n])"
    using assms(1) by (cases "profile_type p") (simp_all add: encode_value_def)
  then have "encode_value v p = Inr ?b"
    using assms int_type_pack(1) [OF assms(1)] by (simp add: get_format_string_def)
  moreover have "read_int p n sg ?b = k"
    using sg un by (cases sg) (simp_all add: read_int_def)
  ultimately show ?thesis by simp
qed

lemma within_limit:
  assumes "fneg f32_limit < lo" and "in_bounds lo hi v" and "hi < f32_limit"
  obtains s m e where "v = Fin s m e" and "\<bar>fval v\<bar> < 2 powi 127"
proof -
  obtain s m e t n d where f: "lo = Fin s m e" "hi = Fin t n d"
    using assms by (cases lo; cases hi; cases v)
      (auto simp: in_bounds_def less_eq_pyfloat_def less_pyfloat_def f32_limit_def)
  then obtain u p c where v: "v = Fin u p c"
    using assms(2) by (cases v) (auto simp: in_bounds_def less_eq_pyfloat_def)
  have "fval (Fin True 1 127) < fval lo" "fval lo \<le> fval v" "fval v \<le> fval hi" "fval hi < fval (Fin False 1 127)"
    using assms f v
    by (simp_all add: in_bounds_def less_eq_pyfloat_def less_pyfloat_def float_lt_fval f32_limit_def
        del: float_lt.simps fval.simps)
  then have "\<bar>fval v\<bar> < 2 powi 127" by simp
  with v that show thesis by blast
qed

lemma encode_ok:
  assumes "profile_ok p" and "in_bounds (prof_min p) (prof_max p) v"
  shows "\<exists>b. encode_value v p = Inr b \<and> length b = get_byte_size p
    \<and> (case int_type (profile_type p) of
         None \<Rightarrow> True
       | Some (n, sg) \<Rightarrow>
           \<exists>lo hi. py_round (prof_min p) = Inr lo \<and> py_round (prof_max p) = Inr hi
             \<and> py_round v = Inr (read_int p n sg b) \<and> lo \<le> read_int p n sg b \<and> read_int p n sg b \<le> hi)"
proof (cases "int_type (profile_type p)")
  case None
  then consider "profile_type p = BOOL" | "profile_type p = FLOAT32" | "profile_type p = FLOAT64"
    by (cases "profile_type p") auto
  then show ?thesis
  proof cases
    case 2
    then have "fneg f32_limit < prof_min p" "prof_max p < f32_limit"
      using assms(1) None by (simp_all add: profile_ok_def)
    then obtain s m e where v: "v = Fin s m e" "\<bar>fval (Fin s m e)\<bar> < 2 powi 127"
      using within_limit [OF _ assms(2)] by metis
    obtain b where "pack_f (hd (get_format_string p) = CHR ''>'') v = Inr b"
      using pack_f_ok [OF v(2)] v(1) by (auto simp: is_ok_iff)
    with 2 show ?thesis
      by (auto simp: encode_value_def get_byte_size_def dest: pack_f_length)
  qed (auto simp: encode_value_def get_byte_size_def pack_d_def)
next
  case (Some nsg)
  then obtain n sg where t: "int_type (profile_type p) = Some (n, sg)" by (cases nsg) auto
  then have "rounds_in n sg (prof_min p)" "rounds_in n sg (prof_max p)"
    using assms(1) by (simp_all add: profile_ok_def)
  then obtain lo hi where r: "py_round (prof_min p) = Inr lo" "py_round (prof_max p) = Inr hi"
      "in_range n sg lo" "in_range n sg hi"
    by (auto simp: rounds_in_def split: sum.splits)
  obtain k where k: "py_round v = Inr k" "lo \<le> k" "k \<le> hi"
    by (rule py_round_between [OF r(1,2) assms(2)])
  then have "in_range n sg k"
    using r(3,4) by (auto simp: in_range_def split: if_splits)
  from encode_int [OF t k(1) this] obtain b where "encode_value v p = Inr b" "length b = n" "read_int p n sg b = k"
    by blast
  with t k r(1,2) int_type_pack(2) [OF t] show ?thesis
    by (auto simp: get_byte_size_def)
qed

section \<open>Readings\<close>

text \<open>The only call of a trend that can raise is the sine of an infinite phase.\<close>

definition sine_ok :: "pyfloat \<Rightarrow> sensor_profile \<Rightarrow> bool" where
  "sine_ok timestamp_ms p \<longleftrightarrow> profile_trend p = SINUSOIDAL \<longrightarrow>
     (case fmul (fquot timestamp_ms (float_of_nat 1000))
             (fquot (fmul (float_of_nat 2) pi_float) (or_default (trend_period p) (float_of_nat 3600))) of
        FInf _ \<Rightarrow> False
      | _ \<Rightarrow> True)"

lemma float_of_nat_zero [simp]: "is_zero (float_of_nat n) \<longleftrightarrow> n = 0"
  by (simp add: float_of_nat_def)

lemma or_default_nonzero: "\<not> is_zero dflt \<Longrightarrow> \<not> is_zero (or_default x dflt)"
  by (auto simp: or_default_def split: option.split) (case_tac x2; simp)

lemma py_sin_ok: "(case x of FInf _ \<Rightarrow> False | _ \<Rightarrow> True) \<Longrightarrow> \<exists>y. py_sin sin_of x = Inr y"
  by (cases x) auto

lemma apply_trend_ok:
  assumes "sine_ok timestamp_ms p"
  shows "\<exists>v st'. apply_trend sin_of draws p st timestamp_ms elapsed_s = Inr (v, st')"
proof (cases "profile_trend p")
  case SINUSOIDAL
  let ?period = "or_default (trend_period p) (float_of_nat 3600)"
  have "\<not> is_zero ?period" by (rule or_default_nonzero) simp
  moreover obtain y where "py_sin sin_of (fmul (fquot timestamp_ms (float_of_nat 1000))
      (fquot (fmul (float_of_nat 2) pi_float) ?period)) = Inr y"
    using py_sin_ok assms SINUSOIDAL unfolding sine_ok_def by blast
  ultimately show ?thesis
    using SINUSOIDAL by (simp add: apply_trend_def py_div_def Let_def)
next
  case RAMP
  have "\<not> is_zero (or_default (trend_period p) (float_of_nat 60))" by (rule or_default_nonzero) simp
  with RAMP show ?thesis
    by (simp add: apply_trend_def py_div_def py_fmod_def Let_def)
qed (simp_all add: apply_trend_def py_div_def Let_def)

lemma next_value_ok:
  assumes "map_of (sensor_profiles g) s = Some p" and "map_of (sensor_states g) s = Some st"
    and "prof_min p \<le> prof_max p" and "sine_ok timestamp_ms p"
  shows "\<exists>v st'. next_value sin_of draws s timestamp_ms g = Inr (v, p, g\<lparr>sensor_states := dset s st' (sensor_states g)\<rparr>)
    \<and> in_bounds (prof_min p) (prof_max p) v \<and> current_value st' = v \<and> last_update_ms st' = timestamp_ms"
proof -
  define t where "t = fquot (fsub timestamp_ms (last_update_ms st)) (float_of_nat 1000)"
  define elapsed where "elapsed = (if t < float_of_nat 0 then float_of_nat 0 else t)"
  obtain b st' where "apply_trend sin_of draws p st timestamp_ms elapsed = Inr (b, st')"
    using apply_trend_ok [OF assms(4)] by blast
  moreover define v where
    "v = py_max (prof_min p) (py_min (prof_max p)
           (fadd b (if float_of_nat 0 < prof_noise p then gauss_noise draws else float_of_nat 0)))"
  ultimately have "next_value sin_of draws s timestamp_ms g = Inr (v, p, g\<lparr>sensor_states :=
      dset s (st'\<lparr>current_value := v, last_update_ms := timestamp_ms\<rparr>) (sensor_states g)\<rparr>)"
    using assms(1,2) by (simp add: next_value_def py_div_def t_def [symmetric] elapsed_def [symmetric] Let_def)
  moreover have "in_bounds (prof_min p) (prof_max p) v"
    unfolding v_def by (rule clamp_within [OF assms(3)])
  ultimately show ?thesis
    by (intro exI [of _ v] exI [of _ "st'\<lparr>current_value := v, last_update_ms := timestamp_ms\<rparr>"]) simp
qed

text \<open>A generator in which every sensor has a state and a profile that fits its type.\<close>

definition gen_ok :: "payload_generator \<Rightarrow> bool" where
  "gen_ok g \<longleftrightarrow> map fst (sensor_states g) = map fst (sensor_profiles g)
     \<and> list_all (\<lambda>kp. profile_ok (snd kp)) (sensor_profiles g)"

lemma gen_ok_sensor:
  assumes "gen_ok g" and "map_of (sensor_profiles g) s = Some p"
  obtains st where "map_of (sensor_states g) s = Some st" and "profile_ok p" and "prof_min p \<le> prof_max p"
proof -
  have "s \<in> fst ` set (sensor_profiles g)"
    using assms(2) by (force dest: map_of_SomeD)
  also have "fst ` set (sensor_profiles g) = fst ` set (sensor_states g)"
    using assms(1) unfolding gen_ok_def by (metis list.set_map)
  finally obtain st where "map_of (sensor_states g) s = Some st"
    by (cases "map_of (sensor_states g) s") (auto simp: map_of_eq_None_iff)
  moreover have "profile_ok p"
    using assms map_of_SomeD by (fastforce simp: gen_ok_def list_all_iff)
  ultimately show thesis
    using that by (simp add: profile_ok_def)
qed

lemma dset_keys: "map_of d k \<noteq> None \<Longrightarrow> map fst (dset k v d) = map fst d"
  by (induction d) (auto split: if_splits)

lemma get_sensor_ok:
  assumes "gen_ok g" and "map_of (sensor_profiles g) s = Some p" and "sine_ok timestamp_ms p"
  obtains b v st' where "get_sensor sin_of draws s timestamp_ms g = (Inr b, g\<lparr>sensor_states := dset s st' (sensor_states g)\<rparr>)"
    and "encode_value v p = Inr b" and "length b = get_byte_size p" and "in_bounds (prof_min p) (prof_max p) v"
    and "current_value st' = v" and "last_update_ms st' = timestamp_ms"
    and "gen_ok (g\<lparr>sensor_states := dset s st' (sensor_states g)\<rparr>)"
proof -
  obtain st where st: "map_of (sensor_states g) s = Some st" "profile_ok p" "prof_min p \<le> prof_max p"
    by (rule gen_ok_sensor [OF assms(1,2)])
  obtain v st' where v: "next_value sin_of draws s timestamp_ms g
        = Inr (v, p, g\<lparr>sensor_states := dset s st' (sensor_states g)\<rparr>)"
      "in_bounds (prof_min p) (prof_max p) v" "current_value st' = v" "last_update_ms st' = timestamp_ms"
    using next_value_ok [OF assms(2) st(1,3) assms(3)] by blast
  obtain b where "encode_value v p = Inr b" "length b = get_byte_size p"
    using encode_ok [OF st(2) v(2)] by blast
  moreover have "gen_ok (g\<lparr>sensor_states := dset s st' (sensor_states g)\<rparr>)"
    using assms(1) st(1) by (simp add: gen_ok_def dset_keys)
  ultimately show thesis
    using that v by (simp add: get_sensor_def)
qed

section \<open>Properties\<close>

text \<open>
  C23: a reading stays in range. Whatever the trend, the elapsed time and the random draws give,
  NaN and infinities included, reading a sensor whose profile fits its type returns a field of
  the size of the type, and the number a receiver decodes from an integer field is the
  nearest one to the sensor's new value and lies between the rounded bounds of the profile.
  The new value is within the bounds, the time of the update is recorded, and the other sensors
  and all profiles are as before. The only exception is the sine of an infinite phase.
\<close>

theorem reading_in_range:
  assumes "gen_ok g" and "map_of (sensor_profiles g) s = Some p" and "sine_ok timestamp_ms p"
  shows "\<exists>b g' v. get_sensor sin_of draws s timestamp_ms g = (Inr b, g')
    \<and> length b = get_byte_size p \<and> prof_min p \<le> v \<and> v \<le> prof_max p
    \<and> map_option current_value (map_of (sensor_states g') s) = Some v
    \<and> map_option last_update_ms (map_of (sensor_states g') s) = Some timestamp_ms
    \<and> (\<forall>s'. s' \<noteq> s \<longrightarrow> map_of (sensor_states g') s' = map_of (sensor_states g) s')
    \<and> sensor_profiles g' = sensor_profiles g
    \<and> (case int_type (profile_type p) of
         None \<Rightarrow> True
       | Some (n, sg) \<Rightarrow>
           \<exists>lo hi. py_round (prof_min p) = Inr lo \<and> py_round (prof_max p) = Inr hi
             \<and> py_round v = Inr (read_int p n sg b) \<and> lo \<le> read_int p n sg b \<and> read_int p n sg b \<le> hi)"
proof -
  obtain b v st' where r: "get_sensor sin_of draws s timestamp_ms g = (Inr b, g\<lparr>sensor_states := dset s st' (sensor_states g)\<rparr>)"
      "encode_value v p = Inr b" "in_bounds (prof_min p) (prof_max p) v" "current_value st' = v" "last_update_ms st' = timestamp_ms"
    by (rule get_sensor_ok [OF assms])
  moreover have "profile_ok p" by (rule gen_ok_sensor [OF assms(1,2)])
  from encode_ok [OF this r(3)] r(2) have "length b = get_byte_size p"
      "case int_type (profile_type p) of
         None \<Rightarrow> True
       | Some (n, sg) \<Rightarrow>
           \<exists>lo hi. py_round (prof_min p) = Inr lo \<and> py_round (prof_max p) = Inr hi
             \<and> py_round v = Inr (read_int p n sg b) \<and> lo \<le> read_int p n sg b \<and> read_int p n sg b \<le> hi"
    by simp_all
  ultimately show ?thesis
    by (intro exI [of _ b] exI [of _ v] exI [of _ "g\<lparr>sensor_states := dset s st' (sensor_states g)\<rparr>"])
      (simp add: in_bounds_def update_conv')
qed

lemma get_multiple_values_ok:
  assumes "gen_ok g"
    and "\<forall>ds \<in> set names. \<exists>p. map_of (sensor_profiles g) (snd ds) = Some p \<and> sine_ok timestamp_ms p"
  shows "\<exists>bs g'. get_multiple_values sin_of names timestamp_ms g = (Inr bs, g') \<and> gen_ok g'
    \<and> sensor_profiles g' = sensor_profiles g
    \<and> length bs = (\<Sum>ds \<leftarrow> names. case map_of (sensor_profiles g) (snd ds) of Some p \<Rightarrow> get_byte_size p | None \<Rightarrow> 0)"
  using assms
proof (induction names arbitrary: g)
  case (Cons ds names)
  obtain draws s where ds: "ds = (draws, s)" by (cases ds)
  then obtain p where p: "map_of (sensor_profiles g) s = Some p" "sine_ok timestamp_ms p"
    using Cons.prems(2) by auto
  obtain b v st' where b: "get_sensor sin_of draws s timestamp_ms g = (Inr b, g\<lparr>sensor_states := dset s st' (sensor_states g)\<rparr>)"
      "encode_value v p = Inr b" "length b = get_byte_size p" "in_bounds (prof_min p) (prof_max p) v"
      "gen_ok (g\<lparr>sensor_states := dset s st' (sensor_states g)\<rparr>)"
    by (rule get_sensor_ok [OF Cons.prems(1) p])
  with Cons.IH [OF b(5)] Cons.prems(2) p ds show ?case by auto
qed simp

definition demo_sensor :: sensor_profile where
  "demo_sensor = \<lparr>profile_name = ''level'', profile_type = INT16, prof_min = fneg (float_of_nat 5), prof_max = float_of_nat 9,
     nominal_value = float_of_nat 1, drift_rate = FInf False, prof_noise = float_of_nat 1, profile_trend = RANDOM_WALK,
     trend_period = None, step_size = None, byte_order = ''little'', profile_source = None, source_scale = float_of_nat 1\<rparr>"

definition demo_generator :: payload_generator where
  "demo_generator = new_generator [demo_sensor]"

theorem reading_in_range_witness:
  "\<exists>b g'. get_sensor id \<lparr>gauss_noise = FNan, gauss_velocity = FInf True, step_up = True\<rparr> ''level'' (float_of_nat 7)
      demo_generator = (Inr b, g') \<and> length b = 2 \<and> - 5 \<le> sign_val 2 (le_val b) \<and> sign_val 2 (le_val b) \<le> 9"
proof -
  have "map_of (sensor_profiles demo_generator) ''level'' = Some demo_sensor"
    by (simp add: demo_generator_def new_generator_def add_profile_def demo_sensor_def)
  moreover have "gen_ok demo_generator"
    by (simp add: gen_ok_def demo_generator_def new_generator_def add_profile_def demo_sensor_def profile_ok_def rounds_in_def
        in_range_def float_of_nat_def scaled_den_def scaled_num_def rne_one less_eq_pyfloat_def)
  moreover have "sine_ok (float_of_nat 7) demo_sensor"
    by (simp add: sine_ok_def demo_sensor_def)
  ultimately show ?thesis
    using reading_in_range [of demo_generator "''level''" demo_sensor "float_of_nat 7" id
        "\<lparr>gauss_noise = FNan, gauss_velocity = FInf True, step_up = True\<rparr>"]
    by (auto simp: demo_sensor_def read_int_def get_byte_size_def float_of_nat_def scaled_den_def scaled_num_def rne_one)
qed

end
