(* ===== verification/ProcessSim.thy ===== *)
theory ProcessSim
  imports ProcessModel Scheduler PayloadGen
begin

text \<open>
  Faults, the binding of process variables to the sensors of the payload generators, and the
  controller that ticks with the orchestrator: \<open>faults.py\<close>, \<open>binder.py\<close> and \<open>controller.py\<close> of
  \<open>backend/app/protocol_engines/process_sim\<close>.

  A tick event of the shared scheduler is the parameter \<open>tick\<close>; the random numbers of one tick
  are the fields of \<open>tick_draws\<close>.
\<close>

section \<open>Faults\<close>

record fault_effect =
  fx_variable :: string
  fx_kind :: string
  fx_value :: pyfloat
  fx_delay :: pyfloat
  fx_applied :: bool

record fault =
  fault_name :: string
  effects :: "fault_effect list"
  trigger :: string
  trigger_time_s :: pyfloat
  trigger_probability :: pyfloat
  activated_at_ms :: pyfloat
  active :: bool

type_synonym model_dict = "(string \<times> process_model) list"

definition unapplied :: "fault_effect list \<Rightarrow> fault_effect list" where
  "unapplied es = map (\<lambda>e. e\<lparr>fx_applied := False\<rparr>) es"

definition activate :: "pyfloat \<Rightarrow> fault \<Rightarrow> fault" where
  "activate current_time_ms f =
     (if active f then f
      else f\<lparr>activated_at_ms := current_time_ms, active := True, effects := unapplied (effects f)\<rparr>)"

definition check_auto_trigger :: "pyfloat \<Rightarrow> pyfloat \<Rightarrow> pyfloat \<Rightarrow> fault \<Rightarrow> fault" where
  "check_auto_trigger rnd sim_time current_time_ms f =
     (if active f then f
      else if trigger f = ''time'' \<and> trigger_time_s f \<le> sim_time then activate current_time_ms f
      else if trigger f = ''random'' \<and> rnd < trigger_probability f then activate current_time_ms f
      else f)"

definition effect_on :: "fault_effect \<Rightarrow> process_variable \<Rightarrow> process_variable" where
  "effect_on e v =
     (if fx_kind e = ''set'' then set_value (fx_value e) (set_target (fx_value e) v)
      else if fx_kind e = ''multiply'' then set_target (fmul (var_value v) (fx_value e)) v
      else if fx_kind e = ''add'' then set_target (fadd (var_value v) (fx_value e)) v
      else v)"

definition has_var :: "string \<Rightarrow> process_model \<Rightarrow> bool" where
  "has_var x m = (map_of (variables m) x \<noteq> None)"

text \<open>The effect hits the first model that has the variable; \<open>None\<close> when there is none.\<close>

fun apply_effect :: "fault_effect \<Rightarrow> model_dict \<Rightarrow> model_dict option" where
  "apply_effect e [] = None"
| "apply_effect e ((k, m) # ms) =
     (if has_var (fx_variable e) m
      then Some ((k, m\<lparr>variables := on_var (fx_variable e) (effect_on e) (variables m)\<rparr>) # ms)
      else map_option (\<lambda>ms. (k, m) # ms) (apply_effect e ms))"

fun step_effects :: "pyfloat \<Rightarrow> fault_effect list \<Rightarrow> model_dict \<Rightarrow> fault_effect list \<times> model_dict" where
  "step_effects elapsed [] ms = ([], ms)"
| "step_effects elapsed (e # es) ms =
     (if fx_applied e \<or> elapsed < fx_delay e then
        (let (es, ms) = step_effects elapsed es ms in (e # es, ms))
      else
        case apply_effect e ms of
          None \<Rightarrow> (let (es, ms) = step_effects elapsed es ms in (e # es, ms))
        | Some ms \<Rightarrow> (let (es, ms) = step_effects elapsed es ms in (e\<lparr>fx_applied := True\<rparr> # es, ms)))"

definition step_fault :: "pyfloat \<Rightarrow> fault \<Rightarrow> model_dict \<Rightarrow> fault \<times> model_dict" where
  "step_fault current_time_ms f ms =
     (if \<not> active f then (f, ms)
      else
        let elapsed_ms = fsub current_time_ms (activated_at_ms f);
            (es, ms) = step_effects elapsed_ms (effects f) ms
        in (f\<lparr>effects := es\<rparr>, ms))"

definition reset_fault :: "fault \<Rightarrow> fault" where
  "reset_fault f = f\<lparr>active := False, activated_at_ms := Fin True 1 0, effects := unapplied (effects f)\<rparr>"

section \<open>Binding variables to sensors\<close>



type_synonym generator_dict = "(string \<times> payload_generator option) list"

record variable_binding =
  variable_name :: string
  binding_flow :: string
  sensor_name :: string
  binding_scale :: pyfloat
  binding_offset :: pyfloat
  clamp_min :: "pyfloat option"
  clamp_max :: "pyfloat option"

definition group_binding ::
    "(string \<times> variable_binding list) list \<Rightarrow> variable_binding \<Rightarrow> (string \<times> variable_binding list) list" where
  "group_binding d b =
     (case map_of d (binding_flow b) of
        None \<Rightarrow> d @ [(binding_flow b, [b])]
      | Some bs \<Rightarrow> on_var (binding_flow b) (\<lambda>bs. bs @ [b]) d)"

definition flow_groups :: "variable_binding list \<Rightarrow> (string \<times> variable_binding list) list" where
  "flow_groups bs = foldl group_binding [] bs"

fun raw_value :: "model_dict \<Rightarrow> string \<Rightarrow> pyfloat option" where
  "raw_value [] x = None"
| "raw_value ((k, m) # ms) x =
     (case map_of (variables m) x of Some v \<Rightarrow> Some (var_value v) | None \<Rightarrow> raw_value ms x)"

definition sensor_value :: "variable_binding \<Rightarrow> pyfloat \<Rightarrow> pyfloat" where
  "sensor_value b raw =
     (let y = fadd (fmul raw (binding_scale b)) (binding_offset b);
          y = (case clamp_min b of Some lo \<Rightarrow> py_max lo y | None \<Rightarrow> y)
      in case clamp_max b of Some hi \<Rightarrow> py_min hi y | None \<Rightarrow> y)"

definition push_sensor :: "string \<Rightarrow> pyfloat \<Rightarrow> payload_generator \<Rightarrow> payload_generator" where
  "push_sensor s y g =
     (if map_of (sensor_states g) s \<noteq> None \<and> map_of (sensor_profiles g) s \<noteq> None
      then g\<lparr>sensor_states := on_var s (\<lambda>st. st\<lparr>current_value := y\<rparr>) (sensor_states g),
             sensor_profiles := on_var s (\<lambda>p. p\<lparr>nominal_value := y, profile_trend := STABLE\<rparr>) (sensor_profiles g)\<rparr>
      else g)"

definition push_binding :: "model_dict \<Rightarrow> payload_generator \<Rightarrow> variable_binding \<Rightarrow> payload_generator" where
  "push_binding ms g b =
     (case raw_value ms (variable_name b) of
        None \<Rightarrow> g
      | Some raw \<Rightarrow> push_sensor (sensor_name b) (sensor_value b raw) g)"

definition push_group :: "model_dict \<Rightarrow> generator_dict \<Rightarrow> string \<times> variable_binding list \<Rightarrow> generator_dict" where
  "push_group ms gens fb =
     on_var (fst fb) (map_option (\<lambda>g. foldl (push_binding ms) g (snd fb))) gens"

definition push_values :: "(string \<times> variable_binding list) list \<Rightarrow> model_dict \<Rightarrow> generator_dict \<Rightarrow> generator_dict" where
  "push_values groups ms gens = foldl (push_group ms) gens groups"

subsection \<open>Automatic binding\<close>

fun str_in :: "string \<Rightarrow> string \<Rightarrow> bool" where
  "str_in x [] = (x = [])"
| "str_in x (c # s) = (take (length x) (c # s) = x \<or> str_in x s)"

fun role_name_hints :: "variable_role \<Rightarrow> string list" where
  "role_name_hints TEMPERATURE = [''temp'', ''temperature'']"
| "role_name_hints PRESSURE = [''press'', ''pressure'']"
| "role_name_hints FLOW_RATE = [''flow'', ''rate'']"
| "role_name_hints LEVEL = [''level'', ''tank'']"
| "role_name_hints SPEED = [''speed'', ''rpm'']"
| "role_name_hints POSITION = [''position'', ''pos'']"
| "role_name_hints POWER = [''power'', ''watt'']"
| "role_name_hints LOAD = [''load'', ''torque'']"
| "role_name_hints VIBRATION = [''vibration'', ''vib'']"
| "role_name_hints CONCENTRATION = [''concentration'', ''ppm'', ''ph'', ''chlorine'']"
| "role_name_hints COUNTER = [''count'', ''counter'', ''part'']"
| "role_name_hints HUMIDITY = [''humidity'', ''rh'']"
| "role_name_hints VALVE_POSITION = [''valve'', ''damper'']"
| "role_name_hints STATUS = [''status'', ''state'', ''run'']"
| "role_name_hints SETPOINT = []"

record auto_state =
  auto_bindings :: "variable_binding list"
  bound_sensors :: "string list"
  bound_vars :: "string list"

definition plain_binding :: "string \<Rightarrow> string \<Rightarrow> string \<Rightarrow> pyfloat \<Rightarrow> variable_binding" where
  "plain_binding x flow s scale =
     \<lparr>variable_name = x, binding_flow = flow, sensor_name = s, binding_scale = scale,
      binding_offset = float_of_nat 0, clamp_min = None, clamp_max = None\<rparr>"

definition bind_sensor :: "string \<Rightarrow> string \<Rightarrow> pyfloat \<Rightarrow> string \<Rightarrow> auto_state \<Rightarrow> auto_state" where
  "bind_sensor flow x scale s st =
     st\<lparr>auto_bindings := auto_bindings st @ [plain_binding x flow s scale],
        bound_sensors := s # bound_sensors st, bound_vars := x # bound_vars st\<rparr>"

definition source_turn ::
    "string \<Rightarrow> string \<Rightarrow> auto_state \<Rightarrow> string \<times> sensor_profile \<Rightarrow> auto_state" where
  "source_turn flow x st sp =
     (if fst sp \<in> set (bound_sensors st) then st
      else if profile_source (snd sp) = Some x then bind_sensor flow x (source_scale (snd sp)) (fst sp) st
      else st)"

definition source_pass ::
    "string \<Rightarrow> (string \<times> sensor_profile) list \<Rightarrow> (string \<times> process_variable) list \<Rightarrow> auto_state \<Rightarrow> auto_state" where
  "source_pass flow profs vars st =
     foldl (\<lambda>st (x, _). foldl (source_turn flow x) st profs) st vars"

definition match_turn ::
    "(string \<Rightarrow> process_variable \<Rightarrow> string \<Rightarrow> bool) \<Rightarrow> string \<Rightarrow> string list \<Rightarrow> auto_state
     \<Rightarrow> string \<times> process_variable \<Rightarrow> auto_state" where
  "match_turn fits flow names st xv =
     (if fst xv \<in> set (bound_vars st) then st
      else case find (\<lambda>s. s \<notin> set (bound_sensors st) \<and> fits (fst xv) (snd xv) s) names of
             Some s \<Rightarrow> bind_sensor flow (fst xv) (float_of_nat 1) s st
           | None \<Rightarrow> st)"

definition by_name :: "string \<Rightarrow> process_variable \<Rightarrow> string \<Rightarrow> bool" where
  "by_name x v s = (str_in x s \<or> str_in s x)"

definition by_role :: "string \<Rightarrow> process_variable \<Rightarrow> string \<Rightarrow> bool" where
  "by_role x v s = list_ex (\<lambda>h. str_in h (lower s)) (role_name_hints (var_role v))"

definition positional_pass ::
    "string \<Rightarrow> string list \<Rightarrow> (string \<times> process_variable) list \<Rightarrow> auto_state \<Rightarrow> variable_binding list" where
  "positional_pass flow names vars st =
     auto_bindings st @
     map (\<lambda>((x, _), s). plain_binding x flow s (float_of_nat 1))
       (zip (filter (\<lambda>(x, _). x \<notin> set (bound_vars st)) vars) (filter (\<lambda>s. s \<notin> set (bound_sensors st)) names))"

definition bind_flow ::
    "(string \<times> process_variable) list \<Rightarrow> string \<Rightarrow> payload_generator \<Rightarrow> variable_binding list" where
  "bind_flow vars flow g =
     (let names = map fst (sensor_profiles g)
      in if names = [] then []
         else
           let st = \<lparr>auto_bindings = [], bound_sensors = [], bound_vars = []\<rparr>;
               st = source_pass flow (sensor_profiles g) vars st;
               st = foldl (match_turn by_name flow names) st vars;
               st = foldl (match_turn by_role flow names) st vars
           in positional_pass flow names vars st)"

definition all_variables :: "model_dict \<Rightarrow> (string \<times> process_variable) list" where
  "all_variables ms = concat (map (\<lambda>(_, m). map (\<lambda>(_, v). (var_name v, v)) (variables m)) ms)"

definition auto_bind :: "model_dict \<Rightarrow> generator_dict \<Rightarrow> variable_binding list" where
  "auto_bind ms gens =
     concat (map (\<lambda>(flow, g). case g of None \<Rightarrow> [] | Some g \<Rightarrow> bind_flow (all_variables ms) flow g) gens)"

section \<open>The controller\<close>

record controller =
  ctl_models :: model_dict
  ctl_generators :: generator_dict
  step_interval_ms :: pyfloat
  last_step_ms :: pyfloat
  ctl_faults :: "fault list"
  pending_command :: "(string \<times> string) list option"
  last_phase_id :: "string option"
  flow_bindings :: "(string \<times> variable_binding list) list"

record tick_draws =
  model_draws :: "string \<Rightarrow> draws"
  fault_coin :: "nat \<Rightarrow> pyfloat"

definition new_controller ::
    "pyfloat \<Rightarrow> variable_binding list \<Rightarrow> process_model list \<Rightarrow> generator_dict \<Rightarrow> fault list \<Rightarrow> controller" where
  "new_controller interval bindings models gens faults =
     (let ms = foldl (\<lambda>d m. dict_put (model_id m) m d) [] models
      in \<lparr>ctl_models = ms, ctl_generators = gens, step_interval_ms = interval, last_step_ms = float_of_nat 0,
          ctl_faults = faults, pending_command = None, last_phase_id = None,
          flow_bindings = flow_groups (if bindings \<noteq> [] then bindings else auto_bind ms gens)\<rparr>)"

definition schedule_initial_events :: "'e \<Rightarrow> pyfloat \<Rightarrow> controller \<Rightarrow> 'e scheduler \<Rightarrow> 'e scheduler" where
  "schedule_initial_events tick warmup_ms c q = schedule q (fadd warmup_ms (step_interval_ms c)) tick"

definition on_models :: "(process_model \<Rightarrow> process_model) \<Rightarrow> controller \<Rightarrow> controller" where
  "on_models f c = c\<lparr>ctl_models := on_all f (ctl_models c)\<rparr>"

fun activate_named :: "string \<Rightarrow> pyfloat \<Rightarrow> fault list \<Rightarrow> fault list" where
  "activate_named n t [] = []"
| "activate_named n t (f # fs) = (if fault_name f = n then activate t f # fs else f # activate_named n t fs)"

definition cmd_get :: "(string \<times> string) list \<Rightarrow> string \<Rightarrow> string" where
  "cmd_get cmd k = (case map_of cmd k of Some s \<Rightarrow> s | None \<Rightarrow> [])"

definition process_command :: "(string \<times> string) list \<Rightarrow> pyfloat \<Rightarrow> controller \<Rightarrow> controller" where
  "process_command cmd current_time_ms c =
     (let action = cmd_get cmd ''action''
      in if action = ''trigger_fault'' then
           c\<lparr>ctl_faults := activate_named (cmd_get cmd ''fault_name'') current_time_ms (ctl_faults c)\<rparr>
         else if action = ''force_state'' then
           (case process_state_of (cmd_get cmd ''state'') of
              Inr st \<Rightarrow> on_models (force_state st) c
            | Inl _ \<Rightarrow> c)
         else if action = ''reset'' then
           (on_models reset_model c)\<lparr>ctl_faults := map reset_fault (ctl_faults c)\<rparr>
         else c)"

definition take_command :: "pyfloat \<Rightarrow> controller \<Rightarrow> controller" where
  "take_command current_time_ms c =
     (case pending_command c of
        Some cmd \<Rightarrow> process_command cmd current_time_ms (c\<lparr>pending_command := None\<rparr>)
      | None \<Rightarrow> c)"

definition tick_dt :: "pyfloat \<Rightarrow> controller \<Rightarrow> pyfloat res" where
  "tick_dt current_time_ms c =
     py_div (if float_of_nat 0 < last_step_ms c then fsub current_time_ms (last_step_ms c) else step_interval_ms c)
       (float_of_nat 1000)"

definition step_models :: "tick_draws \<Rightarrow> pyfloat \<Rightarrow> model_dict \<Rightarrow> model_dict res" where
  "step_models d dt_s ms =
     mapM (\<lambda>(k, m). bnd (step_model (model_draws d k) dt_s m) (\<lambda>(_, m). Inr (k, m))) ms"

text \<open>\<open>max(.., default=0.0)\<close>\<close>

definition max_sim :: "model_dict \<Rightarrow> pyfloat" where
  "max_sim ms =
     (case map (\<lambda>(_, m). sim_time_s m) ms of [] \<Rightarrow> float_of_nat 0 | t # ts \<Rightarrow> foldl py_max t ts)"

fun run_faults :: "tick_draws \<Rightarrow> pyfloat \<Rightarrow> nat \<Rightarrow> fault list \<Rightarrow> model_dict \<Rightarrow> fault list \<times> model_dict" where
  "run_faults d now_ms i [] ms = ([], ms)"
| "run_faults d now_ms i (f # fs) ms =
     (let f = (if active f then f else check_auto_trigger (fault_coin d i) (max_sim ms) now_ms f);
          (f, ms) = step_fault now_ms f ms;
          (fs, ms) = run_faults d now_ms (Suc i) fs ms
      in (f # fs, ms))"

definition tick_models :: "tick_draws \<Rightarrow> pyfloat \<Rightarrow> controller \<Rightarrow> controller res" where
  "tick_models d current_time_ms c =
     (let c = take_command current_time_ms c
      in bnd (tick_dt current_time_ms c) (\<lambda>dt_s.
         let c = c\<lparr>last_step_ms := current_time_ms\<rparr>
         in bnd (step_models d dt_s (ctl_models c)) (\<lambda>ms.
            let (fs, ms) = run_faults d current_time_ms 0 (ctl_faults c) ms
            in Inr (c\<lparr>ctl_models := ms, ctl_faults := fs,
                      ctl_generators := push_values (flow_bindings c) ms (ctl_generators c)\<rparr>))))"

definition handle_tick ::
    "'e \<Rightarrow> tick_draws \<Rightarrow> pyfloat \<Rightarrow> controller \<times> 'e scheduler \<Rightarrow> (controller \<times> 'e scheduler) res" where
  "handle_tick tick d current_time_ms cq =
     bnd (tick_models d current_time_ms (fst cq)) (\<lambda>c.
     Inr (c, schedule (snd cq) (fadd current_time_ms (step_interval_ms c)) tick))"

fun phase_to_state :: "string \<Rightarrow> process_state option" where
  "phase_to_state p =
     map_of [(''startup'', WARMING_UP), (''steady_state'', STEADY_STATE), (''steady'', STEADY_STATE),
             (''maintenance'', MAINTENANCE), (''shutdown'', SHUTDOWN)] p"

definition on_phase_change :: "string \<Rightarrow> controller \<Rightarrow> controller" where
  "on_phase_change phase_id c =
     (if last_phase_id c = Some phase_id then c
      else
        let c = c\<lparr>last_phase_id := Some phase_id\<rparr>
        in case phase_to_state phase_id of
             None \<Rightarrow> c
           | Some st \<Rightarrow> on_models (force_state st) c)"

definition set_pending_command :: "(string \<times> string) list \<Rightarrow> controller \<Rightarrow> controller" where
  "set_pending_command cmd c = c\<lparr>pending_command := Some cmd\<rparr>"

section \<open>Runs of the controller\<close>

text \<open>
  What can happen to a controller: a tick that returns, a phase change, a command put into the
  mailbox from another thread.
\<close>

inductive ctl_step :: "controller \<Rightarrow> controller \<Rightarrow> bool" where
  tick: "tick_models d t c = Inr c' \<Longrightarrow> ctl_step c c'"
| phase: "ctl_step c (on_phase_change p c)"
| command: "ctl_step c (set_pending_command cmd c)"

inductive_cases ctl_stepE: "ctl_step c c'"

definition ctl_reach :: "controller \<Rightarrow> controller \<Rightarrow> bool" where
  "ctl_reach = ctl_step\<^sup>*\<^sup>*"

lemma ctl_reach_invariant:
  assumes "ctl_reach c c'" and "P c" and "\<And>c c'. P c \<Longrightarrow> ctl_step c c' \<Longrightarrow> P c'"
  shows "P c'"
  using assms(1) unfolding ctl_reach_def
  by (induction rule: rtranclp_induct) (auto intro: assms(2,3))

lemma tick_parts:
  assumes "tick_models d t c = Inr c'"
  obtains dt ms fs ms' where "step_models d dt (ctl_models (take_command t c)) = Inr ms"
    and "run_faults d t 0 (ctl_faults (take_command t c)) ms = (fs, ms')" and "ctl_models c' = ms'"
    and "ctl_faults c' = fs" and "tick_dt t (take_command t c) = Inr dt"
    and "ctl_generators c' = push_values (flow_bindings (take_command t c)) ms' (ctl_generators (take_command t c))"
    and "flow_bindings c' = flow_bindings (take_command t c)"
    and "step_interval_ms c' = step_interval_ms (take_command t c)" and "last_step_ms c' = t"
proof -
  let ?c = "take_command t c"
  obtain dt ms where dt: "tick_dt t ?c = Inr dt" and ms: "step_models d dt (ctl_models ?c) = Inr ms"
    using assms by (auto simp: tick_models_def Let_def res_simps)
  obtain fs ms' where "run_faults d t 0 (ctl_faults ?c) ms = (fs, ms')" by fastforce
  with dt ms assms show thesis
    by (intro that [of dt ms fs ms']) (auto simp: tick_models_def Let_def)
qed

text \<open>
  Every way the controller changes a model is a step of the model, a forced state, a reset, or
  an effect on a variable; a property of models that these keep is kept by the controller.
\<close>

locale model_property =
  fixes P :: "process_model \<Rightarrow> bool"
  assumes step_keeps: "step_model d dt m = Inr (ns, m') \<Longrightarrow> P m \<Longrightarrow> P m'"
    and force_keeps: "P m \<Longrightarrow> P (force_state st m)"
    and reset_keeps: "P m \<Longrightarrow> P (reset_model m)"
    and effect_keeps: "P m \<Longrightarrow> P (m\<lparr>variables := on_var x (effect_on e) (variables m)\<rparr>)"
begin

lemma step_models_keeps: "step_models d dt ms = Inr ms' \<Longrightarrow> dict_all P ms \<Longrightarrow> dict_all P ms'"
proof (induction ms arbitrary: ms')
  case (Cons a ms)
  then show ?case
    by (cases a) (auto simp: step_models_def res_simps split: prod.splits dest: step_keeps)
qed (simp add: step_models_def)

lemma on_models_keeps: "dict_all P (ctl_models c) \<Longrightarrow> (\<And>m. P m \<Longrightarrow> P (f m)) \<Longrightarrow> dict_all P (ctl_models (on_models f c))"
  by (simp add: on_models_def dict_all_on_all)

lemma apply_effect_keeps: "apply_effect e ms = Some ms' \<Longrightarrow> dict_all P ms \<Longrightarrow> dict_all P ms'"
  by (induction e ms arbitrary: ms' rule: apply_effect.induct)
    (auto simp: effect_keeps split: if_splits)

lemma step_effects_keeps: "step_effects el es ms = (es', ms') \<Longrightarrow> dict_all P ms \<Longrightarrow> dict_all P ms'"
  by (induction el es ms arbitrary: es' ms' rule: step_effects.induct)
    (auto split: if_splits option.splits prod.splits dest: apply_effect_keeps)

lemma run_faults_keeps: "run_faults d t i fs ms = (fs', ms') \<Longrightarrow> dict_all P ms \<Longrightarrow> dict_all P ms'"
proof (induction fs arbitrary: i ms fs' ms')
  case (Cons f fs)
  define g where "g = (if active f then f else check_auto_trigger (fault_coin d i) (max_sim ms) t f)"
  obtain g' ms1 where g': "step_fault t g ms = (g', ms1)" by fastforce
  then have "dict_all P ms1"
    using Cons.prems(2) by (auto simp: step_fault_def Let_def split: if_splits prod.splits dest: step_effects_keeps)
  moreover obtain fs1 where "run_faults d t (Suc i) fs ms1 = (fs1, ms')"
    using Cons.prems(1) g' by (auto simp: Let_def g_def [symmetric] split: prod.splits)
  ultimately show ?case using Cons.IH by blast
qed simp

lemma process_command_keeps:
  "dict_all P (ctl_models c) \<Longrightarrow> dict_all P (ctl_models (process_command cmd t c))"
  using on_models_keeps [of c reset_model] on_models_keeps [of c "force_state _"] force_keeps reset_keeps
  by (auto simp: process_command_def Let_def split: sum.splits)

lemma take_command_keeps: "dict_all P (ctl_models c) \<Longrightarrow> dict_all P (ctl_models (take_command t c))"
  using process_command_keeps [of "c\<lparr>pending_command := None\<rparr>"]
  by (simp add: take_command_def split: option.split)

lemma tick_keeps:
  assumes "tick_models d t c = Inr c'" and "dict_all P (ctl_models c)"
  shows "dict_all P (ctl_models c')"
proof -
  let ?c = "take_command t c"
  obtain dt ms fs ms' where "step_models d dt (ctl_models ?c) = Inr ms"
      and "run_faults d t 0 (ctl_faults ?c) ms = (fs, ms')" and "ctl_models c' = ms'"
    by (rule tick_parts [OF assms(1)])
  then show ?thesis
    using take_command_keeps [OF assms(2), of t] step_models_keeps run_faults_keeps by blast
qed

lemma phase_keeps: "dict_all P (ctl_models c) \<Longrightarrow> dict_all P (ctl_models (on_phase_change p c))"
  using on_models_keeps [of "c\<lparr>last_phase_id := Some p\<rparr>"] force_keeps
  by (simp add: on_phase_change_def Let_def del: phase_to_state.simps split: option.split)

theorem reach_keeps:
  assumes "ctl_reach c c'" and "dict_all P (ctl_models c)"
  shows "dict_all P (ctl_models c')"
  using assms(1)
proof (rule ctl_reach_invariant)
  show "dict_all P (ctl_models c2)" if "dict_all P (ctl_models c1)" and "ctl_step c1 c2" for c1 c2
    using that(2)
    by (elim ctl_stepE) (use that(1) in \<open>auto simp: tick_keeps phase_keeps set_pending_command_def\<close>)
qed (rule assms(2))

end

lemma effect_on_ok [keeps]: "var_ok v \<Longrightarrow> var_ok (effect_on e v)"
  by (simp add: effect_on_def set_target_ok set_value_ok)

interpretation bounded: model_property model_ok
proof
  show "model_ok m'" if "step_model d dt m = Inr (ns, m')" and "model_ok m" for m d dt ns m'
    using that by (rule step_model_ok)
  show "model_ok (m\<lparr>variables := on_var x (effect_on e) (variables m)\<rparr>)" if "model_ok m" for m x e
    using that by (simp add: model_ok_def dict_all_on_var effect_on_ok)
qed (simp_all add: force_state_ok reset_model_ok)

lemma new_controller_models:
  assumes "\<forall>m \<in> set models. P m"
  shows "dict_all P (ctl_models (new_controller interval bs models gens faults))"
proof -
  have "dict_all P d \<Longrightarrow> \<forall>m \<in> set ms. P m \<Longrightarrow> dict_all P (foldl (\<lambda>d m. dict_put (model_id m) m d) d ms)" for d ms
    by (induction ms arbitrary: d) (auto intro: dict_all_put)
  from this [of "[]" models] assms show ?thesis
    by (simp add: new_controller_def Let_def dict_all_def [of _ "[]"])
qed

lemma equations_kept:
  "step_model d dt m = Inr (ns, m') \<Longrightarrow> equations m' = equations m"
  "equations (force_state st m) = equations m"
  "equations (reset_model m) = equations m"
  by (auto simp: step_model_def force_state_def reset_model_def Let_def res_simps split: prod.splits)

interpretation sound: model_property "\<lambda>m. model_ok m \<and> equations_total m"
proof
  show "model_ok m' \<and> equations_total m'"
    if "step_model d dt m = Inr (ns, m')" and "model_ok m \<and> equations_total m" for m d dt ns m'
    using that step_model_ok equations_kept(1) model_keys(1) by (fastforce simp: equations_total_def)
  show "model_ok (m\<lparr>variables := on_var x (effect_on e) (variables m)\<rparr>)
      \<and> equations_total (m\<lparr>variables := on_var x (effect_on e) (variables m)\<rparr>)"
    if "model_ok m \<and> equations_total m" for m x e
    using that bounded.effect_keeps by (simp add: equations_total_def)
qed (simp_all add: force_state_ok reset_model_ok equations_total_def equations_kept model_keys)

section \<open>Properties of runs\<close>

text \<open>A model as the constructors make it from well-configured variables.\<close>

definition configured :: "process_model \<Rightarrow> bool" where
  "configured m \<longleftrightarrow> (\<exists>mid vars eqs trs st. m = new_process_model mid (map post_init vars) eqs trs st
     \<and> (\<forall>v \<in> set vars. var_config_ok v))"

lemma configured_ok: "configured m \<Longrightarrow> model_ok m"
  by (auto simp: configured_def new_process_model_ok)

text \<open>
  C8: a simulated quantity never leaves its range. The variables of the models have ordered bounds,
  initial values between them and binary64 time constants. Whatever ticks, phase changes and
  commands the controller goes through, and whatever the equations, the noise and the faults
  compute, NaN and infinities included, the value and the target of every variable of every model
  lie between the variable's bounds.
\<close>

theorem process_values_bounded:
  assumes "ctl_reach (new_controller interval bs models gens faults) c"
    and "\<forall>m \<in> set models. configured m"
    and "(k, m) \<in> set (ctl_models c)" and "(x, v) \<in> set (variables m)"
  shows "min_value v \<le> var_value v \<and> var_value v \<le> max_value v
    \<and> min_value v \<le> var_target v \<and> var_target v \<le> max_value v"
proof -
  have "\<forall>m \<in> set models. model_ok m"
    using assms(2) configured_ok by blast
  then have "dict_all model_ok (ctl_models c)"
    by (intro bounded.reach_keeps [OF assms(1)] new_controller_models)
  with assms(3,4) have "var_ok v"
    by (fastforce simp: dict_all_def model_ok_def)
  then show ?thesis by (simp add: var_ok_def in_bounds_def)
qed

lemma process_tick_sound:
  assumes "ctl_reach (new_controller interval bs models gens faults) c"
    and "\<forall>m \<in> set models. configured m \<and> equations_total m"
  shows "\<exists>c'. tick_models d t c = Inr c' \<and> step_interval_ms c' = step_interval_ms c \<and> last_step_ms c' = t \<and> pending_command c' = None"
proof -
  let ?P = "\<lambda>m. model_ok m \<and> equations_total m"
  let ?c = "take_command t c"
  have "\<forall>m \<in> set models. ?P m"
    using assms(2) configured_ok by blast
  then have "dict_all ?P (ctl_models c)"
    by (intro sound.reach_keeps [OF assms(1)] new_controller_models)
  then have P: "dict_all ?P (ctl_models ?c)" by (rule sound.take_command_keeps)
  obtain dt where dt: "tick_dt t ?c = Inr dt"
    by (auto simp: tick_dt_def py_div_def float_of_nat_def)
  then have "f_valid dt" unfolding tick_dt_def by (rule py_div_valid)
  then have "is_ok (step_model dd dt m)" if "(k, m) \<in> set (ctl_models ?c)" for k m dd
    using P that step_model_total by (fastforce simp: dict_all_def)
  then have "is_ok (step_models d dt (ctl_models ?c))"
    by (auto simp: step_models_def mapM_is_ok is_ok_bnd) (fastforce simp: is_ok_iff)
  then obtain ms where ms: "step_models d dt (ctl_models ?c) = Inr ms"
    by (auto simp: is_ok_iff)
  have kept: "step_interval_ms ?c = step_interval_ms c" "pending_command ?c = None"
    by (auto simp: take_command_def process_command_def on_models_def Let_def split: option.split sum.split)
  obtain fs ms' where "run_faults d t 0 (ctl_faults ?c) ms = (fs, ms')" by fastforce
  with dt ms kept show ?thesis
    by (simp add: tick_models_def Let_def)
qed

text \<open>
  C9: a tick never fails and keeps the simulation going. The variables have ordered bounds, initial
  values between them and binary64 time constants, and the equations of a model, which are
  parameters, return on every dict that has the variables of the model. Then in every state the
  controller can reach the handling of a tick returns: no division by zero, no missing variable, no
  other exception. It adds exactly one event to the shared queue, the next
  tick, one interval later.
\<close>

theorem process_tick_total:
  assumes "ctl_reach (new_controller interval bs models gens faults) c"
    and "\<forall>m \<in> set models. configured m \<and> equations_total m"
  shows "\<exists>c' q'. handle_tick tick d t (c, q) = Inr (c', q')
    \<and> queued q' = queued q + {#(fadd t (step_interval_ms c), tick)#}
    \<and> last_step_ms c' = t \<and> pending_command c' = None"
proof -
  obtain c' where "tick_models d t c = Inr c'"
      and "step_interval_ms c' = step_interval_ms c" "last_step_ms c' = t" "pending_command c' = None"
    using process_tick_sound [OF assms] by blast
  then show ?thesis
    by (simp add: handle_tick_def schedule_def queued_def mset_heappush)
qed

definition demo_var :: process_variable where
  "demo_var = \<lparr>var_name = ''temp'', var_role = TEMPERATURE, initial_value = float_of_nat 50,
     min_value = float_of_nat 0, max_value = float_of_nat 100, noise_std = float_of_nat 0,
     time_constant_s = float_of_nat 0, state_setpoints = [(''steady_state'', float_of_nat 80), (''shutdown'', float_of_nat 500)],
     var_value = FNan, var_target = FNan\<rparr>"

definition demo_model :: process_model where
  "demo_model = new_process_model ''m'' (map post_init [demo_var])
     [\<lparr>eq_target = ''temp'', eq_kind = ''algebraic'',
       eq_func = (\<lambda>v. case map_of v ''temp'' of Some x \<Rightarrow> Inr (fadd x (FInf False)) | None \<Rightarrow> Inl KeyError)\<rparr>] [] STEADY_STATE"

definition demo_controller :: controller where
  "demo_controller = new_controller (float_of_nat 100) [] [demo_model] [] []"

definition demo_draws :: tick_draws where
  "demo_draws = \<lparr>model_draws = (\<lambda>_. \<lparr>coin = (\<lambda>_. float_of_nat 0), gauss = (\<lambda>_. float_of_nat 0)\<rparr>), fault_coin = (\<lambda>_. float_of_nat 0)\<rparr>"

lemma demo_var_ok: "var_config_ok demo_var"
  by (simp add: var_config_ok_def demo_var_def in_bounds_def less_eq_pyfloat_def float_of_nat_def)

lemma demo_model_configured: "configured demo_model"
  unfolding configured_def demo_model_def using demo_var_ok by fastforce

lemma demo_model_total: "equations_total demo_model"
proof -
  have "is_ok (case map_of vals ''temp'' of Some x \<Rightarrow> Inr (fadd x (FInf False)) | None \<Rightarrow> Inl KeyError)"
    if "map fst vals = map fst (variables demo_model)" for vals :: "(string \<times> pyfloat) list"
  proof -
    have "''temp'' \<in> set (map fst vals)"
      unfolding that by (simp add: demo_model_def new_process_model_def new_state_machine_def apply_state_setpoints_def post_init_def
          demo_var_def Let_def)
    then have "''temp'' \<in> dom (map_of vals)" by (simp add: dom_map_of_conv_image_fst)
    then show ?thesis by auto
  qed
  then show ?thesis
    unfolding equations_total_def by (simp add: demo_model_def new_process_model_def new_state_machine_def new_equation_set_def)
qed

lemma demo_var_clamp: "py_max (float_of_nat 0) (py_min (float_of_nat 100) (float_of_nat 80)) = float_of_nat 80"
  by (simp add: py_max_def py_min_def less_pyfloat_def float_of_nat_def)

lemma demo_model_entry:
  "ctl_models demo_controller = [(''m'', demo_model)]"
  "variables demo_model = [(''temp'', demo_var\<lparr>var_value := float_of_nat 50, var_target := float_of_nat 80\<rparr>)]"
  by (simp_all add: demo_controller_def new_controller_def demo_model_def new_process_model_def new_state_machine_def
      post_init_def demo_var_def apply_state_setpoints_def on_all_def apply_state_setpoint_def set_target_def clamped_def
      demo_var_clamp Let_def)

lemma demo_reach: "ctl_reach demo_controller demo_controller"
  by (simp add: ctl_reach_def)

text \<open>
  A phase change that commands a temperature of 500 in a plant bounded by 100.
\<close>

lemma demo_shutdown_entry:
  "\<exists>m v. (''m'', m) \<in> set (ctl_models (on_phase_change ''shutdown'' demo_controller)) \<and> (''temp'', v) \<in> set (variables m)
     \<and> map_of (state_setpoints v) ''shutdown'' = Some (float_of_nat 500) \<and> min_value v = float_of_nat 0 \<and> max_value v = float_of_nat 100"
  by (simp add: on_phase_change_def on_models_def demo_model_entry force_state_def force_machine_def enter_state_def
      apply_state_setpoints_def on_all_def apply_state_setpoint_def set_target_def demo_var_def)

theorem process_values_bounded_witness:
  "\<exists>m v. (''m'', m) \<in> set (ctl_models (on_phase_change ''shutdown'' demo_controller)) \<and> (''temp'', v) \<in> set (variables m)
     \<and> map_of (state_setpoints v) ''shutdown'' = Some (float_of_nat 500)
     \<and> float_of_nat 0 \<le> var_target v \<and> var_target v \<le> float_of_nat 100"
proof -
  have "ctl_step demo_controller (on_phase_change ''shutdown'' demo_controller)" by (rule ctl_step.phase)
  then have r: "ctl_reach demo_controller (on_phase_change ''shutdown'' demo_controller)"
    by (simp add: ctl_reach_def)
  have c: "\<forall>m \<in> set [demo_model]. configured m" by (simp add: demo_model_configured)
  obtain m v where v: "(''m'', m) \<in> set (ctl_models (on_phase_change ''shutdown'' demo_controller))" "(''temp'', v) \<in> set (variables m)"
    "map_of (state_setpoints v) ''shutdown'' = Some (float_of_nat 500)" "min_value v = float_of_nat 0" "max_value v = float_of_nat 100"
    using demo_shutdown_entry by blast
  from process_values_bounded [OF r [unfolded demo_controller_def] c v(1) [unfolded demo_controller_def] v(2)] v show ?thesis
    by auto
qed

theorem process_tick_total_witness:
  "\<exists>c' q'. handle_tick (0::nat) demo_draws (float_of_nat 100) (demo_controller, new_scheduler) = Inr (c', q')
     \<and> queued q' = {#(fadd (float_of_nat 100) (float_of_nat 100), 0)#}"
proof -
  have "\<forall>m \<in> set [demo_model]. configured m \<and> equations_total m"
    by (simp add: demo_model_configured demo_model_total)
  moreover have "step_interval_ms demo_controller = float_of_nat 100"
    by (simp add: demo_controller_def new_controller_def Let_def)
  ultimately show ?thesis
    using process_tick_total [OF demo_reach [unfolded demo_controller_def], folded demo_controller_def,
        of "0::nat" demo_draws "float_of_nat 100" new_scheduler]
    by auto
qed

section \<open>Faults\<close>

text \<open>The effects that a step applies, and what they do to the models.\<close>

definition has_any :: "string \<Rightarrow> model_dict \<Rightarrow> bool" where
  "has_any x ms = list_ex (\<lambda>(_, m). has_var x m) ms"

definition due :: "pyfloat \<Rightarrow> model_dict \<Rightarrow> fault_effect \<Rightarrow> bool" where
  "due elapsed ms e \<longleftrightarrow> \<not> fx_applied e \<and> \<not> elapsed < fx_delay e \<and> has_any (fx_variable e) ms"

definition hit :: "fault_effect \<Rightarrow> model_dict \<Rightarrow> model_dict" where
  "hit e ms = (case apply_effect e ms of Some ms \<Rightarrow> ms | None \<Rightarrow> ms)"

lemma has_var_on_var [simp]: "has_var x (m\<lparr>variables := on_var y f (variables m)\<rparr>) = has_var x m"
  by (simp add: has_var_def map_of_on_var)

lemma apply_effect_None: "apply_effect e ms = None \<longleftrightarrow> \<not> has_any (fx_variable e) ms"
  by (induction e ms rule: apply_effect.induct) (auto simp: has_any_def)

lemma apply_effect_has_any: "apply_effect e ms = Some ms' \<Longrightarrow> has_any y ms' = has_any y ms"
proof (induction e ms arbitrary: ms' rule: apply_effect.induct)
  case (2 e k m ms)
  then show ?case by (cases "has_var (fx_variable e) m") (auto simp: has_any_def)
qed simp

lemma due_hit [simp]: "due el (hit e ms) = due el ms"
  using apply_effect_has_any [of e ms] by (auto simp: fun_eq_iff due_def hit_def split: option.split)

lemma step_effects_eq:
  "step_effects el es ms =
     (map (\<lambda>e. if due el ms e then e\<lparr>fx_applied := True\<rparr> else e) es, fold hit (filter (due el ms) es) ms)"
proof (induction el es ms rule: step_effects.induct)
  case (2 el e es ms)
  show ?case
  proof (cases "fx_applied e \<or> el < fx_delay e")
    case True
    then have "\<not> due el ms e" by (auto simp: due_def)
    with True 2 show ?thesis by simp
  next
    case False
    show ?thesis
    proof (cases "apply_effect e ms")
      case None
      then have "\<not> due el ms e" by (simp add: due_def apply_effect_None)
      with False None 2 show ?thesis by simp
    next
      case (Some ms')
      then have "due el ms e" "hit e ms = ms'"
        using False apply_effect_None [of e ms] by (auto simp: due_def hit_def)
      moreover from this have "due el ms' = due el ms" by (metis due_hit)
      ultimately show ?thesis using False Some 2 by simp
    qed
  qed
qed simp

text \<open>
  C11: an effect of a fault hits once, and not before its time. A step of an active fault applies,
  in order, exactly the effects not applied yet whose delay since the activation has passed and
  whose variable exists; it marks exactly these. An effect that was applied, in this step or
  before, is due in no later step, whatever the time and the models; and activating the fault
  again while it is active does not change that.
\<close>

theorem fault_effects_once:
  assumes "active f" and "step_fault t f ms = (f', ms')"
  shows "active f' \<and> activated_at_ms f' = activated_at_ms f \<and> activate t2 f' = f'
    \<and> ms' = fold hit (filter (due (fsub t (activated_at_ms f)) ms) (effects f)) ms
    \<and> length (effects f') = length (effects f)
    \<and> (\<forall>i < length (effects f).
         (if fx_applied (effects f ! i) \<or> due (fsub t (activated_at_ms f)) ms (effects f ! i)
          then \<not> due (fsub t2 (activated_at_ms f)) ms2 (effects f' ! i)
          else effects f' ! i = effects f ! i))"
proof -
  have "f' = f\<lparr>effects := map (\<lambda>e. if due (fsub t (activated_at_ms f)) ms e then e\<lparr>fx_applied := True\<rparr> else e) (effects f)\<rparr>"
    and "ms' = fold hit (filter (due (fsub t (activated_at_ms f)) ms) (effects f)) ms"
    using assms by (simp_all add: step_fault_def step_effects_eq Let_def)
  then show ?thesis
    using assms(1) by (auto simp: activate_def due_def)
qed

definition demo_fault :: fault where
  "demo_fault = \<lparr>fault_name = ''stuck'', effects =
       [\<lparr>fx_variable = ''temp'', fx_kind = ''set'', fx_value = float_of_nat 100, fx_delay = float_of_nat 0, fx_applied = False\<rparr>,
        \<lparr>fx_variable = ''temp'', fx_kind = ''add'', fx_value = float_of_nat 1, fx_delay = FInf False, fx_applied = False\<rparr>],
     trigger = ''manual'', trigger_time_s = float_of_nat 0, trigger_probability = float_of_nat 0,
     activated_at_ms = float_of_nat 100, active = True\<rparr>"

lemma demo_fault_due:
  "due (fsub (float_of_nat 100) (activated_at_ms demo_fault)) [(''m'', demo_model)] (effects demo_fault ! 0)"
  by (simp add: due_def has_any_def has_var_def demo_model_entry demo_fault_def float_of_nat_def fsub_def less_pyfloat_def)

theorem fault_effects_once_witness:
  "\<not> due (fsub (FInf False) (float_of_nat 100)) [(''m'', demo_model)]
       (effects (fst (step_fault (float_of_nat 100) demo_fault [(''m'', demo_model)])) ! 0)"
proof -
  have "active demo_fault" "activated_at_ms demo_fault = float_of_nat 100" "0 < length (effects demo_fault)"
    by (simp_all add: demo_fault_def)
  then have "(if fx_applied (effects demo_fault ! 0)
        \<or> due (fsub (float_of_nat 100) (activated_at_ms demo_fault)) [(''m'', demo_model)] (effects demo_fault ! 0)
      then \<not> due (fsub (FInf False) (activated_at_ms demo_fault)) [(''m'', demo_model)]
        (effects (fst (step_fault (float_of_nat 100) demo_fault [(''m'', demo_model)])) ! 0)
      else effects (fst (step_fault (float_of_nat 100) demo_fault [(''m'', demo_model)])) ! 0 = effects demo_fault ! 0)"
    using fault_effects_once [OF _ prod.collapse [symmetric],
        of demo_fault "float_of_nat 100" "[(''m'', demo_model)]" "FInf False" "[(''m'', demo_model)]"]
    by blast
  with demo_fault_due \<open>activated_at_ms demo_fault = float_of_nat 100\<close> show ?thesis
    by simp
qed

section \<open>Reset\<close>

lemma not_pos:
  "\<not> float_of_nat 0 < Fin True m e" "\<not> float_of_nat 0 < FInf True" "\<not> float_of_nat 0 < Fin s 0 e"
  by (simp_all add: float_of_nat_def less_pyfloat_def Let_def not_less)

lemma f64_scaled_neg: "\<not> float_of_nat 0 < f64_scaled True n k"
  unfolding f64_scaled_def f64_of_ratio_def round_bin_def Let_def
  by (simp only: not_pos if_split_eq1 split: if_split) simp

lemma fsub_not_pos: "t \<le> e \<Longrightarrow> \<not> float_of_nat 0 < fsub t e"
proof (cases t; cases e)
  fix s m x s' m' x'
  assume "t \<le> e" and t: "t = Fin s m x" and e: "e = Fin s' m' x'"
  have "min x' x = min x x'" by (rule min.commute)
  with \<open>t \<le> e\<close> have "\<not> scaled_int s' m' x' (min x x') < scaled_int s m x (min x x')"
    by (simp only: t e less_eq_pyfloat_def float_lt.simps Let_def) simp
  moreover have "scaled_int (\<not> s') m' x' (min x x') = - scaled_int s' m' x' (min x x')" by simp
  ultimately have "scaled_int s m x (min x x') + scaled_int (\<not> s') m' x' (min x x') \<le> 0"
    by linarith
  then have "\<not> float_of_nat 0 < (let k = min x x'; v = scaled_int s m x k + scaled_int (\<not> s') m' x' k
      in if v = 0 then Fin (s \<and> \<not> s') 0 (- 1074) else f64_scaled (v < 0) (nat \<bar>v\<bar>) k)"
    unfolding Let_def by (cases "scaled_int s m x (min x x') + scaled_int (\<not> s') m' x' (min x x') = 0")
      (simp_all only: if_True if_False not_pos not_False_eq_True f64_scaled_neg simp_thms less_le)
  then show "\<not> float_of_nat 0 < fsub t e" by (simp add: t e fsub_def)
qed (auto simp: fsub_def float_of_nat_def less_pyfloat_def less_eq_pyfloat_def)

lemma first_due_None:
  assumes "\<And>tr i. tr \<in> set trs \<Longrightarrow> \<not> check_condition (coin d i) sm vs tr t"
  shows "first_due d sm vs t i trs = None"
  using assms by (induction trs arbitrary: i) auto

text \<open>
  A reset does not restart the process. It takes the clock to zero and every variable and
  its target to the initial value, but the state machine keeps its state and its time of entry.
  Its timed transitions are then dead until the clock, counted from zero again, has passed the
  old time of entry, and forcing the state it is in does not bring the setpoints back.
\<close>

theorem reset_keeps_machine:
  assumes "\<forall>tr \<in> set (machine_transitions (machine m)). tr_condition tr = ''time'' \<and> float_of_nat 0 < duration_s tr"
    and "t \<le> state_entry_time (machine m)"
  shows "let m' = reset_model m
    in machine m' = machine m \<and> sim_time_s m' = float_of_nat 0
       \<and> (\<forall>x \<in> set (variables m'). var_value (snd x) = initial_value (snd x) \<and> var_target (snd x) = initial_value (snd x))
       \<and> force_state (current_state (machine m)) m' = m'
       \<and> step_machine d (machine m') (variables m') t = (None, machine m', variables m')"
proof -
  have "\<not> duration_s tr \<le> fsub t (state_entry_time (machine m))" if "tr \<in> set (machine_transitions (machine m))" for tr
  proof
    assume le: "duration_s tr \<le> fsub t (state_entry_time (machine m))"
    have "float_of_nat 0 < duration_s tr" using assms(1) that by simp
    then have "float_of_nat 0 < fsub t (state_entry_time (machine m)) \<or> fsub t (state_entry_time (machine m)) < duration_s tr"
      using le by (intro float_less_neg_trans) (auto simp: less_eq_pyfloat_def)
    with le fsub_not_pos [OF assms(2)] show False
      by (auto simp: less_eq_pyfloat_def less_pyfloat_def)
  qed
  then have "first_due d (machine m) vs t 0 (machine_transitions (machine m)) = None" for vs
    using assms(1) by (intro first_due_None) (auto simp: check_condition_def)
  then show ?thesis
    by (auto simp: Let_def reset_model_def force_state_def force_machine_def step_machine_def on_all_def reset_variable_def)
qed

definition demo_late_model :: process_model where
  "demo_late_model = demo_model\<lparr>machine := \<lparr>current_state = ALARM, machine_transitions =
     [\<lparr>from_state = ALARM, to_state = STEADY_STATE, tr_condition = ''time'', duration_s = float_of_nat 10,
       tr_variable = [], tr_threshold = float_of_nat 0, comparison = [], probability = float_of_nat 0\<rparr>],
     state_entry_time = float_of_nat 3600\<rparr>, sim_time_s := float_of_nat 3605\<rparr>"

theorem reset_keeps_machine_witness:
  "fst (step_machine (model_draws demo_draws []) (machine (reset_model demo_late_model)) (variables (reset_model demo_late_model)) (float_of_nat 3600))
     = None"
proof -
  have "\<forall>tr \<in> set (machine_transitions (machine demo_late_model)).
      tr_condition tr = ''time'' \<and> float_of_nat 0 < duration_s tr"
    by (simp add: demo_late_model_def less_pyfloat_def float_of_nat_def)
  moreover have "float_of_nat 3600 \<le> state_entry_time (machine demo_late_model)"
    by (simp add: demo_late_model_def less_eq_pyfloat_def float_of_nat_def)
  ultimately show ?thesis
    using reset_keeps_machine [of demo_late_model "float_of_nat 3600" "model_draws demo_draws []"] unfolding Let_def by (metis fst_conv)
qed

section \<open>The sensors\<close>

lemma flow_groups_snoc: "flow_groups (bs @ [b]) = group_binding (flow_groups bs) b"
  by (simp add: flow_groups_def)

text \<open>The grouping collects the bindings of each flow, in order, under distinct keys.\<close>

lemma flow_groups_map:
  "map_of (flow_groups bs) flow =
     (let l = filter (\<lambda>b. binding_flow b = flow) bs in if l = [] then None else Some l)"
proof (induction bs rule: rev_induct)
  case Nil
  then show ?case by (simp add: flow_groups_def)
next
  case (snoc b bs)
  then show ?case
    by (auto simp: flow_groups_snoc group_binding_def Let_def map_of_on_var map_of_append
        filter_empty_conv map_add_def split: option.splits if_splits)
qed

lemma flow_groups_keys: "distinct (map fst (flow_groups bs))"
proof (induction bs rule: rev_induct)
  case (snoc b bs)
  then show ?case
    by (auto simp: flow_groups_snoc group_binding_def map_of_eq_None_iff split: option.splits)
qed (simp add: flow_groups_def)

lemma push_values_map:
  assumes "distinct (map fst groups)" and "map_of gens flow = Some (Some g)"
  shows "map_of (push_values groups ms gens) flow =
    Some (Some (foldl (push_binding ms) g (case map_of groups flow of Some bs \<Rightarrow> bs | None \<Rightarrow> [])))"
  using assms
proof (induction groups arbitrary: gens g)
  case (Cons a groups)
  obtain f bs where a: "a = (f, bs)" by (cases a)
  show ?case
  proof (cases "f = flow")
    case True
    then have "map_of (push_group ms gens a) flow = Some (Some (foldl (push_binding ms) g bs))"
      using Cons.prems(2) by (simp add: a push_group_def map_of_on_var)
    moreover have "map_of groups flow = None" using Cons.prems(1) True by (simp add: a map_of_eq_None_iff)
    ultimately show ?thesis
      using Cons.IH [of "push_group ms gens a"] Cons.prems(1) True by (simp add: a push_values_def)
  next
    case False
    then have "map_of (push_group ms gens a) flow = Some (Some g)"
      using Cons.prems(2) by (simp add: a push_group_def map_of_on_var)
    then show ?thesis
      using Cons.IH [of "push_group ms gens a"] Cons.prems(1) False by (simp add: a push_values_def)
  qed
qed (simp add: push_values_def)

text \<open>What a generator says of one sensor.\<close>

definition sensor_view :: "string \<Rightarrow> payload_generator \<Rightarrow> sensor_state option \<times> sensor_profile option" where
  "sensor_view s g = (map_of (sensor_states g) s, map_of (sensor_profiles g) s)"

lemma push_binding_other: "s \<noteq> sensor_name b \<Longrightarrow> sensor_view s (push_binding ms g b) = sensor_view s g"
  by (simp add: sensor_view_def push_binding_def push_sensor_def map_of_on_var split: option.split)

lemma push_bindings_other:
  "s \<notin> sensor_name ` set bs \<Longrightarrow> sensor_view s (foldl (push_binding ms) g bs) = sensor_view s g"
  by (induction bs arbitrary: g) (auto simp: push_binding_other)

lemma push_binding_hit:
  assumes "raw_value ms (variable_name b) = Some raw" and "sensor_view (sensor_name b) g = (Some x, Some p)"
  shows "sensor_view (sensor_name b) (push_binding ms g b) =
    (Some (x\<lparr>current_value := sensor_value b raw\<rparr>), Some (p\<lparr>nominal_value := sensor_value b raw, profile_trend := STABLE\<rparr>))"
  using assms by (simp add: sensor_view_def push_binding_def push_sensor_def map_of_on_var)

lemma push_bindings_hit:
  assumes "b \<in> set bs" and "distinct (map sensor_name bs)" and "raw_value ms (variable_name b) = Some raw"
    and "sensor_view (sensor_name b) g = (Some x, Some p)"
  shows "sensor_view (sensor_name b) (foldl (push_binding ms) g bs) =
    (Some (x\<lparr>current_value := sensor_value b raw\<rparr>), Some (p\<lparr>nominal_value := sensor_value b raw, profile_trend := STABLE\<rparr>))"
  using assms(1,2,4)
proof (induction bs arbitrary: g)
  case (Cons c bs)
  show ?case
  proof (cases "c = b")
    case True
    with Cons.prems push_binding_hit [OF assms(3) Cons.prems(3)] show ?thesis
      by (simp add: push_bindings_other)
  next
    case False
    with Cons.prems have b: "b \<in> set bs" by simp
    then have "sensor_name b \<in> sensor_name ` set bs" by (rule imageI)
    with Cons.prems(2) have "sensor_name b \<noteq> sensor_name c" by auto
    then have "sensor_view (sensor_name b) (push_binding ms g c) = (Some x, Some p)"
      using Cons.prems(3) by (simp add: push_binding_other)
    with Cons.IH [OF b] Cons.prems(2) show ?thesis by simp
  qed
qed simp

lemma tick_generators:
  assumes "tick_models d t c = Inr c'" and "flow_bindings c = flow_groups bs"
    and "map_of (ctl_generators c) flow = Some (Some g)"
  shows "map_of (ctl_generators c') flow
    = Some (Some (foldl (push_binding (ctl_models c')) g (filter (\<lambda>b. binding_flow b = flow) bs)))"
proof -
  let ?c = "take_command t c" and ?bs = "filter (\<lambda>b. binding_flow b = flow) bs"
  have kept: "flow_bindings ?c = flow_bindings c" "ctl_generators ?c = ctl_generators c"
    by (auto simp: take_command_def process_command_def on_models_def Let_def split: option.split sum.split)
  have "ctl_generators c' = push_values (flow_bindings ?c) (ctl_models c') (ctl_generators ?c)"
    by (rule tick_parts [OF assms(1)]) simp
  then have gens: "ctl_generators c' = push_values (flow_groups bs) (ctl_models c') (ctl_generators c)"
    by (simp add: kept assms(2))
  have "(case map_of (flow_groups bs) flow of Some bs \<Rightarrow> bs | None \<Rightarrow> []) = ?bs"
    by (simp add: flow_groups_map Let_def)
  then show ?thesis
    using push_values_map [OF flow_groups_keys assms(3)] by (simp add: gens)
qed

text \<open>
  C10: what the protocol engines read is the process as the tick left it. After a tick, the sensor
  of a flow that one binding feeds shows the value of the bound variable in the models after
  the step and the faults, scaled, shifted and clamped as the binding says, as its current and as
  its nominal value, with a stable trend; the sensors of the flow that no binding feeds are as
  they were.
\<close>

theorem sensors_follow_process:
  assumes "tick_models d t c = Inr c'" and "flow_bindings c = flow_groups bs"
    and "map_of (ctl_generators c) flow = Some (Some g)"
    and "distinct (map sensor_name (filter (\<lambda>b. binding_flow b = flow) bs))"
  shows "\<exists>g'. map_of (ctl_generators c') flow = Some (Some g')
    \<and> (\<forall>b raw x p. b \<in> set bs \<and> binding_flow b = flow \<and> raw_value (ctl_models c') (variable_name b) = Some raw
         \<and> sensor_view (sensor_name b) g = (Some x, Some p) \<longrightarrow>
           sensor_view (sensor_name b) g' =
             (Some (x\<lparr>current_value := sensor_value b raw\<rparr>), Some (p\<lparr>nominal_value := sensor_value b raw, profile_trend := STABLE\<rparr>)))
    \<and> (\<forall>s. s \<notin> sensor_name ` {b \<in> set bs. binding_flow b = flow} \<longrightarrow> sensor_view s g' = sensor_view s g)"
proof -
  let ?bs = "filter (\<lambda>b. binding_flow b = flow) bs"
  show ?thesis
    using tick_generators [OF assms(1-3)] push_bindings_hit [OF _ assms(4)] push_bindings_other [of _ ?bs "ctl_models c'" g]
    by auto
qed

definition demo_reg :: sensor_profile where
  "demo_reg = \<lparr>profile_name = ''reg_0'', profile_type = UINT16, prof_min = float_of_nat 0, prof_max = float_of_nat 1000,
     nominal_value = float_of_nat 1, drift_rate = float_of_nat 0, prof_noise = float_of_nat 0, profile_trend = RAMP,
     trend_period = None, step_size = None, byte_order = ''big'', profile_source = None, source_scale = float_of_nat 1\<rparr>"

definition demo_gen :: payload_generator where
  "demo_gen = \<lparr>sensor_states = [(''reg_0'', fresh_state demo_reg)], sensor_profiles = [(''reg_0'', demo_reg)]\<rparr>"

definition demo_fed :: controller where
  "demo_fed = demo_controller\<lparr>ctl_generators := [(''f1'', Some demo_gen)], step_interval_ms := float_of_nat 1000,
     flow_bindings := flow_groups [plain_binding ''temp'' ''f1'' ''reg_0'' (float_of_nat 1)]\<rparr>"

lemma demo_second: "py_div (float_of_nat 1000) (float_of_nat 1000) = Inr (Fin False 4503599627370496 (- 52))"
  by (simp add: py_div_def float_of_nat_def f64_of_ratio_def round_bin_def ilog2_def blen.simps scaled_den_def
      scaled_num_def rne_def Let_def)

lemma demo_clamp_inf: "py_max (float_of_nat 0) (py_min (float_of_nat 100) (FInf False)) = float_of_nat 100"
    "py_max (float_of_nat 0) (py_min (float_of_nat 100) (float_of_nat 100)) = float_of_nat 100"
  by (simp_all add: py_max_def py_min_def less_pyfloat_def float_of_nat_def)

lemma demo_not_le: "\<not> Fin False 4503599627370496 (- 52) \<le> float_of_nat 0" "\<not> float_of_nat 0 < float_of_nat 0"
  by (simp_all add: less_eq_pyfloat_def less_pyfloat_def float_of_nat_def)

lemma demo_infinite: "fadd (float_of_nat 50) (FInf False) = FInf False"
  by (simp add: float_of_nat_def)

lemma demo_tick:
  obtains c' where "tick_models demo_draws (float_of_nat 1000) demo_fed = Inr c'"
    and "raw_value (ctl_models c') ''temp'' = Some (float_of_nat 100)"
proof -
  have "tick_dt (float_of_nat 1000) demo_fed = Inr (Fin False 4503599627370496 (- 52))"
    by (simp add: tick_dt_def demo_fed_def demo_controller_def new_controller_def Let_def demo_not_le demo_second)
  moreover have "take_command (float_of_nat 1000) demo_fed = demo_fed"
    by (simp add: take_command_def demo_fed_def demo_controller_def new_controller_def Let_def)
  moreover have "\<exists>m'. step_models demo_draws (Fin False 4503599627370496 (- 52)) (ctl_models demo_fed) = Inr [(''m'', m')]
      \<and> raw_value [(''m'', m')] ''temp'' = Some (float_of_nat 100)"
    by (simp add: demo_fed_def demo_model_entry step_models_def step_model_def step_machine_def step_equations_def
        step_all_def step_variable_def demo_model_def new_process_model_def new_state_machine_def new_equation_set_def
        demo_not_le demo_clamp_inf demo_infinite demo_var_def post_init_def apply_state_setpoints_def on_all_def on_var_def
        apply_state_setpoint_def set_target_def clamped_def demo_var_clamp demo_draws_def Let_def del: fadd.simps)
  moreover have "ctl_faults demo_fed = []"
    by (simp add: demo_fed_def demo_controller_def new_controller_def Let_def)
  ultimately have "\<exists>c'. tick_models demo_draws (float_of_nat 1000) demo_fed = Inr c'
      \<and> raw_value (ctl_models c') ''temp'' = Some (float_of_nat 100)"
    by (elim exE) (simp add: tick_models_def)
  then show thesis using that by blast
qed

theorem sensors_follow_process_witness:
  "\<exists>c' g'. tick_models demo_draws (float_of_nat 1000) demo_fed = Inr c' \<and> map_of (ctl_generators c') ''f1'' = Some (Some g')
     \<and> map_option current_value (fst (sensor_view ''reg_0'' g'))
       = Some (sensor_value (plain_binding ''temp'' ''f1'' ''reg_0'' (float_of_nat 1)) (float_of_nat 100))"
proof -
  obtain c' where "tick_models demo_draws (float_of_nat 1000) demo_fed = Inr c'"
    and "raw_value (ctl_models c') ''temp'' = Some (float_of_nat 100)"
    by (rule demo_tick)
  moreover have "flow_bindings demo_fed = flow_groups [plain_binding ''temp'' ''f1'' ''reg_0'' (float_of_nat 1)]"
    "map_of (ctl_generators demo_fed) ''f1'' = Some (Some demo_gen)"
    by (simp_all add: demo_fed_def)
  moreover have "\<exists>x p. sensor_view ''reg_0'' demo_gen = (Some x, Some p)"
    by (simp add: sensor_view_def demo_gen_def)
  ultimately show ?thesis
    using sensors_follow_process [of demo_draws "float_of_nat 1000" demo_fed c'
        "[plain_binding ''temp'' ''f1'' ''reg_0'' (float_of_nat 1)]" "''f1''" demo_gen]
    by (fastforce simp: plain_binding_def)
qed

section \<open>Automatic binding\<close>

text \<open>What the passes keep: no sensor is bound twice, and only what exists is bound.\<close>

definition auto_inv :: "string \<Rightarrow> string list \<Rightarrow> string list \<Rightarrow> auto_state \<Rightarrow> bool" where
  "auto_inv flow names vars st \<longleftrightarrow>
     distinct (map sensor_name (auto_bindings st))
     \<and> set (bound_sensors st) = sensor_name ` set (auto_bindings st)
     \<and> set (bound_vars st) = variable_name ` set (auto_bindings st)
     \<and> (\<forall>b \<in> set (auto_bindings st). binding_flow b = flow \<and> sensor_name b \<in> set names \<and> variable_name b \<in> set vars)"

lemma auto_inv_bind:
  assumes "auto_inv flow names vars st" and "s \<in> set names" and "s \<notin> set (bound_sensors st)" and "x \<in> set vars"
  shows "auto_inv flow names vars (bind_sensor flow x scale s st)"
  using assms by (auto simp: auto_inv_def bind_sensor_def plain_binding_def)

lemma foldl_invariant: "P s \<Longrightarrow> (\<And>s x. x \<in> set xs \<Longrightarrow> P s \<Longrightarrow> P (f s x)) \<Longrightarrow> P (foldl f s xs)"
  by (induction xs arbitrary: s) auto

lemma auto_inv_source:
  assumes "auto_inv flow (map fst profs) (map fst vars) st"
  shows "auto_inv flow (map fst profs) (map fst vars) (source_pass flow profs vars st)"
  unfolding source_pass_def
proof (rule foldl_invariant [where P = "auto_inv flow (map fst profs) (map fst vars)", OF assms])
  fix st and xv :: "string \<times> process_variable"
  assume xv: "xv \<in> set vars" and st: "auto_inv flow (map fst profs) (map fst vars) st"
  obtain x v where x: "xv = (x, v)" by (cases xv)
  have "auto_inv flow (map fst profs) (map fst vars) (foldl (source_turn flow x) st profs)"
  proof (rule foldl_invariant [where P = "auto_inv flow (map fst profs) (map fst vars)", OF st])
    fix st sp
    assume "sp \<in> set profs" and "auto_inv flow (map fst profs) (map fst vars) st"
    then show "auto_inv flow (map fst profs) (map fst vars) (source_turn flow x st sp)"
      using xv by (force simp: source_turn_def x intro!: auto_inv_bind)
  qed
  then show "auto_inv flow (map fst profs) (map fst vars) (case xv of (x, _) \<Rightarrow> foldl (source_turn flow x) st profs)"
    by (simp add: x)
qed

lemma auto_inv_match:
  assumes "auto_inv flow names (map fst vars) st"
  shows "auto_inv flow names (map fst vars) (foldl (match_turn fits flow names) st vars)"
proof (rule foldl_invariant [where P = "auto_inv flow names (map fst vars)", OF assms])
  fix st xv
  assume "xv \<in> set vars" and "auto_inv flow names (map fst vars) st"
  then show "auto_inv flow names (map fst vars) (match_turn fits flow names st xv)"
    by (auto simp: match_turn_def find_Some_iff split: option.split intro!: auto_inv_bind)
qed

lemma zip_covers:
  "(\<forall>x \<in> set xs. x \<in> fst ` set (zip xs ys)) \<or> (\<forall>y \<in> set ys. y \<in> snd ` set (zip xs ys))"
  by (induction xs ys rule: list_induct2') (auto 4 4)

text \<open>The state after the three passes that look for a match.\<close>

definition matched :: "(string \<times> process_variable) list \<Rightarrow> string \<Rightarrow> payload_generator \<Rightarrow> auto_state" where
  "matched vars flow g =
     foldl (match_turn by_role flow (map fst (sensor_profiles g)))
       (foldl (match_turn by_name flow (map fst (sensor_profiles g)))
         (source_pass flow (sensor_profiles g) vars \<lparr>auto_bindings = [], bound_sensors = [], bound_vars = []\<rparr>) vars) vars"

lemma matched_inv: "auto_inv flow (map fst (sensor_profiles g)) (map fst vars) (matched vars flow g)"
  unfolding matched_def by (intro auto_inv_match auto_inv_source) (simp add: auto_inv_def)

lemma bind_flow_matched:
  "bind_flow vars flow g =
     (if sensor_profiles g = [] then []
      else positional_pass flow (map fst (sensor_profiles g)) vars (matched vars flow g))"
  by (simp add: bind_flow_def matched_def Let_def)

lemma positional_fields:
  fixes st vars names flow
  defines "z \<equiv> zip (filter (\<lambda>(x, _). x \<notin> set (bound_vars st)) vars) (filter (\<lambda>s. s \<notin> set (bound_sensors st)) names)"
  shows "map sensor_name (positional_pass flow names vars st) = map sensor_name (auto_bindings st) @ map snd z"
    and "map variable_name (positional_pass flow names vars st) = map variable_name (auto_bindings st) @ map (fst \<circ> fst) z"
    and "map binding_flow (positional_pass flow names vars st) = map binding_flow (auto_bindings st) @ map (\<lambda>_. flow) z"
  by (simp_all add: positional_pass_def z_def plain_binding_def comp_def split_def)

lemma positional_sets:
  fixes st vars names flow
  defines "z \<equiv> zip (filter (\<lambda>(x, _). x \<notin> set (bound_vars st)) vars) (filter (\<lambda>s. s \<notin> set (bound_sensors st)) names)"
  shows "sensor_name ` set (positional_pass flow names vars st) = sensor_name ` set (auto_bindings st) \<union> snd ` set z"
    and "variable_name ` set (positional_pass flow names vars st) = variable_name ` set (auto_bindings st) \<union> fst ` fst ` set z"
  using arg_cong [OF positional_fields(1) [of flow names vars st], of set]
    arg_cong [OF positional_fields(2) [of flow names vars st], of set]
  unfolding z_def by (simp_all only: list.set_map set_append image_comp)

lemma zip_snd_distinct: "distinct ys \<Longrightarrow> distinct (map snd (zip xs ys)) \<and> snd ` set (zip xs ys) \<subseteq> set ys"
  by (auto simp: map_snd_zip_take dest: set_zip_rightD)

lemma bind_flow_flow: "b \<in> set (bind_flow vars flow g) \<Longrightarrow> binding_flow b = flow"
  using matched_inv [of flow g vars]
  by (auto simp: bind_flow_matched positional_pass_def plain_binding_def auto_inv_def split: if_splits)

lemma bind_flow_sensors:
  assumes "distinct (map fst (sensor_profiles g))"
  shows "distinct (map sensor_name (bind_flow vars flow g))"
    and "sensor_name ` set (bind_flow vars flow g) \<subseteq> fst ` set (sensor_profiles g)"
    and "variable_name ` set (bind_flow vars flow g) \<subseteq> fst ` set vars"
proof -
  let ?st = "matched vars flow g" and ?names = "map fst (sensor_profiles g)"
  let ?xs = "filter (\<lambda>(x, _). x \<notin> set (bound_vars ?st)) vars" and ?ss = "filter (\<lambda>s. s \<notin> set (bound_sensors ?st)) ?names"
  have st: "auto_inv flow ?names (map fst vars) ?st" by (rule matched_inv)
  have "distinct ?ss" using assms by (rule distinct_filter)
  note z = zip_snd_distinct [OF this, of ?xs]
  have sensors: "map sensor_name (positional_pass flow ?names vars ?st) = map sensor_name (auto_bindings ?st) @ map snd (zip ?xs ?ss)"
    by (rule positional_fields)
  have "snd ` set (zip ?xs ?ss) \<inter> set (bound_sensors ?st) = {}" "snd ` set (zip ?xs ?ss) \<subseteq> set ?names"
    using z by auto
  then show "distinct (map sensor_name (bind_flow vars flow g))"
    using st z by (auto simp: bind_flow_matched sensors auto_inv_def)
  show "sensor_name ` set (bind_flow vars flow g) \<subseteq> fst ` set (sensor_profiles g)"
    using st \<open>snd ` set (zip ?xs ?ss) \<subseteq> set ?names\<close> by (auto simp: bind_flow_matched positional_sets auto_inv_def)
  have "fst ` fst ` set (zip ?xs ?ss) \<subseteq> fst ` set vars"
    by (force dest: set_zip_leftD)
  then show "variable_name ` set (bind_flow vars flow g) \<subseteq> fst ` set vars"
    using st by (auto simp: bind_flow_matched positional_sets auto_inv_def)
qed

lemma bind_flow_exhausts:
  "fst ` set (sensor_profiles g) \<subseteq> sensor_name ` set (bind_flow vars flow g)
   \<or> fst ` set vars \<subseteq> variable_name ` set (bind_flow vars flow g)"
proof (cases "sensor_profiles g = []")
  case False
  let ?st = "matched vars flow g" and ?names = "map fst (sensor_profiles g)"
  let ?bs = "positional_pass flow ?names vars ?st"
  let ?xs = "filter (\<lambda>(x, _). x \<notin> set (bound_vars ?st)) vars" and ?ss = "filter (\<lambda>s. s \<notin> set (bound_sensors ?st)) ?names"
  have st: "auto_inv flow ?names (map fst vars) ?st" by (rule matched_inv)
  have bs: "bind_flow vars flow g = ?bs" using False by (simp add: bind_flow_matched)
  have sensors: "sensor_name ` set ?bs = set (bound_sensors ?st) \<union> snd ` set (zip ?xs ?ss)"
    using st by (simp only: positional_sets auto_inv_def)
  have variables: "variable_name ` set ?bs = set (bound_vars ?st) \<union> fst ` fst ` set (zip ?xs ?ss)"
    using st by (simp only: positional_sets auto_inv_def)
  consider "\<forall>x \<in> set ?xs. x \<in> fst ` set (zip ?xs ?ss)" | "\<forall>s \<in> set ?ss. s \<in> snd ` set (zip ?xs ?ss)"
    using zip_covers [of ?xs ?ss] by blast
  then show ?thesis
  proof cases
    case 1
    have "fst xv \<in> variable_name ` set ?bs" if "xv \<in> set vars" for xv
    proof (cases "fst xv \<in> set (bound_vars ?st)")
      case False
      with that have "xv \<in> set ?xs" by (simp add: split_def)
      with 1 have "xv \<in> fst ` set (zip ?xs ?ss)" by blast
      then show ?thesis unfolding variables by blast
    qed (simp add: variables)
    then show ?thesis unfolding bs by blast
  next
    case 2
    have "s \<in> sensor_name ` set ?bs" if "s \<in> set ?names" for s
      using 2 that unfolding sensors by (cases "s \<in> set (bound_sensors ?st)") simp_all
    then show ?thesis unfolding bs by auto
  qed
qed simp

lemma auto_bind_flow:
  assumes "distinct (map fst gens)"
  shows "filter (\<lambda>b. binding_flow b = flow) (auto_bind ms gens) =
    (case map_of gens flow of Some (Some g) \<Rightarrow> bind_flow (all_variables ms) flow g | _ \<Rightarrow> [])"
  using assms
proof (induction gens)
  case (Cons a gens)
  obtain f h where a: "a = (f, h)" by (cases a)
  define bs where "bs = (case h of None \<Rightarrow> [] | Some h \<Rightarrow> bind_flow (all_variables ms) f h)"
  have rest: "auto_bind ms ((f, h) # gens) = bs @ auto_bind ms gens"
    by (simp add: auto_bind_def bs_def)
  have own: "\<forall>b \<in> set bs. binding_flow b = f"
    using bind_flow_flow by (auto simp: bs_def split: option.split)
  show ?case
  proof (cases "f = flow")
    case True
    with Cons.prems have "map_of gens flow = None" by (simp add: a map_of_eq_None_iff)
    with Cons have "filter (\<lambda>b. binding_flow b = flow) (auto_bind ms gens) = []" by simp
    moreover have "filter (\<lambda>b. binding_flow b = flow) bs = bs" using own True by simp
    ultimately have "filter (\<lambda>b. binding_flow b = flow) (auto_bind ms ((f, h) # gens)) = bs"
      by (simp only: rest filter_append append_Nil2)
    then show ?thesis using True by (simp add: a bs_def split: option.split)
  next
    case False
    with own have "filter (\<lambda>b. binding_flow b = flow) bs = []" by (auto simp: filter_empty_conv)
    with Cons False show ?thesis by (simp only: a rest filter_append) simp
  qed
qed (simp add: auto_bind_def)

text \<open>
  C12: automatic binding pairs without conflict. In every flow with a generator no sensor is fed
  by two bindings, each binding names a sensor the generator has and a variable some model has,
  and either every sensor of the flow is fed or every variable feeds one; other flows get no
  binding.
\<close>

theorem auto_bind_pairs:
  assumes "distinct (map fst gens)" and "map_of gens flow = Some (Some g)"
    and "distinct (map fst (sensor_profiles g))"
  shows "let bs = filter (\<lambda>b. binding_flow b = flow) (auto_bind ms gens)
    in distinct (map sensor_name bs)
       \<and> sensor_name ` set bs \<subseteq> fst ` set (sensor_profiles g)
       \<and> variable_name ` set bs \<subseteq> fst ` set (all_variables ms)
       \<and> (fst ` set (sensor_profiles g) \<subseteq> sensor_name ` set bs \<or> fst ` set (all_variables ms) \<subseteq> variable_name ` set bs)"
  using bind_flow_sensors [OF assms(3), of "all_variables ms" flow] bind_flow_exhausts [of g "all_variables ms" flow]
  by (simp add: auto_bind_flow [OF assms(1)] assms(2) Let_def)

theorem auto_bind_pairs_witness:
  "sensor_name ` set (filter (\<lambda>b. binding_flow b = ''f1'') (auto_bind [(''m'', demo_model)] [(''f1'', Some demo_gen)]))
     \<subseteq> {''reg_0''}"
  using auto_bind_pairs [of "[(''f1'', Some demo_gen)]" "''f1''" demo_gen "[(''m'', demo_model)]"]
  by (simp add: demo_gen_def Let_def)

end
