(* ===== verification/SensorLibrary.thy ===== *)
theory SensorLibrary
  imports PayloadGen
begin

text \<open>
  The sensor profiles that come with \<open>backend/app/protocol_engines/payload_generator.py\<close>, and the
  choice of profiles for an industry vertical.  The units, shown to the user only, are left out.
\<close>

section \<open>Profiles\<close>

text \<open>A profile with the defaults of \<open>SensorProfile\<close> for what is not given.\<close>

definition profile :: "string \<Rightarrow> data_type \<Rightarrow> pyfloat \<Rightarrow> pyfloat \<Rightarrow> pyfloat \<Rightarrow> sensor_profile" where
  "profile n t lo hi nominal =
     \<lparr>profile_name = n, profile_type = t, prof_min = lo, prof_max = hi, nominal_value = nominal,
      drift_rate = float_of_nat 0, prof_noise = lit 5 10, profile_trend = STABLE, trend_period = None,
      step_size = None, byte_order = ''big'', profile_source = None, source_scale = float_of_nat 1\<rparr>"

definition TEMPERATURE_SENSOR :: sensor_profile where
  "TEMPERATURE_SENSOR =
     (profile ''temperature'' FLOAT32 (float_of_nat 15) (float_of_nat 85) (float_of_nat 45))
      \<lparr>drift_rate := lit 1 100, prof_noise := lit 5 10, profile_trend := SINUSOIDAL, trend_period := Some (float_of_nat 86400)\<rparr>"

definition TEMPERATURE_SENSOR_INT16 :: sensor_profile where
  "TEMPERATURE_SENSOR_INT16 =
     (profile ''temperature_int16'' INT16 (float_of_nat 150) (float_of_nat 850) (float_of_nat 450))
      \<lparr>drift_rate := lit 1 10, prof_noise := float_of_nat 5, profile_trend := SINUSOIDAL, trend_period := Some (float_of_nat 86400)\<rparr>"

definition PRESSURE_SENSOR :: sensor_profile where
  "PRESSURE_SENSOR =
     (profile ''pressure'' FLOAT32 (float_of_nat 0) (float_of_nat 10) (float_of_nat 5))
      \<lparr>drift_rate := lit 1 1000, prof_noise := lit 1 10\<rparr>"

definition PRESSURE_SENSOR_UINT16 :: sensor_profile where
  "PRESSURE_SENSOR_UINT16 =
     (profile ''pressure_uint16'' UINT16 (float_of_nat 0) (float_of_nat 10000) (float_of_nat 5000))
      \<lparr>drift_rate := float_of_nat 1, prof_noise := float_of_nat 100\<rparr>"

definition FLOW_RATE_SENSOR :: sensor_profile where
  "FLOW_RATE_SENSOR =
     (profile ''flow_rate'' FLOAT32 (float_of_nat 0) (float_of_nat 1000) (float_of_nat 500))
      \<lparr>drift_rate := float_of_nat 5, prof_noise := float_of_nat 10, profile_trend := RANDOM_WALK\<rparr>"

definition FLOW_RATE_SENSOR_UINT16 :: sensor_profile where
  "FLOW_RATE_SENSOR_UINT16 =
     (profile ''flow_rate_uint16'' UINT16 (float_of_nat 0) (float_of_nat 10000) (float_of_nat 5000))
      \<lparr>drift_rate := float_of_nat 50, prof_noise := float_of_nat 100, profile_trend := RANDOM_WALK\<rparr>"

definition LEVEL_SENSOR :: sensor_profile where
  "LEVEL_SENSOR =
     (profile ''level'' FLOAT32 (float_of_nat 0) (float_of_nat 100) (float_of_nat 50))
      \<lparr>drift_rate := lit 5 10, prof_noise := float_of_nat 1, profile_trend := RANDOM_WALK\<rparr>"

definition LEVEL_SENSOR_UINT16 :: sensor_profile where
  "LEVEL_SENSOR_UINT16 =
     (profile ''level_uint16'' UINT16 (float_of_nat 0) (float_of_nat 10000) (float_of_nat 5000))
      \<lparr>drift_rate := float_of_nat 50, prof_noise := float_of_nat 100, profile_trend := RANDOM_WALK\<rparr>"

definition SPEED_SENSOR :: sensor_profile where
  "SPEED_SENSOR =
     (profile ''speed'' FLOAT32 (float_of_nat 0) (float_of_nat 3000) (float_of_nat 1500))
      \<lparr>drift_rate := float_of_nat 1, prof_noise := float_of_nat 10\<rparr>"

definition SPEED_SENSOR_UINT16 :: sensor_profile where
  "SPEED_SENSOR_UINT16 =
     (profile ''speed_uint16'' UINT16 (float_of_nat 0) (float_of_nat 30000) (float_of_nat 15000))
      \<lparr>drift_rate := float_of_nat 10, prof_noise := float_of_nat 100\<rparr>"

definition POSITION_SENSOR :: sensor_profile where
  "POSITION_SENSOR =
     (profile ''position'' FLOAT32 (float_of_nat 0) (float_of_nat 1000) (float_of_nat 500))
      \<lparr>drift_rate := float_of_nat 10, prof_noise := lit 1 10, profile_trend := SINUSOIDAL, trend_period := Some (float_of_nat 60)\<rparr>"

definition POSITION_SENSOR_INT32 :: sensor_profile where
  "POSITION_SENSOR_INT32 =
     (profile ''position_int32'' INT32 (float_of_nat 0) (float_of_nat 1000000) (float_of_nat 500000))
      \<lparr>drift_rate := float_of_nat 10000, prof_noise := float_of_nat 100, profile_trend := SINUSOIDAL, trend_period := Some (float_of_nat 60)\<rparr>"

definition ANALOG_INPUT :: sensor_profile where
  "ANALOG_INPUT =
     (profile ''analog_input'' FLOAT32 (float_of_nat 0) (float_of_nat 10) (float_of_nat 5))
      \<lparr>drift_rate := lit 1 100, prof_noise := lit 5 100\<rparr>"

definition ANALOG_INPUT_UINT16 :: sensor_profile where
  "ANALOG_INPUT_UINT16 =
     (profile ''analog_input_uint16'' UINT16 (float_of_nat 0) (float_of_nat 32767) (float_of_nat 16383))
      \<lparr>drift_rate := float_of_nat 10, prof_noise := float_of_nat 50\<rparr>"

definition CURRENT_SENSOR :: sensor_profile where
  "CURRENT_SENSOR =
     (profile ''current'' FLOAT32 (float_of_nat 0) (float_of_nat 100) (float_of_nat 25))
      \<lparr>drift_rate := lit 5 10, prof_noise := lit 5 10\<rparr>"

definition VOLTAGE_SENSOR :: sensor_profile where
  "VOLTAGE_SENSOR =
     (profile ''voltage'' FLOAT32 (float_of_nat 380) (float_of_nat 420) (float_of_nat 400))
      \<lparr>drift_rate := lit 1 10, prof_noise := float_of_nat 1\<rparr>"

definition POWER_SENSOR :: sensor_profile where
  "POWER_SENSOR =
     (profile ''power'' FLOAT32 (float_of_nat 0) (float_of_nat 100000) (float_of_nat 50000))
      \<lparr>drift_rate := float_of_nat 100, prof_noise := float_of_nat 500, profile_trend := SINUSOIDAL, trend_period := Some (float_of_nat 3600)\<rparr>"

definition COUNTER_SENSOR :: sensor_profile where
  "COUNTER_SENSOR =
     (profile ''counter'' UINT32 (float_of_nat 0) (float_of_nat 4294967295) (float_of_nat 0))
      \<lparr>drift_rate := float_of_nat 10, prof_noise := float_of_nat 0, profile_trend := INCREASING\<rparr>"

definition BINARY_STATUS :: sensor_profile where
  "BINARY_STATUS =
     (profile ''binary_status'' BOOL (float_of_nat 0) (float_of_nat 1) (float_of_nat 1))
      \<lparr>drift_rate := float_of_nat 0, prof_noise := float_of_nat 0\<rparr>"

definition MANUFACTURING_PROFILES :: "sensor_profile list" where
  "MANUFACTURING_PROFILES =
     [(profile ''spindle_speed'' UINT16 (float_of_nat 0) (float_of_nat 30000) (float_of_nat 15000))
      \<lparr>prof_noise := float_of_nat 50\<rparr>,
      (profile ''spindle_load'' UINT16 (float_of_nat 0) (float_of_nat 1000) (float_of_nat 500))
      \<lparr>prof_noise := float_of_nat 20, profile_trend := RANDOM_WALK\<rparr>,
      (profile ''feed_rate'' UINT16 (float_of_nat 0) (float_of_nat 50000) (float_of_nat 10000))
      \<lparr>prof_noise := float_of_nat 100\<rparr>,
      (profile ''axis_position_x'' INT32 (fneg (float_of_nat 500000)) (float_of_nat 500000) (float_of_nat 0))
      \<lparr>drift_rate := float_of_nat 5000, prof_noise := float_of_nat 10, profile_trend := SINUSOIDAL, trend_period := Some (float_of_nat 30)\<rparr>,
      (profile ''axis_position_y'' INT32 (fneg (float_of_nat 500000)) (float_of_nat 500000) (float_of_nat 0))
      \<lparr>drift_rate := float_of_nat 5000, prof_noise := float_of_nat 10, profile_trend := SINUSOIDAL, trend_period := Some (float_of_nat 45)\<rparr>,
      (profile ''coolant_temp'' INT16 (float_of_nat 150) (float_of_nat 400) (float_of_nat 220))
      \<lparr>prof_noise := float_of_nat 5\<rparr>,
      (profile ''part_count'' UINT32 (float_of_nat 0) (float_of_nat 4294967295) (float_of_nat 0))
      \<lparr>drift_rate := lit 1 10, prof_noise := float_of_nat 0, profile_trend := INCREASING\<rparr>]"

definition WATER_PROFILES :: "sensor_profile list" where
  "WATER_PROFILES =
     [(profile ''inlet_pressure'' UINT16 (float_of_nat 0) (float_of_nat 10000) (float_of_nat 5000))
      \<lparr>prof_noise := float_of_nat 100\<rparr>,
      (profile ''outlet_pressure'' UINT16 (float_of_nat 0) (float_of_nat 10000) (float_of_nat 4500))
      \<lparr>prof_noise := float_of_nat 100\<rparr>,
      (profile ''flow_rate'' UINT16 (float_of_nat 0) (float_of_nat 50000) (float_of_nat 25000))
      \<lparr>drift_rate := float_of_nat 100, prof_noise := float_of_nat 500, profile_trend := RANDOM_WALK\<rparr>,
      (profile ''tank_level'' UINT16 (float_of_nat 0) (float_of_nat 10000) (float_of_nat 7000))
      \<lparr>drift_rate := float_of_nat 20, prof_noise := float_of_nat 50, profile_trend := RANDOM_WALK\<rparr>,
      (profile ''chlorine_level'' UINT16 (float_of_nat 0) (float_of_nat 500) (float_of_nat 200))
      \<lparr>drift_rate := float_of_nat 5, prof_noise := float_of_nat 10, profile_trend := RANDOM_WALK\<rparr>,
      (profile ''ph_level'' UINT16 (float_of_nat 600) (float_of_nat 800) (float_of_nat 700))
      \<lparr>prof_noise := float_of_nat 5\<rparr>,
      (profile ''turbidity'' UINT16 (float_of_nat 0) (float_of_nat 1000) (float_of_nat 50))
      \<lparr>drift_rate := float_of_nat 2, prof_noise := float_of_nat 10, profile_trend := RANDOM_WALK\<rparr>,
      (profile ''pump_status'' UINT16 (float_of_nat 0) (float_of_nat 1) (float_of_nat 1))
      \<lparr>prof_noise := float_of_nat 0\<rparr>]"

definition ENERGY_PROFILES :: "sensor_profile list" where
  "ENERGY_PROFILES =
     [(profile ''voltage_l1'' FLOAT32 (float_of_nat 380) (float_of_nat 420) (float_of_nat 400))
      \<lparr>prof_noise := float_of_nat 2\<rparr>,
      (profile ''voltage_l2'' FLOAT32 (float_of_nat 380) (float_of_nat 420) (float_of_nat 400))
      \<lparr>prof_noise := float_of_nat 2\<rparr>,
      (profile ''voltage_l3'' FLOAT32 (float_of_nat 380) (float_of_nat 420) (float_of_nat 400))
      \<lparr>prof_noise := float_of_nat 2\<rparr>,
      (profile ''current_l1'' FLOAT32 (float_of_nat 0) (float_of_nat 500) (float_of_nat 250))
      \<lparr>prof_noise := float_of_nat 5, profile_trend := SINUSOIDAL, trend_period := Some (float_of_nat 3600)\<rparr>,
      (profile ''current_l2'' FLOAT32 (float_of_nat 0) (float_of_nat 500) (float_of_nat 250))
      \<lparr>prof_noise := float_of_nat 5, profile_trend := SINUSOIDAL, trend_period := Some (float_of_nat 3600)\<rparr>,
      (profile ''current_l3'' FLOAT32 (float_of_nat 0) (float_of_nat 500) (float_of_nat 250))
      \<lparr>prof_noise := float_of_nat 5, profile_trend := SINUSOIDAL, trend_period := Some (float_of_nat 3600)\<rparr>,
      (profile ''active_power'' FLOAT32 (float_of_nat 0) (float_of_nat 500000) (float_of_nat 250000))
      \<lparr>prof_noise := float_of_nat 1000, profile_trend := SINUSOIDAL, trend_period := Some (float_of_nat 3600)\<rparr>,
      (profile ''reactive_power'' FLOAT32 (fneg (float_of_nat 100000)) (float_of_nat 100000) (float_of_nat 50000))
      \<lparr>drift_rate := float_of_nat 100, prof_noise := float_of_nat 500, profile_trend := RANDOM_WALK\<rparr>,
      (profile ''frequency'' FLOAT32 (lit 495 10) (lit 505 10) (float_of_nat 50))
      \<lparr>prof_noise := lit 1 100\<rparr>,
      (profile ''power_factor'' FLOAT32 (lit 7 10) (float_of_nat 1) (lit 95 100))
      \<lparr>prof_noise := lit 1 100\<rparr>]"

definition OIL_GAS_PROFILES :: "sensor_profile list" where
  "OIL_GAS_PROFILES =
     [(profile ''wellhead_pressure'' FLOAT32 (float_of_nat 0) (float_of_nat 500) (float_of_nat 250))
      \<lparr>drift_rate := float_of_nat 2, prof_noise := float_of_nat 5, profile_trend := RANDOM_WALK\<rparr>,
      (profile ''wellhead_temp'' FLOAT32 (float_of_nat 20) (float_of_nat 150) (float_of_nat 85))
      \<lparr>prof_noise := float_of_nat 1\<rparr>,
      (profile ''flow_rate_oil'' FLOAT32 (float_of_nat 0) (float_of_nat 10000) (float_of_nat 5000))
      \<lparr>drift_rate := float_of_nat 50, prof_noise := float_of_nat 100, profile_trend := RANDOM_WALK\<rparr>,
      (profile ''flow_rate_gas'' FLOAT32 (float_of_nat 0) (float_of_nat 100000) (float_of_nat 50000))
      \<lparr>drift_rate := float_of_nat 500, prof_noise := float_of_nat 1000, profile_trend := RANDOM_WALK\<rparr>,
      (profile ''separator_level'' UINT16 (float_of_nat 0) (float_of_nat 10000) (float_of_nat 5000))
      \<lparr>drift_rate := float_of_nat 20, prof_noise := float_of_nat 100, profile_trend := RANDOM_WALK\<rparr>,
      (profile ''pipeline_pressure'' FLOAT32 (float_of_nat 0) (float_of_nat 100) (float_of_nat 60))
      \<lparr>prof_noise := float_of_nat 1\<rparr>,
      (profile ''compressor_speed'' UINT16 (float_of_nat 0) (float_of_nat 10000) (float_of_nat 7500))
      \<lparr>prof_noise := float_of_nat 50\<rparr>,
      (profile ''h2s_level'' FLOAT32 (float_of_nat 0) (float_of_nat 100) (float_of_nat 5))
      \<lparr>drift_rate := lit 2 10, prof_noise := lit 5 10, profile_trend := RANDOM_WALK\<rparr>]"

definition ROAD_TUNNEL_PROFILES :: "sensor_profile list" where
  "ROAD_TUNNEL_PROFILES =
     [(profile ''co_ppm'' FLOAT32 (float_of_nat 0) (float_of_nat 250) (float_of_nat 25))
      \<lparr>prof_noise := lit 5 10\<rparr>,
      (profile ''visibility_k'' FLOAT32 (float_of_nat 0) (float_of_nat 12) (lit 15 10))
      \<lparr>prof_noise := lit 5 100\<rparr>,
      (profile ''jet_fan_speed'' FLOAT32 (float_of_nat 0) (float_of_nat 100) (float_of_nat 50))
      \<lparr>prof_noise := lit 5 10\<rparr>,
      (profile ''traffic_flow'' UINT16 (float_of_nat 0) (float_of_nat 120) (float_of_nat 60))
      \<lparr>prof_noise := float_of_nat 2\<rparr>,
      (profile ''air_temperature'' FLOAT32 (fneg (float_of_nat 10)) (float_of_nat 45) (float_of_nat 14))
      \<lparr>prof_noise := lit 1 10\<rparr>,
      (profile ''sump_level'' FLOAT32 (float_of_nat 0) (float_of_nat 100) (float_of_nat 30))
      \<lparr>prof_noise := lit 1 10\<rparr>,
      (profile ''inflow_rate'' FLOAT32 (float_of_nat 0) (float_of_nat 60) (float_of_nat 4))
      \<lparr>prof_noise := lit 2 10\<rparr>,
      (profile ''pump_flow'' FLOAT32 (float_of_nat 0) (float_of_nat 80) (float_of_nat 0))
      \<lparr>prof_noise := lit 2 10\<rparr>,
      (profile ''pump_running'' UINT16 (float_of_nat 0) (float_of_nat 1) (float_of_nat 0))
      \<lparr>prof_noise := float_of_nat 0\<rparr>,
      (profile ''lighting_power'' FLOAT32 (float_of_nat 0) (float_of_nat 400) (float_of_nat 240))
      \<lparr>prof_noise := float_of_nat 1\<rparr>]"

section \<open>Profiles of a vertical\<close>

definition profiles_map :: "(string \<times> sensor_profile list) list" where
  "profiles_map =
     [(''manufacturing'', MANUFACTURING_PROFILES), (''water'', WATER_PROFILES), (''wastewater'', WATER_PROFILES),
      (''energy'', ENERGY_PROFILES), (''power'', ENERGY_PROFILES), (''oil_gas'', OIL_GAS_PROFILES),
      (''oil'', OIL_GAS_PROFILES), (''gas'', OIL_GAS_PROFILES), (''road_tunnel'', ROAD_TUNNEL_PROFILES)]"

definition get_profiles_for_vertical :: "string \<Rightarrow> sensor_profile list" where
  "get_profiles_for_vertical vertical =
     (case map_of profiles_map (lower vertical) of Some ps \<Rightarrow> ps | None \<Rightarrow> [])"

section \<open>Every profile of the library fits its type\<close>

lemma float_of_nat_le [simp]: "float_of_nat m \<le> float_of_nat n \<longleftrightarrow> m \<le> n"
  by (simp add: less_eq_pyfloat_def float_of_nat_def linorder_not_less)

lemma fneg_nat_le [simp]: "fneg (float_of_nat m) \<le> float_of_nat n"
  by (simp add: less_eq_pyfloat_def float_of_nat_def linorder_not_less)

lemma py_round_nat [simp]: "py_round (float_of_nat n) = Inr (int n)" "py_round (fneg (float_of_nat n)) = Inr (- int n)"
  by (simp_all add: float_of_nat_def scaled_den_def scaled_num_def rne_one)

lemma limit_iff:
  "x = Fin s m e \<Longrightarrow> x < f32_limit \<longleftrightarrow> fval x < 2 powi 127" "x = Fin s m e \<Longrightarrow> fneg f32_limit < x \<longleftrightarrow> - (2 powi 127) < fval x"
  by (simp_all add: less_pyfloat_def f32_limit_def float_lt_fval del: float_lt.simps)

lemma nat_limit [simp]:
  "n < 2 ^ 127 \<Longrightarrow> float_of_nat n < f32_limit" "fneg f32_limit < float_of_nat n"
  "n < 2 ^ 127 \<Longrightarrow> fneg f32_limit < fneg (float_of_nat n)"
proof -
  assume "n < 2 ^ 127"
  then have "real n < real (2 ^ 127)" by (rule of_nat_less_iff [THEN iffD2])
  then have "real n < 2 powi 127" by simp
  then show "float_of_nat n < f32_limit" "fneg f32_limit < fneg (float_of_nat n)"
    by (simp_all add: limit_iff [OF float_of_nat_def] limit_iff [OF arg_cong [OF float_of_nat_def, of fneg, unfolded fneg.simps]])
      (simp_all add: float_of_nat_def)
next
  have "- (2 powi 127) < real n" by (rule less_le_trans [of _ 0]) simp_all
  then show "fneg f32_limit < float_of_nat n"
    by (simp only: limit_iff [OF float_of_nat_def]) (simp add: float_of_nat_def)
qed

lemma lit_bounds:
  "lit 495 10 \<le> lit 505 10" "fneg f32_limit < lit 495 10" "lit 505 10 < f32_limit"
  "lit 7 10 \<le> float_of_nat (Suc 0)" "fneg f32_limit < lit 7 10"
  by (simp_all add: lit_def f64_of_ratio_def round_bin_def ilog2_def blen.simps scaled_den_def scaled_num_def rne_def
      float_of_nat_def [abs_def] f32_limit_def less_eq_pyfloat_def less_pyfloat_def Let_def)

lemmas profile_ok_simps = profile_ok_def profile_def rounds_in_def in_range_def lit_bounds

lemma manufacturing_ok: "list_all profile_ok MANUFACTURING_PROFILES"
  by (simp add: MANUFACTURING_PROFILES_def profile_ok_simps)

lemma water_ok: "list_all profile_ok WATER_PROFILES"
  by (simp add: WATER_PROFILES_def profile_ok_simps)

lemma energy_ok: "list_all profile_ok ENERGY_PROFILES"
  by (simp add: ENERGY_PROFILES_def profile_ok_simps)

lemma oil_gas_ok: "list_all profile_ok OIL_GAS_PROFILES"
  by (simp add: OIL_GAS_PROFILES_def profile_ok_simps)

lemma road_tunnel_ok: "list_all profile_ok ROAD_TUNNEL_PROFILES"
  by (simp add: ROAD_TUNNEL_PROFILES_def profile_ok_simps)

lemmas verticals_ok = manufacturing_ok water_ok energy_ok oil_gas_ok road_tunnel_ok

lemma vertical_ok: "list_all profile_ok (get_profiles_for_vertical v)"
proof (cases "map_of profiles_map (lower v)")
  case (Some ps)
  then have "(lower v, ps) \<in> set profiles_map" by (rule map_of_SomeD)
  then have "list_all profile_ok ps"
    by (auto simp: profiles_map_def verticals_ok)
  with Some show ?thesis by (simp add: get_profiles_for_vertical_def)
qed (simp add: get_profiles_for_vertical_def)

section \<open>Generators of library sensors\<close>

lemma add_profile_ok: "gen_ok g \<Longrightarrow> profile_ok p \<Longrightarrow> gen_ok (add_profile g p)"
proof -
  assume g: "gen_ok g" and p: "profile_ok p"
  have "list_all (\<lambda>kp. profile_ok (snd kp)) (dset k p d)" if "list_all (\<lambda>kp. profile_ok (snd kp)) d" for k d
    using that p by (induction d) auto
  moreover have "map fst (dset k x d) = map fst (dset k y e)" if "map fst d = map fst e"
    for k :: string and x :: sensor_state and y :: sensor_profile and d e
    using that by (simp add: update_keys)
  ultimately show ?thesis
    using g by (simp add: gen_ok_def add_profile_def)
qed

lemma add_profiles:
  assumes "gen_ok g" and "list_all profile_ok ps"
  shows "gen_ok (foldl add_profile g ps)"
    and "map_of (sensor_profiles g) s = None \<Longrightarrow> s \<notin> profile_name ` set ps \<Longrightarrow> map_of (sensor_profiles (foldl add_profile g ps)) s = None"
    and "s \<in> profile_name ` set ps \<Longrightarrow> \<exists>p \<in> set ps. map_of (sensor_profiles (foldl add_profile g ps)) s = Some p"
proof -
  show "gen_ok (foldl add_profile g ps)"
    using assms by (induction ps arbitrary: g) (simp_all add: add_profile_ok)
  show "map_of (sensor_profiles g) s = None \<Longrightarrow> s \<notin> profile_name ` set ps \<Longrightarrow>
      map_of (sensor_profiles (foldl add_profile g ps)) s = None"
    by (induction ps arbitrary: g) (simp_all add: add_profile_def update_conv')
  show "s \<in> profile_name ` set ps \<Longrightarrow> \<exists>p \<in> set ps. map_of (sensor_profiles (foldl add_profile g ps)) s = Some p"
    by (induction ps rule: rev_induct) (auto simp: add_profile_def update_conv')
qed

text \<open>
  C24: the sensors that come with the program can always be read. In a generator made of the
  profiles of any vertical, reading any list of its sensors at any time, with any random draws,
  returns the fields of all of them, each of the size of its type, unless the phase of a sine
  is infinite, and leaves a generator that can be read again.
\<close>

theorem library_readings_total:
  assumes "list_all (sine_ok timestamp_ms) (get_profiles_for_vertical vertical)"
    and "snd ` set names \<subseteq> profile_name ` set (get_profiles_for_vertical vertical)"
  defines "g \<equiv> new_generator (get_profiles_for_vertical vertical)"
  shows "\<exists>bs g'. get_multiple_values sin_of names timestamp_ms g = (Inr bs, g') \<and> gen_ok g'
    \<and> sensor_profiles g' = sensor_profiles g
    \<and> length bs = (\<Sum>ds \<leftarrow> names. case map_of (sensor_profiles g) (snd ds) of Some p \<Rightarrow> get_byte_size p | None \<Rightarrow> 0)
    \<and> (\<forall>ds \<in> set names. map_of (sensor_profiles g) (snd ds) \<noteq> None)"
proof -
  let ?ps = "get_profiles_for_vertical vertical"
  have empty: "gen_ok \<lparr>sensor_states = [], sensor_profiles = []\<rparr>" by (simp add: gen_ok_def)
  note add = add_profiles [OF empty vertical_ok, folded new_generator_def]
  have "gen_ok g" unfolding g_def by (rule add(1))
  moreover have found: "\<forall>ds \<in> set names. \<exists>p. map_of (sensor_profiles g) (snd ds) = Some p \<and> sine_ok timestamp_ms p"
  proof
    fix ds assume "ds \<in> set names"
    then have "snd ds \<in> profile_name ` set (get_profiles_for_vertical vertical)"
      using assms(2) by blast
    from add(3) [OF this] assms(1) show "\<exists>p. map_of (sensor_profiles g) (snd ds) = Some p \<and> sine_ok timestamp_ms p"
      unfolding g_def list_all_iff by blast
  qed
  ultimately show ?thesis
    using get_multiple_values_ok [of g names timestamp_ms sin_of] by force
qed

theorem library_readings_total_witness:
  "\<exists>bs g'. get_multiple_values id [(\<lparr>gauss_noise = FNan, gauss_velocity = FInf True, step_up = True\<rparr>, ''tank_level''),
      (\<lparr>gauss_noise = FInf False, gauss_velocity = FNan, step_up = True\<rparr>, ''pump_status'')] (float_of_nat 1000)
      (new_generator (get_profiles_for_vertical ''WATER'')) = (Inr bs, g') \<and> length bs = 4"
proof -
  have ps: "get_profiles_for_vertical ''WATER'' = WATER_PROFILES"
    by (simp add: get_profiles_for_vertical_def profiles_map_def lower_def lower_char_def char_of_def bit_0)
  have sine: "list_all (sine_ok (float_of_nat 1000)) (get_profiles_for_vertical ''WATER'')"
    unfolding ps by (simp add: WATER_PROFILES_def profile_def sine_ok_def)
  have names: "set [''tank_level'', ''pump_status''] \<subseteq> profile_name ` set WATER_PROFILES"
    by (simp add: WATER_PROFILES_def profile_def)
  have two: "list_all (\<lambda>p. get_byte_size p = 2) WATER_PROFILES"
    by (simp add: WATER_PROFILES_def profile_def get_byte_size_def)
  have "gen_ok \<lparr>sensor_states = [], sensor_profiles = []\<rparr>" by (simp add: gen_ok_def)
  note found = add_profiles(3) [OF this water_ok, folded new_generator_def]
  have "\<exists>p. map_of (sensor_profiles (new_generator WATER_PROFILES)) s = Some p \<and> get_byte_size p = 2"
    if "s \<in> {''tank_level'', ''pump_status''}" for s
  proof -
    have "s \<in> profile_name ` set WATER_PROFILES" using that names by auto
    from found [OF this] two show ?thesis unfolding list_all_iff by blast
  qed
  then have "\<exists>p. map_of (sensor_profiles (new_generator WATER_PROFILES)) ''tank_level'' = Some p \<and> get_byte_size p = 2"
    "\<exists>p. map_of (sensor_profiles (new_generator WATER_PROFILES)) ''pump_status'' = Some p \<and> get_byte_size p = 2"
    by blast+
  then show ?thesis
    using library_readings_total [of "float_of_nat 1000" "''WATER''"
        "[(\<lparr>gauss_noise = FNan, gauss_velocity = FInf True, step_up = True\<rparr>, ''tank_level''),
          (\<lparr>gauss_noise = FInf False, gauss_velocity = FNan, step_up = True\<rparr>, ''pump_status'')]" id]
      sine names unfolding ps by auto
qed

end
