(* ===== verification/SensorChain.thy ===== *)
theory SensorChain
  imports ProcessSim
begin

text \<open>
  From the simulated process to the octets of a packet: the tick of the controller writes the
  process values into the payload generators (\<open>process_sim/controller.py\<close>, \<open>binder.py\<close>), and the
  protocol engines read the sensors of their flow (\<open>payload_generator.py\<close>).
\<close>

text \<open>Pushed values keep a generator readable: neither bounds nor types of the profiles change.\<close>

lemma list_all_on_var:
  "list_all (\<lambda>kv. P (snd kv)) d \<Longrightarrow> (\<And>v. P v \<Longrightarrow> P (f v)) \<Longrightarrow> list_all (\<lambda>kv. P (snd kv)) (on_var x f d)"
  by (induction d) (auto simp: on_var_def)

lemma profile_ok_nominal [simp]: "profile_ok (p\<lparr>nominal_value := y, profile_trend := t\<rparr>) = profile_ok p"
  by (cases "int_type (profile_type p)") (auto simp: profile_ok_def)

lemma push_sensor_ok: "gen_ok g \<Longrightarrow> gen_ok (push_sensor s y g)"
  by (simp add: gen_ok_def push_sensor_def list_all_on_var)

lemma push_bindings_ok: "gen_ok g \<Longrightarrow> gen_ok (foldl (push_binding ms) g bs)"
  by (induction bs arbitrary: g) (auto simp: push_binding_def push_sensor_ok split: option.split)

lemma stable_value:
  assumes "map_of (sensor_profiles g) s = Some p" and "map_of (sensor_states g) s = Some st"
    and "profile_trend p = STABLE" and "\<not> float_of_nat 0 < prof_noise p"
    and "next_value sin_of draws s now g = Inr (v, q, g')"
  shows "v = py_max (prof_min p) (py_min (prof_max p) (fadd (nominal_value p) (float_of_nat 0))) \<and> q = p"
  using assms by (auto simp: next_value_def apply_trend_def Let_def res_simps)

text \<open>A read of a sensor that holds its nominal value without noise.\<close>

lemma stable_reading:
  assumes "gen_ok g" and at: "map_of (sensor_profiles g) s = Some p" "map_of (sensor_states g) s = Some st"
    and stable: "profile_trend p = STABLE" "\<not> float_of_nat 0 < prof_noise p"
    and "int_type (profile_type p) = Some (n, sg)"
  shows "\<exists>bytes g'. get_sensor sin_of draws s now g = (Inr bytes, g') \<and> length bytes = n
    \<and> py_round (py_max (prof_min p) (py_min (prof_max p) (fadd (nominal_value p) (float_of_nat 0)))) = Inr (read_int p n sg bytes)"
proof -
  have sine: "sine_ok now p" by (simp add: sine_ok_def stable)
  obtain bytes v st' where r: "get_sensor sin_of draws s now g
        = (Inr bytes, g\<lparr>sensor_states := dset s st' (sensor_states g)\<rparr>)"
      "encode_value v p = Inr bytes" "length bytes = get_byte_size p" "in_bounds (prof_min p) (prof_max p) v"
    by (rule get_sensor_ok [OF assms(1) at(1) sine])
  let ?v = "py_max (prof_min p) (py_min (prof_max p) (fadd (nominal_value p) (float_of_nat 0)))"
  obtain st2 where p: "profile_ok p" "prof_min p \<le> prof_max p"
    by (rule gen_ok_sensor [OF assms(1) at(1)])
  obtain u st'' where u: "next_value sin_of draws s now g = Inr (u, p, g\<lparr>sensor_states := dset s st'' (sensor_states g)\<rparr>)"
    using next_value_ok [OF at p(2) sine, of sin_of draws] by (elim exE conjE)
  have "u = ?v"
    using stable_value [OF at stable u] by simp
  then have "encode_value ?v p = Inr bytes"
    using r(1) u by (simp add: get_sensor_def)
  moreover have "in_bounds (prof_min p) (prof_max p) ?v"
    using clamp_within [OF p(2)] by simp
  ultimately have "py_round ?v = Inr (read_int p n sg bytes)"
    using encode_ok [OF p(1)] assms(6) by fastforce
  moreover have "length bytes = n"
    using r(3) int_type_pack(2) [OF assms(6)] by (simp add: get_byte_size_def)
  ultimately show ?thesis using r(1) by blast
qed

text \<open>
  C13: the process is on the wire. After a tick of the process simulation, reading a sensor of an
  integer type that one binding feeds and that has no noise gives, at any time, a field whose
  number is the nearest integer to the bound variable's value after the tick, scaled and shifted
  by the binding and clamped to its limits and to the bounds of the profile.
\<close>

theorem process_value_on_the_wire:
  assumes "tick_models d t c = Inr c'" and "flow_bindings c = flow_groups bs"
    and "map_of (ctl_generators c) flow = Some (Some g)" and "gen_ok g"
    and "distinct (map sensor_name (filter (\<lambda>b. binding_flow b = flow) bs))"
    and "b \<in> set bs" and "binding_flow b = flow" and "raw_value (ctl_models c') (variable_name b) = Some raw"
    and "map_of (sensor_profiles g) (sensor_name b) = Some p"
    and "int_type (profile_type p) = Some (n, sg)" and "\<not> float_of_nat 0 < prof_noise p"
  shows "\<exists>g' bytes g''. map_of (ctl_generators c') flow = Some (Some g')
    \<and> get_sensor sin_of draws (sensor_name b) now g' = (Inr bytes, g'') \<and> length bytes = n
    \<and> py_round (py_max (prof_min p) (py_min (prof_max p) (fadd (sensor_value b raw) (float_of_nat 0))))
        = Inr (read_int p n sg bytes)"
proof -
  let ?bs = "filter (\<lambda>b. binding_flow b = flow) bs" and ?s = "sensor_name b"
  let ?g = "foldl (push_binding (ctl_models c')) g ?bs"
  let ?p = "p\<lparr>nominal_value := sensor_value b raw, profile_trend := STABLE\<rparr>"
  have gen: "map_of (ctl_generators c') flow = Some (Some ?g)"
    by (rule tick_generators [OF assms(1-3)])
  have "b \<in> set ?bs" using assms(6,7) by simp
  obtain st where "map_of (sensor_states g) ?s = Some st"
    by (rule gen_ok_sensor [OF assms(4,9)])
  then have view: "sensor_view ?s g = (Some st, Some p)"
    using assms(9) by (simp add: sensor_view_def)
  have "sensor_view ?s ?g = (Some (st\<lparr>current_value := sensor_value b raw\<rparr>), Some ?p)"
    by (rule push_bindings_hit [OF \<open>b \<in> set ?bs\<close> assms(5,8) view])
  then have at: "map_of (sensor_profiles ?g) ?s = Some ?p" "map_of (sensor_states ?g) ?s = Some (st\<lparr>current_value := sensor_value b raw\<rparr>)"
    by (simp_all add: sensor_view_def)
  have ok: "gen_ok ?g" by (rule push_bindings_ok [OF assms(4)])
  have "\<exists>bytes g''. get_sensor sin_of draws ?s now ?g = (Inr bytes, g'') \<and> length bytes = n
      \<and> py_round (py_max (prof_min ?p) (py_min (prof_max ?p) (fadd (nominal_value ?p) (float_of_nat 0)))) = Inr (read_int ?p n sg bytes)"
    using assms(10,11) by (intro stable_reading [OF ok at]) simp_all
  with gen show ?thesis by (simp add: read_int_def)
qed

lemma demo_wire_value:
  "py_round (py_max (prof_min demo_reg) (py_min (prof_max demo_reg)
     (fadd (sensor_value (plain_binding ''temp'' ''f1'' ''reg_0'' (float_of_nat 1)) (float_of_nat 100)) (float_of_nat 0)))) = Inr 100"
  by (simp add: sensor_value_def plain_binding_def demo_reg_def float_of_nat_def f64_scaled_def f64_of_ratio_def round_bin_def
      ilog2_def blen.simps scaled_den_def scaled_num_def rne_def py_max_def py_min_def less_pyfloat_def Let_def)

theorem process_value_on_the_wire_witness:
  "\<exists>c' g' bytes g''. tick_models demo_draws (float_of_nat 1000) demo_fed = Inr c'
     \<and> map_of (ctl_generators c') ''f1'' = Some (Some g')
     \<and> get_sensor id \<lparr>gauss_noise = FNan, gauss_velocity = FNan, step_up = True\<rparr> ''reg_0'' (float_of_nat 2000) g' = (Inr bytes, g'')
     \<and> be_val bytes = 100"
proof -
  obtain c' where tick: "tick_models demo_draws (float_of_nat 1000) demo_fed = Inr c'"
    and raw: "raw_value (ctl_models c') ''temp'' = Some (float_of_nat 100)"
    by (rule demo_tick)
  let ?draws = "\<lparr>gauss_noise = FNan, gauss_velocity = FNan, step_up = True\<rparr>"
  let ?b = "plain_binding ''temp'' ''f1'' ''reg_0'' (float_of_nat 1)"
  have b: "binding_flow ?b = ''f1''" "variable_name ?b = ''temp''" "sensor_name ?b = ''reg_0''"
    by (simp_all add: plain_binding_def)
  have raw': "raw_value (ctl_models c') (variable_name ?b) = Some (float_of_nat 100)"
    by (simp only: b raw)
  have fed: "flow_bindings demo_fed = flow_groups [?b]" "map_of (ctl_generators demo_fed) ''f1'' = Some (Some demo_gen)"
    by (simp_all add: demo_fed_def)
  have gen: "gen_ok demo_gen" "map_of (sensor_profiles demo_gen) (sensor_name ?b) = Some demo_reg"
      "int_type (profile_type demo_reg) = Some (2, False)" "\<not> float_of_nat 0 < prof_noise demo_reg"
    by (simp_all add: plain_binding_def gen_ok_def demo_gen_def demo_reg_def profile_ok_def rounds_in_def in_range_def float_of_nat_def
        scaled_den_def scaled_num_def rne_one less_eq_pyfloat_def less_pyfloat_def)
  have dist: "distinct (map sensor_name (filter (\<lambda>b. binding_flow b = ''f1'') [?b]))" "?b \<in> set [?b]"
    by simp_all
  have read: "read_int demo_reg 2 False bs = be_val bs" for bs
    by (simp add: read_int_def demo_reg_def)
  have "\<exists>g' bytes g''. map_of (ctl_generators c') ''f1'' = Some (Some g')
      \<and> get_sensor id ?draws ''reg_0'' (float_of_nat 2000) g' = (Inr bytes, g'') \<and> length bytes = 2
      \<and> (Inr 100 :: int res) = Inr (be_val bytes)"
    using process_value_on_the_wire [OF tick fed gen(1) dist b(1) raw' gen(2-4), of id ?draws "float_of_nat 2000"]
    by (simp only: b(3) demo_wire_value read)
  then show ?thesis
    using tick by (metis Inr_inject)
qed

end
