(* ===== verification/Attack.thy ===== *)
theory Attack
  imports Orchestrator PyValue "HOL-Library.Char_ord" "HOL-Library.List_Lexorder"
begin

text \<open>
  \<open>backend/app/protocol_engines/attacks/attack_orchestrator.py\<close>: the progress of an attack
  playbook through its kill-chain stages, the actions it fires, the run-time commands and the
  after-action report.

  An operation that schedules \<open>attack_stage_tick\<close> events returns their times.  The clocks
  \<open>time.monotonic\<close> and \<open>time.time\<close> are read once per operation (\<open>wall\<close>); the generators of
  \<open>action_registry.py\<close> and \<open>random.sample\<close> are the fields of \<open>env\<close>, which know the position of
  the action they work for.  Texts for display and the rounded duration of a stage are left
  out, and the targets are given resolved.
\<close>

section \<open>Playbook, report and state\<close>

record attack_action =
  act_id :: string
  act_name :: string
  act_type :: string
  act_params :: pydict
  target_selector :: string
  mitre_technique :: string
  act_description :: string
  expected_cv_detection :: string
  repeat_count :: int
  repeat_interval_ms :: int
  delay_after_ms :: int

record kill_stage =
  stage_id :: string
  duration_seconds :: int
  stage_actions :: "attack_action list"
  mitre_tactics :: "string list"

record target_info =
  tg_device_id :: string
  tg_ip :: string
  tg_mac :: string
  tg_type :: string

record action_report =
  ar_id :: string
  ar_technique :: string
  fired_at :: pyfloat
  fire_count :: int
  ar_packets :: int
  ar_targets :: "string list"
  ioc_attacker :: "string option"
  ioc_target_ips :: "string list"
  ioc_params :: pydict

datatype stage_status = Pending | InProgress | Completed | Skipped

record stage_report =
  sr_id :: string
  sr_tactics :: "string list"
  sr_started_at :: pyfloat
  sr_completed_at :: "pyfloat option"
  sr_packets :: int
  sr_actions :: "action_report list"
  sr_status :: stage_status

datatype report_status = ReportInProgress | ReportCompleted | ReportStopped

record attack_report =
  rep_started_at :: pyfloat
  rep_completed_at :: "pyfloat option"
  rep_status :: report_status
  rep_stages :: "stage_report list"
  total_packets :: int
  total_actions :: int
  rep_stages_completed :: int
  techniques_used :: "string list"
  tactics_covered :: "string list"
  rep_targets_hit :: "string list"

record attack =
  stages :: "kill_stage list"
  auto_advance :: bool
  start_manual :: bool
  intensity :: pyfloat
  all_targets :: "target_info list"
  attacker_ip :: string
  current_stage_idx :: nat
  stage_start_monotonic :: pyfloat
  is_active :: bool
  is_paused :: bool
  is_completed :: bool
  virtual_time :: bool
  total_duration_ms :: "pyfloat option"
  stage_start_ms :: pyfloat
  attack_time_ms :: pyfloat
  effective_stage_s :: "pyfloat list option"
  actions_completed :: int
  packets_generated :: int
  stages_completed :: int
  pending_command :: "pydict option"
  stage_actions_fired :: "string list"
  report :: attack_report

record wall =
  mono :: pyfloat
  tod :: pyfloat

record 'p env =
  generator :: "nat \<Rightarrow> string \<Rightarrow> (pydict \<Rightarrow> target_info list \<Rightarrow> string \<Rightarrow> pyfloat \<Rightarrow> (pyfloat \<times> 'p) list res) option"
  sample_three :: "nat \<Rightarrow> target_info list \<Rightarrow> target_info list"

definition TICK_INTERVAL_MS :: pyfloat where
  "TICK_INTERVAL_MS = float_of_nat 2000"

definition int_float :: "int \<Rightarrow> pyfloat" where
  "int_float n = f64_of_ratio (n < 0) (nat \<bar>n\<bar>) 1"

definition action_reported :: "attack_action \<Rightarrow> action_report" where
  "action_reported a = \<lparr>ar_id = act_id a, ar_technique = mitre_technique a, fired_at = float_of_nat 0, fire_count = 0,
     ar_packets = 0, ar_targets = [], ioc_attacker = None, ioc_target_ips = [], ioc_params = []\<rparr>"

definition stage_reported :: "kill_stage \<Rightarrow> stage_report" where
  "stage_reported s = \<lparr>sr_id = stage_id s, sr_tactics = mitre_tactics s, sr_started_at = float_of_nat 0,
     sr_completed_at = None, sr_packets = 0, sr_actions = map action_reported (stage_actions s), sr_status = Pending\<rparr>"

definition new_report :: "kill_stage list \<Rightarrow> attack_report" where
  "new_report ss = \<lparr>rep_started_at = float_of_nat 0, rep_completed_at = None, rep_status = ReportInProgress,
     rep_stages = map stage_reported ss, total_packets = 0, total_actions = 0, rep_stages_completed = 0,
     techniques_used = [], tactics_covered = [], rep_targets_hit = []\<rparr>"

text \<open>The stage overrides of the configuration: \<open>int(override["duration_seconds"])\<close>.\<close>

definition apply_override :: "(string \<times> pydict) list \<Rightarrow> kill_stage \<Rightarrow> kill_stage res" where
  "apply_override overrides s =
     (case map_of (case map_of overrides (stage_id s) of Some d \<Rightarrow> d | None \<Rightarrow> []) ''duration_seconds'' of
        None \<Rightarrow> Inr s
      | Some v \<Rightarrow> bnd (py_int v) (\<lambda>n. Inr (s\<lparr>duration_seconds := n\<rparr>)))"

definition new_attack ::
    "kill_stage list \<Rightarrow> (string \<times> pydict) list \<Rightarrow> bool \<Rightarrow> bool \<Rightarrow> pyfloat \<Rightarrow> target_info list \<Rightarrow> string \<Rightarrow> attack res" where
  "new_attack playbook_stages overrides auto manual cfg_intensity targets attacker =
     bnd (mapM (apply_override overrides) playbook_stages) (\<lambda>ss.
     Inr \<lparr>stages = ss, auto_advance = auto, start_manual = manual,
          intensity = py_max (f64_of_ratio False 1 10) (py_min (float_of_nat 3) cfg_intensity),
          all_targets = targets, attacker_ip = attacker, current_stage_idx = 0,
          stage_start_monotonic = float_of_nat 0, is_active = False, is_paused = False, is_completed = False,
          virtual_time = False, total_duration_ms = None, stage_start_ms = float_of_nat 0,
          attack_time_ms = float_of_nat 0, effective_stage_s = None, actions_completed = 0, packets_generated = 0,
          stages_completed = 0, pending_command = None, stage_actions_fired = [], report = new_report ss\<rparr>)"

definition set_virtual_time_mode :: "bool \<Rightarrow> pyfloat option \<Rightarrow> attack \<Rightarrow> attack" where
  "set_virtual_time_mode enabled t a = a\<lparr>virtual_time := enabled, total_duration_ms := t\<rparr>"

section \<open>Clocks\<close>

definition elapsed_s :: "wall \<Rightarrow> attack \<Rightarrow> pyfloat" where
  "elapsed_s w a =
     (if virtual_time a
      then py_max (float_of_nat 0) (fquot (fsub (attack_time_ms a) (stage_start_ms a)) (float_of_nat 1000))
      else fsub (mono w) (stage_start_monotonic a))"

definition stage_duration_s :: "attack \<Rightarrow> nat \<Rightarrow> pyfloat" where
  "stage_duration_s a i =
     (let planned = (if i < length (stages a) then int_float (duration_seconds (stages a ! i)) else float_of_nat 0)
      in case effective_stage_s a of
           Some ds \<Rightarrow> if i < length ds then ds ! i else planned
         | None \<Rightarrow> planned)"

definition mark_stage_clock_start :: "wall \<Rightarrow> attack \<Rightarrow> attack" where
  "mark_stage_clock_start w a = a\<lparr>stage_start_monotonic := mono w, stage_start_ms := attack_time_ms a\<rparr>"

definition apply_time_compression :: "pyfloat \<Rightarrow> attack \<Rightarrow> attack" where
  "apply_time_compression available_ms a =
     (if stages a = [] then a
      else
        let available_s = py_max (float_of_nat 1) (fquot available_ms (float_of_nat 1000));
            planned = map (\<lambda>s. py_max (float_of_nat 1) (int_float (duration_seconds s))) (stages a);
            total = foldl fadd (float_of_nat 0) planned
        in if total \<le> available_s then a\<lparr>effective_stage_s := Some planned\<rparr>
           else
             let tick_s = fquot TICK_INTERVAL_MS (float_of_nat 1000);
                 margin_s = py_max (fmul available_s (f64_of_ratio False 15 100)) (fmul tick_s (float_of_nat 3));
                 usable_s = py_max (fmul tick_s (float_of_nat 2)) (fsub available_s margin_s);
                 scale = fquot usable_s total
             in a\<lparr>effective_stage_s := Some (map (\<lambda>p. py_max (float_of_nat 3) (fmul p scale)) planned)\<rparr>)"

section \<open>The report\<close>

definition on_stage :: "nat \<Rightarrow> (stage_report \<Rightarrow> stage_report) \<Rightarrow> attack_report \<Rightarrow> attack_report" where
  "on_stage i f r = (if i < length (rep_stages r) then r\<lparr>rep_stages := (rep_stages r)[i := f (rep_stages r ! i)]\<rparr> else r)"

definition start_stage :: "wall \<Rightarrow> stage_report \<Rightarrow> stage_report" where
  "start_stage w s =
     (let s = (if is_zero (sr_started_at s) then s\<lparr>sr_started_at := tod w\<rparr> else s) in s\<lparr>sr_status := InProgress\<rparr>)"

definition mark_stage_started :: "wall \<Rightarrow> nat \<Rightarrow> attack_report \<Rightarrow> attack_report" where
  "mark_stage_started w i r = on_stage i (start_stage w) r"

definition mark_stage_completed :: "wall \<Rightarrow> nat \<Rightarrow> attack_report \<Rightarrow> attack_report" where
  "mark_stage_completed w i r = on_stage i (\<lambda>s. s\<lparr>sr_completed_at := Some (tod w), sr_status := Completed\<rparr>) r"

definition mark_report_started :: "wall \<Rightarrow> attack \<Rightarrow> attack" where
  "mark_report_started w a =
     (let r = report a;
          r = (if is_zero (rep_started_at r) then r\<lparr>rep_started_at := tod w\<rparr> else r);
          r = r\<lparr>rep_status := ReportInProgress\<rparr>
      in a\<lparr>report := mark_stage_started w (current_stage_idx a) r\<rparr>)"

definition sorted_set :: "string list \<Rightarrow> string list" where
  "sorted_set xs = sort (remdups xs)"

definition refresh_report_totals :: "attack_report \<Rightarrow> attack_report" where
  "refresh_report_totals r =
     (let ss = rep_stages r; fired = filter (\<lambda>x. 0 < fire_count x) (concat (map sr_actions ss))
      in r\<lparr>total_packets := sum_list (map sr_packets ss),
           total_actions := int (length fired),
           rep_stages_completed := int (length (filter (\<lambda>s. sr_status s = Completed) ss)),
           techniques_used := sorted_set (filter (\<lambda>t. t \<noteq> []) (map ar_technique fired)),
           tactics_covered := sorted_set (concat (map sr_tactics (filter (\<lambda>s. sr_status s \<in> {Completed, InProgress}) ss))),
           rep_targets_hit := sorted_set (concat (map ar_targets fired))\<rparr>)"

definition close_stage :: "wall \<Rightarrow> report_status \<Rightarrow> stage_report \<Rightarrow> stage_report" where
  "close_stage w status s =
     (if sr_status s = InProgress
      then s\<lparr>sr_completed_at := Some (tod w), sr_status := (if status = ReportCompleted then Completed else Skipped)\<rparr>
      else s)"

definition mark_report_completed :: "wall \<Rightarrow> report_status \<Rightarrow> attack \<Rightarrow> attack" where
  "mark_report_completed w status a =
     (if rep_completed_at (report a) \<noteq> None then a
      else
        let r = (report a)\<lparr>rep_completed_at := Some (tod w), rep_status := status\<rparr>
        in a\<lparr>report := refresh_report_totals (on_stage (current_stage_idx a) (close_stage w status) r)\<rparr>)"

definition reset_action_report :: "action_report \<Rightarrow> action_report" where
  "reset_action_report x = x\<lparr>fired_at := float_of_nat 0, fire_count := 0, ar_packets := 0, ar_targets := [],
     ioc_attacker := None, ioc_target_ips := [], ioc_params := []\<rparr>"

definition reset_report :: "attack_report \<Rightarrow> attack_report" where
  "reset_report r =
     \<lparr>rep_started_at = float_of_nat 0, rep_completed_at = None, rep_status = ReportInProgress,
      rep_stages = map (\<lambda>s. s\<lparr>sr_started_at := float_of_nat 0, sr_completed_at := None, sr_packets := 0,
        sr_status := Pending, sr_actions := map reset_action_report (sr_actions s)\<rparr>) (rep_stages r),
      total_packets = 0, total_actions = 0, rep_stages_completed = 0, techniques_used = [], tactics_covered = [],
      rep_targets_hit = []\<rparr>"

text \<open>The telemetry of one fired action, with the indicators of compromise.\<close>

definition IOC_KEYS :: "string list" where
  "IOC_KEYS = [''ports'', ''port_range'', ''function_codes'', ''register_address'', ''register_count'', ''coil_address'',
     ''snmp_community'', ''communities'', ''object_id'', ''exfil_size_bytes'', ''beacon_pattern'', ''c2_domain'', ''c2_ip'',
     ''exfil_protocol'', ''scan_type'', ''payload_hex'']"

definition add_ioc :: "pydict \<Rightarrow> pydict \<Rightarrow> string \<Rightarrow> pydict" where
  "add_ioc params iocs k =
     (case map_of params k of
        Some v \<Rightarrow> if map_of iocs k = None then iocs @ [(k, v)] else iocs
      | None \<Rightarrow> iocs)"

definition merge_ids :: "string list \<Rightarrow> target_info list \<Rightarrow> string list" where
  "merge_ids ids ts = foldl (\<lambda>ids t. if tg_device_id t = [] then ids else set_add (tg_device_id t) ids) ids ts"

definition record_fired ::
    "wall \<Rightarrow> string \<Rightarrow> attack_action \<Rightarrow> target_info list \<Rightarrow> int \<Rightarrow> action_report \<Rightarrow> action_report" where
  "record_fired w attacker act ts n x =
     (let ips = filter (\<lambda>ip. ip \<noteq> []) (map tg_ip ts)
      in x\<lparr>fired_at := (if is_zero (fired_at x) then tod w else fired_at x),
           fire_count := fire_count x + 1, ar_packets := ar_packets x + n,
           ar_targets := merge_ids (ar_targets x) ts,
           ioc_attacker := Some (case ioc_attacker x of Some old \<Rightarrow> old | None \<Rightarrow> attacker),
           ioc_target_ips := (if ips = [] then ioc_target_ips x else sorted_set (ioc_target_ips x @ ips)),
           ioc_params := foldl (add_ioc (act_params act)) (ioc_params x) IOC_KEYS\<rparr>)"

fun on_first :: "('a \<Rightarrow> bool) \<Rightarrow> ('a \<Rightarrow> 'a) \<Rightarrow> 'a list \<Rightarrow> 'a list" where
  "on_first P f [] = []"
| "on_first P f (x # xs) = (if P x then f x # xs else x # on_first P f xs)"

definition record_action_fired ::
    "wall \<Rightarrow> string \<Rightarrow> nat \<Rightarrow> attack_action \<Rightarrow> target_info list \<Rightarrow> int \<Rightarrow> attack_report \<Rightarrow> attack_report" where
  "record_action_fired w attacker i act ts n r =
     on_stage i (\<lambda>s.
       if list_ex (\<lambda>x. ar_id x = act_id act) (sr_actions s)
       then s\<lparr>sr_actions := on_first (\<lambda>x. ar_id x = act_id act) (record_fired w attacker act ts n) (sr_actions s),
              sr_packets := sr_packets s + n\<rparr>
       else s) r"

section \<open>Stages\<close>

definition advance_kill_chain :: "wall \<Rightarrow> attack \<Rightarrow> attack" where
  "advance_kill_chain w a =
     (let i = current_stage_idx a;
          a = (if i < length (stages a)
               then a\<lparr>stages_completed := stages_completed a + 1, report := mark_stage_completed w i (report a)\<rparr>
               else a);
          a = a\<lparr>current_stage_idx := i + 1, stage_actions_fired := []\<rparr>
      in if length (stages a) \<le> current_stage_idx a
         then mark_report_completed w ReportCompleted (a\<lparr>is_completed := True\<rparr>)
         else
           let a = mark_stage_clock_start w a
           in a\<lparr>report := mark_stage_started w (current_stage_idx a) (report a)\<rparr>)"

definition fit_window :: "pyfloat \<Rightarrow> attack \<Rightarrow> attack" where
  "fit_window first_tick_ms a =
     (case total_duration_ms a of
        Some d \<Rightarrow>
          if virtual_time a \<and> float_truthy d
          then apply_time_compression (py_max (float_of_nat 1000) (fsub d first_tick_ms)) a else a
      | None \<Rightarrow> a)"

definition schedule_initial_events :: "wall \<Rightarrow> pyfloat \<Rightarrow> attack \<Rightarrow> attack \<times> pyfloat list" where
  "schedule_initial_events w start_time_ms a =
     (if start_manual a then (a, [])
      else
        let a = a\<lparr>is_active := True, attack_time_ms := start_time_ms, stage_start_ms := start_time_ms,
                  stage_start_monotonic := mono w\<rparr>
        in (mark_report_started w (fit_window start_time_ms a), [start_time_ms]))"

definition set_pending_command :: "pydict \<Rightarrow> attack \<Rightarrow> attack" where
  "set_pending_command c a = a\<lparr>pending_command := Some c\<rparr>"

definition run_command :: "wall \<Rightarrow> pydict \<Rightarrow> attack \<Rightarrow> attack" where
  "run_command w cmd a =
     (let kind = pd_get cmd ''type'' (PStr [])
      in if kind = PStr ''start'' then
           if \<not> is_active a then
             let a = mark_stage_clock_start w
                       (a\<lparr>is_active := True, is_paused := False, is_completed := False, current_stage_idx := 0\<rparr>)
             in mark_report_started w (a\<lparr>stage_actions_fired := []\<rparr>)
           else if is_completed a then
             let a = mark_stage_clock_start w
                       (a\<lparr>is_completed := False, current_stage_idx := 0, stages_completed := 0, actions_completed := 0,
                          packets_generated := 0\<rparr>)
             in mark_report_started w (a\<lparr>stage_actions_fired := [], report := reset_report (report a)\<rparr>)
           else a
         else if kind = PStr ''stop'' then
           mark_report_completed w ReportStopped (a\<lparr>is_active := False, is_completed := True\<rparr>)
         else if kind = PStr ''advance_stage'' then advance_kill_chain w a
         else if kind = PStr ''pause'' then a\<lparr>is_paused := truthy (pd_get cmd ''paused'' (PBool True))\<rparr>
         else a)"

definition process_pending_command :: "wall \<Rightarrow> attack \<Rightarrow> attack" where
  "process_pending_command w a =
     (case pending_command a of
        None \<Rightarrow> a
      | Some cmd \<Rightarrow> run_command w cmd (a\<lparr>pending_command := None\<rparr>))"

section \<open>Actions\<close>

text \<open>\<open>stage.actions.index(action)\<close>: the first equal action; parameters compare as dicts.\<close>

definition action_eq :: "attack_action \<Rightarrow> attack_action \<Rightarrow> bool" where
  "action_eq a b \<longleftrightarrow> py_eq (PDict (act_params a)) (PDict (act_params b)) \<and> a\<lparr>act_params := []\<rparr> = b\<lparr>act_params := []\<rparr>"

definition action_index :: "attack_action \<Rightarrow> attack_action list \<Rightarrow> nat" where
  "action_index act acts = length (takeWhile (\<lambda>x. \<not> action_eq act x) acts)"

definition select_targets :: "'p env \<Rightarrow> nat \<Rightarrow> attack_action \<Rightarrow> attack \<Rightarrow> target_info list" where
  "select_targets e i act a =
     (let selector = lower (target_selector act)
      in if selector = ''any'' \<or> selector = ''all'' then all_targets a
         else
           let matching = filter (\<lambda>t. tg_type t = selector) (all_targets a);
               matching = (if matching = [] then all_targets a else matching)
           in if 3 < length matching then sample_three e i matching else matching)"

definition fired_key :: "kill_stage \<Rightarrow> attack_action \<Rightarrow> string" where
  "fired_key s act =
     (let k = stage_id s @ '':'' @ act_id act in if repeat_count act \<le> 1 then k else k @ '':count'')"

text \<open>Whether the loop over the actions gets past its \<open>continue\<close>s.\<close>

definition due :: "pyfloat \<Rightarrow> kill_stage \<Rightarrow> attack_action \<Rightarrow> attack \<Rightarrow> bool" where
  "due progress s act a \<longleftrightarrow>
     fired_key s act \<notin> set (stage_actions_fired a)
     \<and> (repeat_count act \<le> 1 \<longrightarrow>
          \<not> progress < f64_of_ratio False (action_index act (stage_actions s)) (max 1 (length (stage_actions s))))"

definition fire ::
    "'p env \<Rightarrow> wall \<Rightarrow> pyfloat \<Rightarrow> kill_stage \<Rightarrow> nat \<Rightarrow> attack_action \<Rightarrow> attack \<Rightarrow> attack \<times> (pyfloat \<times> 'p) list" where
  "fire e w current_time_ms s i act a =
     (let a = a\<lparr>stage_actions_fired := set_add (fired_key s act) (stage_actions_fired a)\<rparr>;
          done_one = a\<lparr>actions_completed := actions_completed a + 1\<rparr>;
          ts = select_targets e i act a
      in if ts = [] then (done_one, [])
         else
           case generator e i (act_type act) of
             None \<Rightarrow> (done_one, [])
           | Some g \<Rightarrow>
               (case g (act_params act) ts (attacker_ip a) current_time_ms of
                  Inl _ \<Rightarrow> (a, [])
                | Inr pkts \<Rightarrow>
                    (a\<lparr>actions_completed := actions_completed a + 1,
                       packets_generated := packets_generated a + int (length pkts),
                       report := record_action_fired w (attacker_ip a) (current_stage_idx a) act ts (int (length pkts)) (report a)\<rparr>,
                     pkts)))"

fun fire_actions ::
    "'p env \<Rightarrow> wall \<Rightarrow> pyfloat \<Rightarrow> pyfloat \<Rightarrow> kill_stage \<Rightarrow> nat \<Rightarrow> attack_action list \<Rightarrow> attack
      \<Rightarrow> attack \<times> (pyfloat \<times> 'p) list" where
  "fire_actions e w current_time_ms progress s i [] a = (a, [])"
| "fire_actions e w current_time_ms progress s i (act # acts) a =
     (let (a, pkts) = (if due progress s act a then fire e w current_time_ms s i act a else (a, []));
          (a, rest) = fire_actions e w current_time_ms progress s (i + 1) acts a
      in (a, pkts @ rest))"

definition generate_stage_packets ::
    "'p env \<Rightarrow> wall \<Rightarrow> pyfloat \<Rightarrow> kill_stage \<Rightarrow> attack \<Rightarrow> attack \<times> (pyfloat \<times> 'p) list" where
  "generate_stage_packets e w current_time_ms s a =
     (let progress = fquot (elapsed_s w a) (py_max (float_of_nat 1) (stage_duration_s a (current_stage_idx a)))
      in fire_actions e w current_time_ms progress s 0 (stage_actions s) a)"

section \<open>Events\<close>

definition handle_attack_tick ::
    "'p env \<Rightarrow> wall \<Rightarrow> pyfloat \<Rightarrow> attack \<Rightarrow> attack \<times> pyfloat list \<times> (pyfloat \<times> 'p) list" where
  "handle_attack_tick e w current_time_ms a =
     (let a = process_pending_command w (a\<lparr>attack_time_ms := current_time_ms\<rparr>);
          later = fadd current_time_ms TICK_INTERVAL_MS
      in if \<not> is_active a \<or> is_paused a \<or> is_completed a
         then (a, if is_completed a then [] else [later], [])
         else if length (stages a) \<le> current_stage_idx a
         then (mark_report_completed w ReportCompleted (a\<lparr>is_completed := True\<rparr>), [], [])
         else
           let expired = (stage_duration_s a (current_stage_idx a) \<le> elapsed_s w a)
           in if expired \<and> \<not> auto_advance a then (a, [later], [])
              else
                let a = (if expired then advance_kill_chain w a else a)
                in if is_completed a then (a, [], [])
                   else
                     let (a, pkts) = generate_stage_packets e w current_time_ms (stages a ! current_stage_idx a) a
                     in (a, [fadd current_time_ms (fquot TICK_INTERVAL_MS (intensity a))], pkts))"

definition check_wall_time_advancement :: "wall \<Rightarrow> pyfloat \<Rightarrow> attack \<Rightarrow> attack \<times> pyfloat list" where
  "check_wall_time_advancement w current_time_ms a =
     (if \<not> is_active a \<or> is_paused a \<or> is_completed a \<or> length (stages a) \<le> current_stage_idx a then (a, [])
      else
        let a = a\<lparr>attack_time_ms := current_time_ms\<rparr>
        in if stage_duration_s a (current_stage_idx a) \<le> elapsed_s w a \<and> auto_advance a
           then
             let a = advance_kill_chain w a
             in (a, if is_completed a then [] else [fadd current_time_ms (float_of_nat 1)])
           else (a, []))"

section \<open>Runs\<close>

text \<open>
  The attack and the times of its pending ticks.  A step is a command from outside, the check of
  the main loop, or a pending tick, with the packets it emits; \<open>ok\<close> says which commands come.
\<close>

inductive atk_step ::
    "(pydict \<Rightarrow> bool) \<Rightarrow> attack \<times> pyfloat multiset \<Rightarrow> (pyfloat \<times> 'p) list \<Rightarrow> attack \<times> pyfloat multiset \<Rightarrow> bool"
  for ok where
  command: "ok c \<Longrightarrow> atk_step ok (a, ts) [] (set_pending_command c a, ts)"
| check: "check_wall_time_advancement w t a = (a', new) \<Longrightarrow> atk_step ok (a, ts) [] (a', ts + mset new)"
| tick: "t \<in># ts \<Longrightarrow> handle_attack_tick e w t a = (a', new, pkts) \<Longrightarrow>
    atk_step ok (a, ts) pkts (a', ts - {#t#} + mset new)"

inductive atk_run ::
    "(pydict \<Rightarrow> bool) \<Rightarrow> attack \<times> pyfloat multiset \<Rightarrow> (pyfloat \<times> 'p) list \<Rightarrow> attack \<times> pyfloat multiset \<Rightarrow> bool"
  for ok where
  nothing: "atk_run ok s [] s"
| more: "atk_run ok s pkts s' \<Longrightarrow> atk_step ok s' pkts' s'' \<Longrightarrow> atk_run ok s (pkts @ pkts') s''"

inductive_cases atk_step_elim: "atk_step ok (a, ts) pkts s'"

section \<open>Without a pending tick\<close>

lemma check_dead:
  assumes "\<not> is_active a \<or> is_completed a"
  shows "check_wall_time_advancement w t a = (a, [])"
  using assms by (auto simp: check_wall_time_advancement_def)

definition dead :: "attack \<Rightarrow> bool" where
  "dead a \<longleftrightarrow> \<not> is_active a \<or> is_completed a"

lemma dead_step:
  assumes "atk_step ok (a, {#}) pkts (a', ts)" and "dead a"
  shows "ts = {#} \<and> pkts = [] \<and> dead a' \<and> a'\<lparr>pending_command := pending_command a\<rparr> = a"
  using assms by (auto elim!: atk_step_elim simp: check_dead dead_def set_pending_command_def)

lemma dead_run:
  assumes "atk_run ok s pkts s'" and "s = (a, {#})" and "dead a"
  shows "snd s' = {#} \<and> pkts = [] \<and> dead (fst s') \<and> (fst s')\<lparr>pending_command := pending_command a\<rparr> = a"
  using assms
proof (induction rule: atk_run.induct)
  case (more s pkts s' pkts' s'')
  then have IH: "snd s' = {#}" "pkts = []" "dead (fst s')" "(fst s')\<lparr>pending_command := pending_command a\<rparr> = a"
    by auto
  obtain b where s': "s' = (b, {#})" using IH(1) by (cases s') auto
  obtain c ts where s'': "s'' = (c, ts)" by (cases s'')
  have step: "ts = {#}" "pkts' = []" "dead c" "c\<lparr>pending_command := pending_command b\<rparr> = b"
    using dead_step more.hyps(2) IH(3) s' s'' by (metis fst_conv)+
  have "c\<lparr>pending_command := pending_command a\<rparr> = b\<lparr>pending_command := pending_command a\<rparr>"
    by (subst step(4) [symmetric]) simp
  with IH step s' s'' show ?case by simp
qed simp

section \<open>The stages in the report\<close>

definition expected_status :: "nat \<Rightarrow> nat \<Rightarrow> stage_status" where
  "expected_status current i = (if i < current then Completed else if i = current then InProgress else Pending)"

definition statuses :: "attack_report \<Rightarrow> stage_status list" where
  "statuses r = map sr_status (rep_stages r)"

definition no_stop :: "pydict \<Rightarrow> bool" where
  "no_stop c \<longleftrightarrow> pd_get c ''type'' (PStr []) \<noteq> PStr ''stop''"

definition chain_inv :: "kill_stage list \<Rightarrow> attack \<Rightarrow> bool" where
  "chain_inv ss a \<longleftrightarrow> stages a = ss \<and> is_active a
     \<and> statuses (report a) = map (expected_status (current_stage_idx a)) [0..<length ss]
     \<and> stages_completed a = int (min (current_stage_idx a) (length ss))
     \<and> (is_completed a \<longrightarrow> length ss \<le> current_stage_idx a)
     \<and> (ss \<noteq> [] \<and> length ss \<le> current_stage_idx a \<longrightarrow> is_completed a)
     \<and> (case pending_command a of Some c \<Rightarrow> no_stop c | None \<Rightarrow> True)"

lemma statuses_on_stage:
  "statuses (on_stage i f r) =
     (if i < length (rep_stages r) then (statuses r)[i := sr_status (f (rep_stages r ! i))] else statuses r)"
  by (simp add: statuses_def on_stage_def map_update)

lemma length_statuses: "length (statuses r) = length (rep_stages r)"
  by (simp add: statuses_def)

lemma statuses_simps [simp]:
  "statuses (r\<lparr>rep_started_at := x\<rparr>) = statuses r" "statuses (r\<lparr>rep_status := y\<rparr>) = statuses r"
  "statuses (r\<lparr>rep_completed_at := z\<rparr>) = statuses r" "statuses (refresh_report_totals r) = statuses r"
  by (simp_all add: statuses_def refresh_report_totals_def Let_def)

lemma statuses_marks:
  "statuses (mark_stage_started w i r) = (if i < length (statuses r) then (statuses r)[i := InProgress] else statuses r)"
  "statuses (mark_stage_completed w i r) = (if i < length (statuses r) then (statuses r)[i := Completed] else statuses r)"
  "statuses (reset_report r) = replicate (length (statuses r)) Pending"
  by (simp_all add: mark_stage_started_def mark_stage_completed_def statuses_on_stage start_stage_def length_statuses Let_def)
    (simp add: statuses_def reset_report_def map_replicate_const comp_def)

lemma record_statuses [simp]: "statuses (record_action_fired w ip i act ts n r) = statuses r"
proof (cases "i < length (rep_stages r)")
  case True
  then have "(statuses r)[i := sr_status (rep_stages r ! i)] = statuses r"
    by (simp add: statuses_def list_update_same_conv)
  with True show ?thesis by (simp add: record_action_fired_def statuses_on_stage)
qed (simp add: record_action_fired_def statuses_on_stage)

text \<open>Firing actions changes nothing that \<open>chain_inv\<close> speaks of.\<close>

lemma chain_inv_fields:
  "chain_inv ss (a\<lparr>stage_actions_fired := x\<rparr>) = chain_inv ss a"
  "chain_inv ss (a\<lparr>actions_completed := y\<rparr>) = chain_inv ss a"
  "chain_inv ss (a\<lparr>packets_generated := z\<rparr>) = chain_inv ss a"
  "chain_inv ss (a\<lparr>attack_time_ms := u\<rparr>) = chain_inv ss a"
  "statuses r = statuses (report a) \<Longrightarrow> chain_inv ss (a\<lparr>report := r\<rparr>) = chain_inv ss a"
  by (simp_all add: chain_inv_def)

lemma fire_inv': "chain_inv ss (fst (fire e w t s i act a)) = chain_inv ss a"
  by (simp add: fire_def Let_def chain_inv_fields split: option.split sum.split)

lemma fire_inv: "fire e w t s i act a = (a', pkts) \<Longrightarrow> chain_inv ss a' = chain_inv ss a"
  using fire_inv' [of ss e w t s i act a] by simp

lemma fire_actions_inv: "fire_actions e w t pr s i acts a = (a', pkts) \<Longrightarrow> chain_inv ss a' = chain_inv ss a"
proof (induction acts arbitrary: i a a' pkts)
  case (Cons act acts)
  obtain b p where b: "(if due pr s act a then fire e w t s i act a else (a, [])) = (b, p)"
    by (cases "if due pr s act a then fire e w t s i act a else (a, [])")
  obtain c q where c: "fire_actions e w t pr s (i + 1) acts b = (c, q)"
    by (cases "fire_actions e w t pr s (i + 1) acts b")
  have "chain_inv ss b = chain_inv ss a"
    using b by (auto split: if_splits dest: fire_inv)
  moreover have "a' = c" using Cons.prems b c by simp
  ultimately show ?case using Cons.IH [OF c] by simp
qed simp

lemma statuses_step:
  assumes "i < n"
  shows "(map (expected_status i) [0..<n])[i := Completed] = map (\<lambda>j. if j \<le> i then Completed else Pending) [0..<n]"
    and "Suc i < n \<Longrightarrow> (map (\<lambda>j. if j \<le> i then Completed else Pending) [0..<n])[Suc i := InProgress]
        = map (expected_status (Suc i)) [0..<n]"
    and "\<not> Suc i < n \<Longrightarrow> map (\<lambda>j. if j \<le> i then Completed else Pending) [0..<n] = map (expected_status (Suc i)) [0..<n]"
  using assms by (auto simp: expected_status_def list_eq_iff_nth_eq nth_list_update)

lemma complete_past_end:
  assumes "length (rep_stages (report a)) \<le> current_stage_idx a"
  shows "\<exists>r. mark_report_completed w st a = a\<lparr>report := r\<rparr> \<and> statuses r = statuses (report a)"
proof (cases "rep_completed_at (report a)")
  case None
  then show ?thesis
    using assms
    by (intro exI [of _ "refresh_report_totals ((report a)\<lparr>rep_completed_at := Some (tod w), rep_status := st\<rparr>)"])
      (simp add: mark_report_completed_def Let_def on_stage_def)
next
  case (Some x)
  then show ?thesis
    by (intro exI [of _ "report a"]) (simp add: mark_report_completed_def)
qed

lemma chain_inv_length: "chain_inv ss a \<Longrightarrow> length (rep_stages (report a)) = length ss"
  unfolding chain_inv_def by (metis length_statuses length_map length_upt minus_nat.diff_0)

lemma advance_inv:
  assumes "chain_inv ss a"
  shows "chain_inv ss (advance_kill_chain w a)"
proof (cases "current_stage_idx a < length ss")
  case True
  let ?i = "current_stage_idx a" and ?n = "length ss"
  have st: "statuses (mark_stage_completed w ?i (report a)) = map (\<lambda>j. if j \<le> ?i then Completed else Pending) [0..<?n]"
    using assms True statuses_step(1) [OF True] by (simp add: chain_inv_def statuses_marks)
  show ?thesis
  proof (cases "Suc ?i < ?n")
    case False
    let ?a = "a\<lparr>stages_completed := stages_completed a + 1, report := mark_stage_completed w ?i (report a),
        current_stage_idx := Suc ?i, stage_actions_fired := [], is_completed := True\<rparr>"
    have "length (rep_stages (mark_stage_completed w ?i (report a))) = ?n"
      using st by (metis length_statuses length_map length_upt minus_nat.diff_0)
    then obtain r where "mark_report_completed w ReportCompleted ?a = ?a\<lparr>report := r\<rparr>"
        "statuses r = statuses (mark_stage_completed w ?i (report a))"
      using complete_past_end [of ?a w ReportCompleted] False by auto
    with assms True False st statuses_step(3) [OF True] show ?thesis
      by (auto simp: advance_kill_chain_def chain_inv_def Let_def)
  qed (use assms True st statuses_step(2) [OF True] in
      \<open>simp add: advance_kill_chain_def chain_inv_def Let_def mark_stage_clock_start_def statuses_marks\<close>)
next
  case False
  let ?a = "a\<lparr>current_stage_idx := Suc (current_stage_idx a), stage_actions_fired := [], is_completed := True\<rparr>"
  have "length (rep_stages (report a)) \<le> current_stage_idx ?a"
    using chain_inv_length [OF assms] False by simp
  then obtain r where r: "mark_report_completed w ReportCompleted ?a = ?a\<lparr>report := r\<rparr>" "statuses r = statuses (report a)"
    using complete_past_end [of ?a w ReportCompleted] by auto
  have "map (expected_status (Suc (current_stage_idx a))) [0..<length ss] = map (expected_status (current_stage_idx a)) [0..<length ss]"
    using False by (auto simp: expected_status_def)
  with assms False r show ?thesis
    by (simp add: advance_kill_chain_def chain_inv_def Let_def)
qed

lemma fresh_statuses: "statuses r = replicate n Pending \<Longrightarrow> statuses (mark_stage_started w 0 r) = map (expected_status 0) [0..<n]"
proof -
  assume r: "statuses r = replicate n Pending"
  have "(if 0 < n then (replicate n Pending)[0 := InProgress] else replicate n Pending) = map (expected_status 0) [0..<n]"
    by (rule nth_equalityI) (auto simp: expected_status_def nth_list_update)
  with r show ?thesis by (auto simp: statuses_marks split: if_splits)
qed

lemma restart_inv:
  assumes "stages a = ss" and "is_active a" and "\<not> is_completed a" and "current_stage_idx a = 0" and "stages_completed a = 0"
    and "statuses (report a) = replicate (length ss) Pending"
    and "case pending_command a of Some c \<Rightarrow> no_stop c | None \<Rightarrow> True"
  shows "chain_inv ss (mark_report_started w a)"
  using assms fresh_statuses [of "(report a)\<lparr>rep_started_at := tod w, rep_status := ReportInProgress\<rparr>" "length ss" w]
    fresh_statuses [of "(report a)\<lparr>rep_status := ReportInProgress\<rparr>" "length ss" w]
  by (simp add: chain_inv_def mark_report_started_def Let_def)

lemma command_inv:
  assumes "chain_inv ss a" and "no_stop c" and "pending_command a = None"
  shows "chain_inv ss (run_command w c a)"
proof -
  have restart: "chain_inv ss (mark_report_started w (mark_stage_clock_start w
      (a\<lparr>is_completed := False, current_stage_idx := 0, stages_completed := 0, actions_completed := 0,
         packets_generated := 0\<rparr>)\<lparr>stage_actions_fired := [], report := reset_report (report a)\<rparr>))"
    by (rule restart_inv)
      (use assms chain_inv_length [OF assms(1)] in
        \<open>simp_all add: chain_inv_def mark_stage_clock_start_def statuses_marks length_statuses\<close>)
  have "is_active a" using assms(1) by (simp add: chain_inv_def)
  moreover have "chain_inv ss (a\<lparr>is_paused := x\<rparr>)" for x
    using assms(1) by (simp add: chain_inv_def)
  ultimately show ?thesis
    using assms(1,2) restart advance_inv [OF assms(1)]
    by (auto simp: run_command_def no_stop_def Let_def mark_stage_clock_start_def)
qed

lemma pending_inv: "chain_inv ss a \<Longrightarrow> chain_inv ss (process_pending_command w a)"
proof (cases "pending_command a")
  case (Some c)
  assume inv: "chain_inv ss a"
  then have "chain_inv ss (a\<lparr>pending_command := None\<rparr>)" "no_stop c"
    using Some by (simp_all add: chain_inv_def)
  then show ?thesis
    using Some command_inv by (simp add: process_pending_command_def)
qed (simp add: process_pending_command_def)

lemma generate_inv: "generate_stage_packets e w t s a = (a', pkts) \<Longrightarrow> chain_inv ss a' = chain_inv ss a"
  by (simp add: generate_stage_packets_def Let_def fire_actions_inv)

lemma check_inv:
  assumes "check_wall_time_advancement w t a = (a', new)" and "chain_inv ss a"
  shows "chain_inv ss a'"
  using assms advance_inv [of ss "a\<lparr>attack_time_ms := t\<rparr>" w]
  by (auto simp: check_wall_time_advancement_def Let_def chain_inv_fields split: if_splits)

lemma tick_inv:
  assumes "handle_attack_tick e w t a = (a', new, pkts)" and "chain_inv ss a"
  shows "chain_inv ss a'"
proof -
  let ?b = "process_pending_command w (a\<lparr>attack_time_ms := t\<rparr>)"
  have b: "chain_inv ss ?b"
    using assms(2) by (simp add: pending_inv chain_inv_fields)
  note adv = advance_inv [OF b, of w]
  have gen: "chain_inv ss c" if "generate_stage_packets e w t s d = (c, p)" "chain_inv ss d" for s c p d
    using generate_inv [OF that(1), of ss] that(2) by simp
  have finished: "chain_inv ss (mark_report_completed w ReportCompleted (?b\<lparr>is_completed := True\<rparr>))"
    if "length (stages ?b) \<le> current_stage_idx ?b"
  proof -
    have "length (rep_stages (report (?b\<lparr>is_completed := True\<rparr>))) \<le> current_stage_idx (?b\<lparr>is_completed := True\<rparr>)"
      using chain_inv_length [OF b] b that by (simp add: chain_inv_def)
    from complete_past_end [OF this, of w ReportCompleted] b that show ?thesis
      by (auto simp: chain_inv_def)
  qed
  show ?thesis
    using assms(1) b adv finished gen
    by (auto simp: handle_attack_tick_def Let_def split: if_splits prod.splits)
qed

lemma chain_step:
  assumes "atk_step ok s pkts s'" and "\<And>c. ok c \<Longrightarrow> no_stop c" and "chain_inv ss (fst s)"
  shows "chain_inv ss (fst s')"
  using assms
proof cases
  case (command c a ts)
  with assms(2,3) show ?thesis by (simp add: set_pending_command_def chain_inv_def)
next
  case (check w t a a' new ts)
  with check_inv assms(3) show ?thesis by simp
next
  case (tick t ts e w a a' new)
  with tick_inv assms(3) show ?thesis by simp
qed

lemma chain_run:
  assumes "atk_run no_stop s pkts s'" and "chain_inv ss (fst s)"
  shows "chain_inv ss (fst s')"
  using assms by induction (auto dest: chain_step)

lemma fit_window_eq: "\<exists>e. fit_window t a = a\<lparr>effective_stage_s := e\<rparr>"
proof -
  have "\<exists>e. apply_time_compression x a = a\<lparr>effective_stage_s := e\<rparr>" for x
    by (auto simp: apply_time_compression_def Let_def intro: exI [of _ "effective_stage_s a"])
  then show ?thesis
    by (auto simp: fit_window_def intro: exI [of _ "effective_stage_s a"] split: option.split)
qed

lemma initial_inv:
  assumes "new_attack ps ov auto False ci tg ip = Inr a"
    and "schedule_initial_events w t (set_virtual_time_mode v d a) = (a0, new)"
  shows "chain_inv (stages a) a0"
proof -
  have fresh: "statuses (report a) = replicate (length (stages a)) Pending"
    using assms(1)
    by (auto simp: new_attack_def res_simps statuses_def new_report_def stage_reported_def map_replicate_const comp_def)
  have a: "\<not> is_completed a" "current_stage_idx a = 0" "stages_completed a = 0" "pending_command a = None" "\<not> start_manual a"
    using assms(1) by (auto simp: new_attack_def res_simps)
  let ?b = "set_virtual_time_mode v d a\<lparr>is_active := True, attack_time_ms := t, stage_start_ms := t, stage_start_monotonic := mono w\<rparr>"
  obtain e where "fit_window t ?b = ?b\<lparr>effective_stage_s := e\<rparr>"
    using fit_window_eq by blast
  then have "a0 = mark_report_started w (?b\<lparr>effective_stage_s := e\<rparr>)"
    using assms(2) a(5) by (simp add: schedule_initial_events_def set_virtual_time_mode_def)
  then show ?thesis
    using restart_inv [of "?b\<lparr>effective_stage_s := e\<rparr>" "stages a" w] fresh a
    by (simp add: set_virtual_time_mode_def)
qed

section \<open>Firing once\<close>

definition open_actions :: "kill_stage \<Rightarrow> attack \<Rightarrow> nat" where
  "open_actions s a = length (filter (\<lambda>x. fired_key s x \<notin> set (stage_actions_fired a)) (stage_actions s))"

lemma fire_fired: "set (stage_actions_fired (fst (fire e w t s i act a))) = insert (fired_key s act) (set (stage_actions_fired a))"
  by (simp add: fire_def Let_def split: option.split sum.split)

lemma fire_completed: "actions_completed (fst (fire e w t s i act a)) \<le> actions_completed a + 1"
  by (simp add: fire_def Let_def split: option.split sum.split)

lemma filter_length_less:
  "(\<And>x. Q x \<Longrightarrow> P x) \<Longrightarrow> y \<in> set xs \<Longrightarrow> P y \<Longrightarrow> \<not> Q y \<Longrightarrow> length (filter Q xs) < length (filter P xs)"
proof (induction xs)
  case (Cons x xs)
  have le: "length (filter Q xs) \<le> length (filter P xs)"
    using Cons.prems(1) by (induction xs) auto
  with Cons show ?case by (cases "y = x") (auto simp: less_Suc_eq_le)
qed simp

lemma fire_opens:
  assumes "due pr s act a" and "act \<in> set (stage_actions s)"
  shows "open_actions s (fst (fire e w t s i act a)) < open_actions s a"
  unfolding open_actions_def fire_fired
  by (rule filter_length_less [of _ _ act]) (use assms in \<open>auto simp: due_def\<close>)

lemma fire_actions_bound:
  assumes "fire_actions e w t pr s i acts a = (a', pkts)" and "set acts \<subseteq> set (stage_actions s)"
  shows "actions_completed a' + int (open_actions s a') \<le> actions_completed a + int (open_actions s a)"
  using assms
proof (induction acts arbitrary: i a pkts)
  case (Cons act acts)
  obtain b p where b: "(if due pr s act a then fire e w t s i act a else (a, [])) = (b, p)"
    by (cases "if due pr s act a then fire e w t s i act a else (a, [])")
  obtain q where q: "fire_actions e w t pr s (i + 1) acts b = (a', q)"
    using Cons.prems(1) b by (auto split: prod.splits)
  have "actions_completed b + int (open_actions s b) \<le> actions_completed a + int (open_actions s a)"
  proof (cases "due pr s act a")
    case True
    then have b': "b = fst (fire e w t s i act a)" using b by simp
    have "open_actions s b < open_actions s a"
      unfolding b' by (rule fire_opens [OF True]) (use Cons.prems(2) in simp)
    with fire_completed [of e w t s i act a] b' show ?thesis by simp
  qed (use b in simp)
  moreover note Cons.IH [OF q(1)]
  ultimately show ?case using Cons.prems(2) by simp
qed simp

text \<open>
  The packets of one action are told apart by a predicate: the generator calls for the action at
  position \<open>i\<close> give at most \<open>c\<close> packets that satisfy \<open>Q\<close>, those for the other actions none.
\<close>

definition packets_of :: "('p \<Rightarrow> bool) \<Rightarrow> (pyfloat \<times> 'p) list \<Rightarrow> nat" where
  "packets_of Q pkts = length (filter (\<lambda>(_, p). Q p) pkts)"

lemma packets_of_append [simp]: "packets_of Q (xs @ ys) = packets_of Q xs + packets_of Q ys" "packets_of Q [] = 0"
  by (simp_all add: packets_of_def)

definition marks :: "nat \<Rightarrow> ('p \<Rightarrow> bool) \<Rightarrow> nat \<Rightarrow> 'p env \<Rightarrow> bool" where
  "marks i Q c e \<longleftrightarrow> (\<forall>k ty g params ts ip t pkts. generator e k ty = Some g \<and> g params ts ip t = Inr pkts \<longrightarrow>
     packets_of Q pkts \<le> (if k = i then c else 0))"

definition still_due :: "nat \<Rightarrow> kill_stage \<Rightarrow> nat \<Rightarrow> attack \<Rightarrow> nat" where
  "still_due c s i a = (if fired_key s (stage_actions s ! i) \<in> set (stage_actions_fired a) then 0 else c)"

lemma fire_marked: "marks i Q c e \<Longrightarrow> packets_of Q (snd (fire e w t s k act a)) \<le> (if k = i then c else 0)"
proof -
  assume m: "marks i Q c e"
  define n where "n = (if k = i then c else 0)"
  have "packets_of Q pkts \<le> n" if "generator e k ty = Some g" and "g params ts ip t' = Inr pkts" for ty g params ts ip t' pkts
    using m that unfolding marks_def n_def by blast
  then have "packets_of Q (snd (fire e w t s k act a)) \<le> n"
    by (simp add: fire_def Let_def split: option.split sum.split)
  then show ?thesis by (simp add: n_def)
qed

lemma fire_still_due:
  assumes "marks i Q c e" and "due pr s (stage_actions s ! k) a"
  shows "packets_of Q (snd (fire e w t s k (stage_actions s ! k) a)) + still_due c s i (fst (fire e w t s k (stage_actions s ! k) a))
    \<le> still_due c s i a"
proof (cases "k = i")
  case True
  then have "still_due c s i a = c" "still_due c s i (fst (fire e w t s k (stage_actions s ! k) a)) = 0"
    using assms(2) by (simp_all add: still_due_def due_def fire_fired)
  then show ?thesis using fire_marked [OF assms(1), of w t s k "stage_actions s ! k" a] True by simp
next
  case False
  then have "packets_of Q (snd (fire e w t s k (stage_actions s ! k) a)) = 0"
    using fire_marked [OF assms(1), of w t s k "stage_actions s ! k" a] by simp
  then show ?thesis by (simp add: still_due_def fire_fired)
qed

lemma fire_actions_marked:
  assumes "fire_actions e w t pr s k acts a = (a', pkts)" and "acts = drop k (stage_actions s)" and "marks i Q c e"
  shows "packets_of Q pkts + still_due c s i a' \<le> still_due c s i a"
  using assms(1,2)
proof (induction acts arbitrary: k a pkts)
  case (Cons act acts)
  have act: "act = stage_actions s ! k" "acts = drop (k + 1) (stage_actions s)"
    using Cons.prems(2) by (metis nth_via_drop, metis drop_Suc list.sel(3) Suc_eq_plus1 tl_drop)
  obtain b p where b: "(if due pr s act a then fire e w t s k act a else (a, [])) = (b, p)"
    by (cases "if due pr s act a then fire e w t s k act a else (a, [])")
  obtain q where q: "fire_actions e w t pr s (k + 1) acts b = (a', q)" "pkts = p @ q"
    using Cons.prems(1) b by (auto split: prod.splits)
  have "packets_of Q p + still_due c s i b \<le> still_due c s i a"
    using fire_still_due [OF assms(3), of pr s k a w t] b by (cases "due pr s act a") (simp_all add: act)
  with Cons.IH [OF q(1) act(2)] q(2) show ?case by simp
qed simp

text \<open>The ticks that come while one stage is current, with the time of each.\<close>

fun stage_ticks :: "('p env \<times> wall \<times> pyfloat) list \<Rightarrow> kill_stage \<Rightarrow> attack \<Rightarrow> attack \<times> (pyfloat \<times> 'p) list" where
  "stage_ticks [] s a = (a, [])"
| "stage_ticks ((e, w, t) # calls) s a =
     (let (a, pkts) = generate_stage_packets e w t s (a\<lparr>attack_time_ms := t\<rparr>);
          (a, rest) = stage_ticks calls s a
      in (a, pkts @ rest))"

lemma stage_ticks_Cons:
  assumes "stage_ticks ((e, w, t) # calls) s a = (a', pkts)"
  obtains b p q pr where "stage_ticks calls s b = (a', q)" "pkts = p @ q"
    "fire_actions e w t pr s 0 (stage_actions s) (a\<lparr>attack_time_ms := t\<rparr>) = (b, p)"
proof -
  obtain b p where b: "generate_stage_packets e w t s (a\<lparr>attack_time_ms := t\<rparr>) = (b, p)"
    by (cases "generate_stage_packets e w t s (a\<lparr>attack_time_ms := t\<rparr>)")
  moreover obtain q where "stage_ticks calls s b = (a', q)" "pkts = p @ q"
    using assms b by (auto split: prod.splits)
  ultimately show ?thesis using that by (simp add: generate_stage_packets_def Let_def)
qed

lemma stage_ticks_bound:
  "stage_ticks calls s a = (a', pkts) \<Longrightarrow> actions_completed a' + int (open_actions s a') \<le> actions_completed a + int (open_actions s a)"
proof (induction calls arbitrary: a pkts)
  case (Cons call calls)
  obtain e w t where call: "call = (e, w, t)" by (cases call)
  obtain b p q pr where x: "stage_ticks calls s b = (a', q)" "pkts = p @ q"
      "fire_actions e w t pr s 0 (stage_actions s) (a\<lparr>attack_time_ms := t\<rparr>) = (b, p)"
    by (rule stage_ticks_Cons [OF Cons.prems [unfolded call]])
  show ?case using fire_actions_bound [OF x(3)] Cons.IH [OF x(1)] by (simp add: open_actions_def)
qed simp

lemma stage_ticks_marked:
  "stage_ticks calls s a = (a', pkts) \<Longrightarrow> list_all (\<lambda>call. marks i Q c (fst call)) calls \<Longrightarrow>
   packets_of Q pkts + still_due c s i a' \<le> still_due c s i a"
proof (induction calls arbitrary: a pkts)
  case (Cons call calls)
  obtain e w t where call: "call = (e, w, t)" by (cases call)
  obtain b p q pr where x: "stage_ticks calls s b = (a', q)" "pkts = p @ q"
      "fire_actions e w t pr s 0 (stage_actions s) (a\<lparr>attack_time_ms := t\<rparr>) = (b, p)"
    by (rule stage_ticks_Cons [OF Cons.prems(1) [unfolded call]])
  have "marks i Q c e" using Cons.prems(2) call by simp
  then have "packets_of Q p + still_due c s i b \<le> still_due c s i (a\<lparr>attack_time_ms := t\<rparr>)"
    by (intro fire_actions_marked [OF x(3)]) simp_all
  moreover have "still_due c s i (a\<lparr>attack_time_ms := t\<rparr>) = still_due c s i a" by (simp add: still_due_def)
  moreover have "packets_of Q q + still_due c s i a' \<le> still_due c s i b"
    using Cons.IH [OF x(1)] Cons.prems(2) by simp
  ultimately show ?case using x(2) by simp
qed simp

section \<open>Properties\<close>

text \<open>
  C16: without a pending tick an attack is dead. Once no tick is queued and the attack is not
  running (a playbook in manual mode, for which none is ever scheduled, or one that is completed
  or stopped), no sequence of commands and checks of the main loop changes anything but the
  pending command, schedules a tick or emits a packet: a start command is never carried out.
\<close>

theorem attack_dead_without_tick:
  assumes "atk_run ok (a, mset ticks) pkts (a', ts)"
    and "ticks = [] \<and> is_completed a
      \<or> (\<exists>b w t. start_manual b \<and> \<not> is_active b \<and> schedule_initial_events w t b = (a, ticks))"
  shows "ts = {#} \<and> pkts = [] \<and> a' = a\<lparr>pending_command := pending_command a'\<rparr>"
proof -
  have "ticks = []" "dead a"
    using assms(2) by (auto simp: schedule_initial_events_def dead_def)
  then have run: "snd (a', ts) = {#} \<and> pkts = [] \<and> dead (fst (a', ts))
      \<and> (fst (a', ts))\<lparr>pending_command := pending_command a\<rparr> = a"
    using dead_run [OF assms(1)] by simp
  then have "a = a'\<lparr>pending_command := pending_command a\<rparr>" by simp
  then have "a\<lparr>pending_command := pending_command a'\<rparr> = a'"
    by (metis attack.surjective attack.update_convs(20))
  with run show ?thesis by simp
qed

text \<open>
  C14: the report follows the kill chain. As long as no stop command comes, in every state that a
  started playbook reaches, by ticks, checks of the main loop, pauses, advances and restarts in
  any order and at any times, the stages before the current one are reported as completed, the
  current one as in progress and the later ones as pending, the counter of completed stages
  agrees, and the playbook is completed exactly when no stage is left.
\<close>

theorem kill_chain_reported:
  assumes "new_attack ps ov auto False ci tg ip = Inr a"
    and "schedule_initial_events w t (set_virtual_time_mode v d a) = (a0, ticks)"
    and "atk_run no_stop (a0, mset ticks) pkts (a', ts)"
  shows "stages a' = stages a \<and> is_active a'
    \<and> statuses (report a') = map (expected_status (current_stage_idx a')) [0..<length (stages a)]
    \<and> stages_completed a' = int (min (current_stage_idx a') (length (stages a)))
    \<and> (stages a = [] \<or> (is_completed a' \<longleftrightarrow> length (stages a) \<le> current_stage_idx a'))"
  using chain_run [OF assms(3)] initial_inv [OF assms(1,2)] by (auto simp: chain_inv_def)

text \<open>
  C15: a repeat count has no effect. However many ticks come while a stage is current, whenever
  they come and whatever the random draws, every single action of the stage is carried out at most
  once, also one that asks for repetitions: if one call of the generator for the action at position
  \<open>i\<close> gives at most \<open>c\<close> packets of a kind that no other action sends, the stage emits at most \<open>c\<close> of
  them; and the number of completed actions grows by at most the number of actions.
\<close>

theorem stage_fires_once:
  assumes "stage_ticks calls s a = (a', pkts)" and "i < length (stage_actions s)"
    and "list_all (\<lambda>call. marks i Q c (fst call)) calls"
  shows "packets_of Q pkts \<le> c
    \<and> actions_completed a' \<le> actions_completed a + int (length (stage_actions s))"
proof -
  have "open_actions s a \<le> length (stage_actions s)" by (simp add: open_actions_def)
  moreover have "still_due c s i a \<le> c" by (simp add: still_due_def)
  ultimately show ?thesis using stage_ticks_bound [OF assms(1)] stage_ticks_marked [OF assms(1,3)] by linarith
qed

section \<open>A playbook with two stages\<close>

definition demo_action :: attack_action where
  "demo_action = \<lparr>act_id = ''scan'', act_name = ''Scan'', act_type = ''network_scan'', act_params = [],
     target_selector = ''any'', mitre_technique = ''T0846'', act_description = [], expected_cv_detection = [],
     repeat_count = 5, repeat_interval_ms = 1000, delay_after_ms = 0\<rparr>"

definition demo_stages :: "kill_stage list" where
  "demo_stages =
     [\<lparr>stage_id = ''recon'', duration_seconds = 300, stage_actions = [demo_action], mitre_tactics = []\<rparr>,
      \<lparr>stage_id = ''impact'', duration_seconds = 300, stage_actions = [], mitre_tactics = []\<rparr>]"

definition demo_target :: target_info where
  "demo_target = \<lparr>tg_device_id = ''d'', tg_ip = ''10.0.0.1'', tg_mac = [], tg_type = ''plc''\<rparr>"

definition demo_env :: "nat env" where
  "demo_env = \<lparr>generator = (\<lambda>i ty. Some (\<lambda>params ts ip t. Inr [(t, 7)])), sample_three = (\<lambda>i ts. take 3 ts)\<rparr>"

definition demo_wall :: wall where
  "demo_wall = \<lparr>mono = float_of_nat 0, tod = float_of_nat 1\<rparr>"

definition demo_attack :: "bool \<Rightarrow> attack" where
  "demo_attack manual =
     (case new_attack demo_stages [] True manual (float_of_nat 1) [demo_target] ''203.0.113.1'' of Inr a \<Rightarrow> a)"

lemma demo_attack: "new_attack demo_stages [] True manual (float_of_nat 1) [demo_target] ''203.0.113.1'' = Inr (demo_attack manual)"
  by (simp add: demo_attack_def new_attack_def demo_stages_def apply_override_def)

lemma demo_attack_fields [simp]:
  "start_manual (demo_attack manual) = manual" "\<not> is_active (demo_attack manual)" "stages (demo_attack manual) = demo_stages"
  "\<not> is_completed (demo_attack manual)" "stage_actions_fired (demo_attack manual) = []" "actions_completed (demo_attack manual) = 0"
  "total_duration_ms (demo_attack manual) = None" "current_stage_idx (demo_attack manual) = 0"
  by (simp_all add: demo_attack_def new_attack_def demo_stages_def apply_override_def)

theorem attack_dead_without_tick_witness:
  "\<exists>a'. atk_run (\<lambda>_. True) (demo_attack True, {#}) ([] :: (pyfloat \<times> nat) list) (a', {#})
     \<and> pending_command a' = Some [(''type'', PStr ''start'')] \<and> \<not> is_active a'"
proof -
  let ?c = "[(''type'', PStr ''start'')]" and ?a = "demo_attack True"
  have "atk_step (\<lambda>_. True) (?a, mset []) ([] :: (pyfloat \<times> nat) list) (set_pending_command ?c ?a, mset [])"
    by (rule atk_step.command) simp
  from atk_run.more [OF atk_run.nothing this]
  have run: "atk_run (\<lambda>_. True) (?a, mset []) ([] :: (pyfloat \<times> nat) list) (set_pending_command ?c ?a, mset [])"
    by simp
  have manual: "schedule_initial_events demo_wall (float_of_nat 0) ?a = (?a, [])"
    by (simp add: schedule_initial_events_def)
  have "\<exists>b w t. start_manual b \<and> \<not> is_active b \<and> schedule_initial_events w t b = (?a, [])"
    by (intro exI [of _ ?a] exI [of _ demo_wall] exI [of _ "float_of_nat 0"]) (simp only: manual demo_attack_fields simp_thms)
  then have "set_pending_command ?c ?a = ?a\<lparr>pending_command := pending_command (set_pending_command ?c ?a)\<rparr>"
    using attack_dead_without_tick [OF run] by simp
  then have "is_active (set_pending_command ?c ?a) = is_active (?a\<lparr>pending_command := pending_command (set_pending_command ?c ?a)\<rparr>)"
    by (rule arg_cong)
  then have "\<not> is_active (set_pending_command ?c ?a)" by simp
  with run show ?thesis
    by (intro exI [of _ "set_pending_command ?c ?a"]) (simp add: set_pending_command_def)
qed

text \<open>Two actions that ask for five repetitions; the packet of an action is its position.\<close>

definition demo_pair :: kill_stage where
  "demo_pair = \<lparr>stage_id = ''pair'', duration_seconds = 300, stage_actions = [demo_action, demo_action\<lparr>act_id := ''probe''\<rparr>], mitre_tactics = []\<rparr>"

definition demo_pair_env :: "nat env" where
  "demo_pair_env = \<lparr>generator = (\<lambda>i ty. Some (\<lambda>params ts ip t. Inr [(t, i)])), sample_three = (\<lambda>i ts. take 3 ts)\<rparr>"

theorem stage_fires_once_witness:
  "packets_of (\<lambda>p. p = 1) (snd (stage_ticks (replicate 9 (demo_pair_env, demo_wall, float_of_nat 5)) demo_pair (demo_attack False))) \<le> 1"
proof -
  let ?calls = "replicate 9 (demo_pair_env, demo_wall, float_of_nat 5)"
  have "marks 1 (\<lambda>p. p = 1) 1 demo_pair_env" by (auto simp: marks_def demo_pair_env_def packets_of_def)
  then have m: "list_all (\<lambda>call. marks 1 (\<lambda>p. p = 1) 1 (fst call)) ?calls" by (simp add: list_all_iff)
  have n: "1 < length (stage_actions demo_pair)" by (simp add: demo_pair_def)
  show ?thesis using stage_fires_once [OF surjective_pairing n m, of "demo_attack False"] by simp
qed

lemma demo_started:
  obtains a0 where "schedule_initial_events demo_wall (float_of_nat 500) (set_virtual_time_mode False None (demo_attack False))
      = (a0, [float_of_nat 500])"
  by (auto simp: schedule_initial_events_def set_virtual_time_mode_def)

theorem kill_chain_reported_witness:
  "\<exists>a'. atk_run no_stop (fst (schedule_initial_events demo_wall (float_of_nat 500) (set_virtual_time_mode False None (demo_attack False))),
        {#float_of_nat 500#}) ([] :: (pyfloat \<times> nat) list) (a', {#float_of_nat 500#})
     \<and> statuses (report a') = [InProgress, Pending]"
proof -
  obtain a0 where a0: "schedule_initial_events demo_wall (float_of_nat 500) (set_virtual_time_mode False None (demo_attack False))
      = (a0, [float_of_nat 500])"
    by (rule demo_started)
  let ?c = "[(''type'', PStr ''pause'')]"
  have "atk_step no_stop (a0, mset [float_of_nat 500]) ([] :: (pyfloat \<times> nat) list) (set_pending_command ?c a0, mset [float_of_nat 500])"
    by (rule atk_step.command) (simp add: no_stop_def pd_get_def)
  from atk_run.more [OF atk_run.nothing this]
  have run: "atk_run no_stop (a0, mset [float_of_nat 500]) ([] :: (pyfloat \<times> nat) list) (set_pending_command ?c a0, mset [float_of_nat 500])"
    by simp
  have "current_stage_idx (set_pending_command ?c a0) = 0"
    using a0 by (auto simp: schedule_initial_events_def set_virtual_time_mode_def set_pending_command_def mark_report_started_def
        fit_window_def Let_def)
  then have "statuses (report (set_pending_command ?c a0)) = [InProgress, Pending]"
    using kill_chain_reported [OF demo_attack a0 run] by (simp add: demo_stages_def expected_status_def)
  with run a0 show ?thesis by auto
qed

end
