(* ===== verification/Coordinator.thy ===== *)
theory Coordinator
  imports FloatOps PyValue
begin

text \<open>
  \<open>backend/app/traffic_generator/flow_coordinator.py\<close>: dependencies between flows, the events of
  the flows, the decision whether a flow may run, and the check for circular dependencies.

  A dict is an association list; the order in which a set is iterated is an argument.  The draws
  of \<open>random.uniform\<close> are the fields of \<open>jitter_draws\<close>, by the position of the dependency.
  Objects are values: the caller's list of dependencies is not updated with the coordinator's.
\<close>

section \<open>Dependencies and events\<close>

datatype dependency_type = TRIGGER | DELAY_AFTER | SYNC_WITH | CASCADE

record flow_dependency =
  source_flow_id :: string
  target_flow_id :: string
  dep_type :: dependency_type
  delay_ms :: pyfloat
  jitter_ms :: pyfloat
  dep_priority :: int
  dep_condition :: "string option"

record flow_event =
  event_flow :: string
  event_time_ms :: pyfloat
  flow_event_type :: string
  event_metadata :: pydict

record coordinator =
  dependencies :: "flow_dependency list"
  flow_events :: "(string \<times> flow_event) list"
  event_history :: "flow_event list"
  dependency_map :: "(string \<times> flow_dependency list) list"
  source_map :: "(string \<times> flow_dependency list) list"

definition deps_at :: "(string \<times> flow_dependency list) list \<Rightarrow> string \<Rightarrow> flow_dependency list" where
  "deps_at m k = (case map_of m k of Some ds \<Rightarrow> ds | None \<Rightarrow> [])"

definition map_append :: "string \<Rightarrow> flow_dependency \<Rightarrow> (string \<times> flow_dependency list) list \<Rightarrow> (string \<times> flow_dependency list) list" where
  "map_append k d m =
     (let m = (if map_of m k = None then dset k [] m else m)
      in dset k (deps_at m k @ [d]) m)"

definition add_to_maps :: "flow_dependency \<Rightarrow> coordinator \<Rightarrow> coordinator" where
  "add_to_maps d c = c\<lparr>dependency_map := map_append (target_flow_id d) d (dependency_map c),
                       source_map := map_append (source_flow_id d) d (source_map c)\<rparr>"

definition new_coordinator :: "flow_dependency list \<Rightarrow> coordinator" where
  "new_coordinator ds =
     foldl (\<lambda>c d. add_to_maps d c)
       \<lparr>dependencies = ds, flow_events = [], event_history = [], dependency_map = [], source_map = []\<rparr> ds"

definition add_dependency :: "flow_dependency \<Rightarrow> coordinator \<Rightarrow> coordinator" where
  "add_dependency d c = add_to_maps d (c\<lparr>dependencies := dependencies c @ [d]\<rparr>)"

definition map_remove :: "string \<Rightarrow> flow_dependency \<Rightarrow> (string \<times> flow_dependency list) list \<Rightarrow> (string \<times> flow_dependency list) list" where
  "map_remove k d m = (if d \<in> set (deps_at m k) then dset k (remove1 d (deps_at m k)) m else m)"

definition remove_dependency :: "string \<Rightarrow> string \<Rightarrow> coordinator \<Rightarrow> bool \<times> coordinator" where
  "remove_dependency source target c =
     (case find (\<lambda>d. source_flow_id d = source \<and> target_flow_id d = target) (dependencies c) of
        None \<Rightarrow> (False, c)
      | Some d \<Rightarrow>
          (True, c\<lparr>dependencies := remove1 d (dependencies c),
                   dependency_map := map_remove target d (dependency_map c),
                   source_map := map_remove source d (source_map c)\<rparr>))"

definition get_dependencies_for_target :: "coordinator \<Rightarrow> string \<Rightarrow> flow_dependency list" where
  "get_dependencies_for_target c flow_id = deps_at (dependency_map c) flow_id"

definition get_dependents_of_source :: "coordinator \<Rightarrow> string \<Rightarrow> flow_dependency list" where
  "get_dependents_of_source c flow_id = deps_at (source_map c) flow_id"

definition record_event :: "string \<Rightarrow> pyfloat \<Rightarrow> string \<Rightarrow> pydict \<Rightarrow> coordinator \<Rightarrow> coordinator" where
  "record_event flow_id t ty metadata c =
     (let event = \<lparr>event_flow = flow_id, event_time_ms = t, flow_event_type = ty, event_metadata = metadata\<rparr>
      in c\<lparr>flow_events := dset flow_id event (flow_events c), event_history := event_history c @ [event]\<rparr>)"

definition get_last_event :: "coordinator \<Rightarrow> string \<Rightarrow> flow_event option" where
  "get_last_event c flow_id = map_of (flow_events c) flow_id"

definition clear_history :: "coordinator \<Rightarrow> coordinator" where
  "clear_history c = c\<lparr>event_history := []\<rparr>"

definition reset_coordinator :: "coordinator \<Rightarrow> coordinator" where
  "reset_coordinator c = c\<lparr>flow_events := [], event_history := []\<rparr>"

section \<open>Whether a flow may run\<close>

record jitter_draws =
  trigger_draw :: "nat \<Rightarrow> pyfloat"
  delay_draw :: "nat \<Rightarrow> pyfloat"

definition uniform :: "pyfloat \<Rightarrow> pyfloat \<Rightarrow> pyfloat \<Rightarrow> pyfloat" where
  "uniform a b r = fadd a (fmul (fsub b a) r)"

definition trigger_time :: "pyfloat \<Rightarrow> flow_dependency \<Rightarrow> flow_event \<Rightarrow> pyfloat" where
  "trigger_time r d e =
     (let t = fadd (event_time_ms e) (delay_ms d)
      in if float_of_nat 0 < jitter_ms d
         then fadd t (uniform (fquot (fneg (jitter_ms d)) (float_of_nat 2)) (fquot (jitter_ms d) (float_of_nat 2)) r)
         else t)"

definition with_jitter :: "pyfloat \<Rightarrow> flow_dependency \<Rightarrow> pyfloat \<Rightarrow> pyfloat" where
  "with_jitter r d delay =
     (if float_of_nat 0 < jitter_ms d then fadd delay (uniform (float_of_nat 0) (jitter_ms d) r) else delay)"

definition suggested_delay :: "pyfloat \<Rightarrow> pyfloat \<Rightarrow> pyfloat \<Rightarrow> flow_dependency \<Rightarrow> pyfloat res" where
  "suggested_delay r current_time_ms t d =
     (case dep_type d of
        TRIGGER \<Rightarrow> Inr (with_jitter r d (py_max (float_of_nat 0) (fadd (fsub t current_time_ms) (delay_ms d))))
      | DELAY_AFTER \<Rightarrow> Inr (fadd (delay_ms d) (uniform (float_of_nat 0) (jitter_ms d) r))
      | SYNC_WITH \<Rightarrow> Inr (delay_ms d)
      | CASCADE \<Rightarrow> bnd (float_of_int (dep_priority d)) (\<lambda>p. Inr (with_jitter r d (fmul (delay_ms d) p))))"

fun check_dependencies ::
    "coordinator \<Rightarrow> jitter_draws \<Rightarrow> pyfloat \<Rightarrow> nat \<Rightarrow> flow_dependency list \<Rightarrow> (bool \<times> pyfloat option) res" where
  "check_dependencies c r current_time_ms i [] = Inr (False, None)"
| "check_dependencies c r current_time_ms i (d # ds) =
     (case get_last_event c (source_flow_id d) of
        None \<Rightarrow>
          if dep_type d = TRIGGER then Inr (False, None)
          else check_dependencies c r current_time_ms (i + 1) ds
      | Some e \<Rightarrow>
          let t = trigger_time (trigger_draw r i) d e
          in if t \<le> current_time_ms
             then bnd (suggested_delay (delay_draw r i) current_time_ms t d) (\<lambda>delay. Inr (True, Some delay))
             else check_dependencies c r current_time_ms (i + 1) ds)"

definition should_trigger :: "coordinator \<Rightarrow> jitter_draws \<Rightarrow> string \<Rightarrow> pyfloat \<Rightarrow> (bool \<times> pyfloat option) res" where
  "should_trigger c r flow_id current_time_ms =
     (let ds = get_dependencies_for_target c flow_id
      in if ds = [] then Inr (True, None) else check_dependencies c r current_time_ms 0 ds)"

text \<open>The stable sort by delay; delays are not NaN.\<close>

fun insert_by_delay :: "string \<times> pyfloat \<Rightarrow> (string \<times> pyfloat) list \<Rightarrow> (string \<times> pyfloat) list" where
  "insert_by_delay x [] = [x]"
| "insert_by_delay x (y # ys) = (if snd y < snd x then y # insert_by_delay x ys else x # y # ys)"

fun collect_triggers ::
    "coordinator \<Rightarrow> (nat \<Rightarrow> jitter_draws) \<Rightarrow> pyfloat \<Rightarrow> nat \<Rightarrow> string list \<Rightarrow> (string \<times> pyfloat) list res" where
  "collect_triggers c r current_time_ms i [] = Inr []"
| "collect_triggers c r current_time_ms i (f # fs) =
     bnd (should_trigger c (r i) f current_time_ms) (\<lambda>(go, delay).
     bnd (collect_triggers c r current_time_ms (i + 1) fs) (\<lambda>rest.
     Inr (if go
          then (f, case delay of Some x \<Rightarrow> (if float_truthy x then x else float_of_nat 0) | None \<Rightarrow> float_of_nat 0) # rest
          else rest)))"

definition get_next_triggers ::
    "coordinator \<Rightarrow> (nat \<Rightarrow> jitter_draws) \<Rightarrow> pyfloat \<Rightarrow> string list \<Rightarrow> (string \<times> pyfloat) list res" where
  "get_next_triggers c r current_time_ms flows_to_check =
     bnd (collect_triggers c r current_time_ms 0 flows_to_check) (\<lambda>ts. Inr (foldr insert_by_delay ts []))"

section \<open>Circular dependencies\<close>

record cycle_check =
  cycle_errors :: "string list"
  visited :: "string set"
  path :: "string set"

definition successors :: "(string \<times> flow_dependency list) list \<Rightarrow> string \<Rightarrow> string list" where
  "successors m v = map target_flow_id (deps_at m v)"

fun join_arrows :: "string list \<Rightarrow> string" where
  "join_arrows [] = []"
| "join_arrows [x] = x"
| "join_arrows (x # xs) = x @ '' -> '' @ join_arrows xs"

definition cycle_error :: "string \<Rightarrow> string list \<Rightarrow> string" where
  "cycle_error v path_list =
     ''Circular dependency detected: '' @ join_arrows (dropWhile (\<lambda>x. x \<noteq> v) path_list @ [v])"

definition enter :: "string \<Rightarrow> cycle_check \<Rightarrow> cycle_check" where
  "enter v s = s\<lparr>visited := insert v (visited s), path := insert v (path s)\<rparr>"

definition leave :: "string \<Rightarrow> cycle_check \<Rightarrow> cycle_check" where
  "leave v s = s\<lparr>path := path s - {v}\<rparr>"

lemma enter_leave_simps [simp]:
  "visited (enter v s) = insert v (visited s)" "path (enter v s) = insert v (path s)" "cycle_errors (enter v s) = cycle_errors s"
  "visited (leave v s) = visited s" "path (leave v s) = path s - {v}" "cycle_errors (leave v s) = cycle_errors s"
  by (simp_all add: enter_def leave_def)

text \<open>
  \<open>dfs_each m vs path_list s\<close> runs \<open>dfs(v, path_list)\<close> for the flows \<open>v\<close> of \<open>vs\<close> in turn and stops
  at the first that returns \<open>True\<close>; called with one flow it is \<open>dfs\<close>, called with the successors
  of a flow it is the loop in the body of \<open>dfs\<close>.
\<close>

function dfs_each ::
    "(string \<times> flow_dependency list) list \<Rightarrow> string list \<Rightarrow> string list \<Rightarrow> cycle_check \<Rightarrow> (bool \<times> cycle_check) res" where
  "dfs_each m [] path_list s = Inr (False, s)"
| "dfs_each m (v # vs) path_list s =
     (if v \<in> path s then
        if v \<in> set path_list then Inr (True, s\<lparr>cycle_errors := cycle_errors s @ [cycle_error v path_list]\<rparr>)
        else Inl ValueError
      else if v \<in> visited s then dfs_each m vs path_list s
      else
        case dfs_each m (successors m v) (path_list @ [v]) (enter v s) of
          Inl e \<Rightarrow> Inl e
        | Inr (True, s') \<Rightarrow> Inr (True, s')
        | Inr (False, s') \<Rightarrow>
            if v \<in> path s' then dfs_each m vs path_list (leave v s') else Inl KeyError)"
  by pat_completeness auto

definition nodes :: "(string \<times> flow_dependency list) list \<Rightarrow> string set" where
  "nodes m = fst ` set m \<union> target_flow_id ` (\<Union>(k, ds) \<in> set m. set ds)"

lemma finite_nodes [simp]: "finite (nodes m)"
  by (auto simp: nodes_def)

lemma successors_outside: "v \<notin> nodes m \<Longrightarrow> successors m v = []"
  by (auto simp: nodes_def successors_def deps_at_def split: option.split dest: map_of_SomeD)
    (force dest: map_of_SomeD)

lemma dfs_each_visited:
  "dfs_each_dom (m, vs, pl, s) \<Longrightarrow> dfs_each m vs pl s = Inr (b, s') \<Longrightarrow> visited s \<subseteq> visited s'"
proof (induction m vs pl s arbitrary: b s' rule: dfs_each.pinduct)
  case (2 m v vs pl s)
  note eq = 2(5) [unfolded dfs_each.psimps(2) [OF 2(1)]]
  show ?case
  proof (cases "v \<in> path s \<or> v \<in> visited s")
    case True
    then show ?thesis using eq 2(2) by (auto split: if_splits)
  next
    case False
    from False eq obtain b1 s1 where s1: "dfs_each m (successors m v) (pl @ [v]) (enter v s) = Inr (b1, s1)"
      by (auto split: sum.splits)
    then have "visited s \<subseteq> visited s1" using 2(3) False by fastforce
    moreover have "visited s1 \<subseteq> visited s'"
    proof (cases b1)
      case True
      then show ?thesis using eq False s1 by simp
    next
      case b1: False
      then have "v \<in> path s1" "dfs_each m vs pl (leave v s1) = Inr (b, s')"
        using eq False s1 by (simp_all split: if_splits)
      then show ?thesis using 2(4) [OF _ _ s1] False b1 by auto
    qed
    ultimately show ?thesis by simp
  qed
qed (simp add: dfs_each.psimps)

termination dfs_each
proof (relation "inv_image (finite_psubset <*lex*> less_than) (\<lambda>(m, vs, pl, s). (nodes m - visited s, length vs))", goal_cases)
  case 1
  show ?case by auto
next
  case (2 m v vs pl s)
  then show ?case by simp
next
  case (3 m v vs pl s)
  then show ?case
    by (cases "v \<in> nodes m") (auto simp: successors_outside finite_psubset_def)
next
  case (4 m v vs pl s x p s')
  then have "visited (enter v s) \<subseteq> visited s'"
    by (intro dfs_each_visited) auto
  then have "nodes m - visited s' \<subseteq> nodes m - visited s" by auto
  then show ?case by (auto simp: finite_psubset_def)
qed

fun check_roots :: "(string \<times> flow_dependency list) list \<Rightarrow> string list \<Rightarrow> cycle_check \<Rightarrow> cycle_check res" where
  "check_roots m [] s = Inr s"
| "check_roots m (source # sources) s = bnd (dfs_each m [source] [] s) (\<lambda>(_, s'). check_roots m sources s')"

text \<open>\<open>all_sources\<close> lists the keys of the source map in the order the set is iterated.\<close>

definition validate_no_cycles :: "coordinator \<Rightarrow> string list \<Rightarrow> string list res" where
  "validate_no_cycles c all_sources =
     bnd (check_roots (source_map c) all_sources \<lparr>cycle_errors = [], visited = {}, path = {}\<rparr>) (\<lambda>s. Inr (cycle_errors s))"

section \<open>Ready-made dependencies\<close>

definition cascade_link :: "string \<Rightarrow> string \<Rightarrow> pyfloat \<Rightarrow> pyfloat \<Rightarrow> nat \<Rightarrow> flow_dependency" where
  "cascade_link source target delay jitter i =
     \<lparr>source_flow_id = source, target_flow_id = target, dep_type = CASCADE, delay_ms = delay, jitter_ms = jitter,
      dep_priority = int i, dep_condition = None\<rparr>"

definition create_master_slave_chain :: "string \<Rightarrow> string list \<Rightarrow> pyfloat \<Rightarrow> pyfloat \<Rightarrow> flow_dependency list" where
  "create_master_slave_chain master slaves delay jitter =
     (if slaves = [] then [] else [cascade_link master (slaves ! 0) delay jitter 0])
     @ map (\<lambda>i. cascade_link (slaves ! (i - 1)) (slaves ! i) delay jitter i) [1..<length slaves]"

definition create_hmi_plc_dependency :: "string \<Rightarrow> string \<Rightarrow> pyfloat \<Rightarrow> pyfloat \<Rightarrow> flow_dependency" where
  "create_hmi_plc_dependency hmi plc delay jitter =
     \<lparr>source_flow_id = plc, target_flow_id = hmi, dep_type = DELAY_AFTER, delay_ms = delay, jitter_ms = jitter,
      dep_priority = 0, dep_condition = None\<rparr>"

definition create_redundant_sync :: "string \<Rightarrow> string \<Rightarrow> pyfloat \<Rightarrow> flow_dependency" where
  "create_redundant_sync primary backup delay =
     \<lparr>source_flow_id = primary, target_flow_id = backup, dep_type = SYNC_WITH, delay_ms = delay,
      jitter_ms = float_of_nat 0, dep_priority = 0, dep_condition = None\<rparr>"

definition create_alarm_trigger :: "string \<Rightarrow> string \<Rightarrow> pyfloat \<Rightarrow> string option \<Rightarrow> flow_dependency" where
  "create_alarm_trigger sensor alarm delay condition =
     \<lparr>source_flow_id = sensor, target_flow_id = alarm, dep_type = TRIGGER, delay_ms = delay,
      jitter_ms = float_of_nat 50, dep_priority = 0, dep_condition = condition\<rparr>"

section \<open>A run of the search\<close>

text \<open>What a call that does not raise does: the steps of the search as a relation.\<close>

inductive search ::
    "(string \<times> flow_dependency list) list \<Rightarrow> string list \<Rightarrow> string list \<Rightarrow> cycle_check \<Rightarrow> bool \<Rightarrow> cycle_check \<Rightarrow> bool"
  for m where
  finished: "search m [] pl s False s"
| cycle: "v \<in> path s \<Longrightarrow> v \<in> set pl \<Longrightarrow>
    search m (v # vs) pl s True (s\<lparr>cycle_errors := cycle_errors s @ [cycle_error v pl]\<rparr>)"
| known: "v \<notin> path s \<Longrightarrow> v \<in> visited s \<Longrightarrow> search m vs pl s b s' \<Longrightarrow> search m (v # vs) pl s b s'"
| found: "v \<notin> path s \<Longrightarrow> v \<notin> visited s \<Longrightarrow> search m (successors m v) (pl @ [v]) (enter v s) True s' \<Longrightarrow>
    search m (v # vs) pl s True s'"
| backtrack: "v \<notin> path s \<Longrightarrow> v \<notin> visited s \<Longrightarrow> search m (successors m v) (pl @ [v]) (enter v s) False s1 \<Longrightarrow>
    search m vs pl (leave v s1) b s' \<Longrightarrow> search m (v # vs) pl s b s'"

lemma dfs_each_search: "dfs_each m vs pl s = Inr (b, s') \<Longrightarrow> search m vs pl s b s'"
proof (induction m vs pl s arbitrary: b s' rule: dfs_each.induct)
  case (1 m pl s)
  then show ?case by (auto intro: search.finished)
next
  case (2 m v vs pl s)
  show ?case
  proof (cases "v \<in> path s \<or> v \<in> visited s")
    case True
    then show ?thesis using 2(1,4) by (auto intro: search.cycle search.known split: if_splits)
  next
    case False
    then obtain b1 s1 where s1: "dfs_each m (successors m v) (pl @ [v]) (enter v s) = Inr (b1, s1)"
      using 2(4) by (auto split: sum.splits)
    then have run: "search m (successors m v) (pl @ [v]) (enter v s) b1 s1"
      using 2(2) False by blast
    show ?thesis
    proof (cases b1)
      case True
      then show ?thesis using run s1 False 2(4) by (auto intro: search.found)
    next
      case b1: False
      then have "v \<in> path s1" "dfs_each m vs pl (leave v s1) = Inr (b, s')"
        using 2(4) False s1 by (simp_all split: if_splits)
      then have "search m vs pl (leave v s1) b s'"
        using 2(3) [OF _ _ s1] False b1 by auto
      then show ?thesis using run b1 False by (auto intro: search.backtrack)
    qed
  qed
qed

lemma search_frame:
  "search m vs pl s b s' \<Longrightarrow>
     visited s \<subseteq> visited s' \<and> path s \<subseteq> path s' \<and> (b \<longrightarrow> cycle_errors s' \<noteq> [])
     \<and> (\<not> b \<longrightarrow> path s' = path s \<and> cycle_errors s' = cycle_errors s \<and> set vs \<subseteq> visited s' - path s')"
  by (induction rule: search.induct) auto

text \<open>The only exception is that of \<open>path_list.index\<close>.\<close>

lemma dfs_each_raises: "dfs_each m vs pl s = Inl e \<Longrightarrow> e = ValueError"
proof (induction m vs pl s rule: dfs_each.induct)
  case (2 m v vs pl s)
  show ?case
  proof (cases "v \<in> path s \<or> v \<in> visited s")
    case True
    then show ?thesis using 2(1,4) by (auto split: if_splits)
  next
    case False
    show ?thesis
    proof (cases "dfs_each m (successors m v) (pl @ [v]) (enter v s)")
      case (Inl a)
      then show ?thesis using 2(2,4) False by simp
    next
      case (Inr r)
      then obtain s1 where s1: "dfs_each m (successors m v) (pl @ [v]) (enter v s) = Inr (False, s1)"
        using 2(4) False by (cases r; cases "fst r") auto
      then have "v \<in> path s1"
        using search_frame [OF dfs_each_search [OF s1]] by auto
      then show ?thesis
        using 2(3) [OF _ _ s1] 2(4) False s1 by auto
    qed
  qed
qed simp

section \<open>The graph of the dependencies\<close>

definition edges :: "(string \<times> flow_dependency list) list \<Rightarrow> (string \<times> string) set" where
  "edges m = {(v, w). w \<in> set (successors m v)}"

text \<open>The flows the search has left again: no cycle passes through them.\<close>

definition settled :: "(string \<times> flow_dependency list) list \<Rightarrow> cycle_check \<Rightarrow> bool" where
  "settled m s \<longleftrightarrow> path s \<subseteq> visited s \<and> edges m `` (visited s - path s) \<subseteq> visited s - path s
     \<and> (\<forall>x \<in> visited s - path s. (x, x) \<notin> (edges m)\<^sup>+)"

lemma closed_rtrancl: "(x, y) \<in> r\<^sup>* \<Longrightarrow> x \<in> A \<Longrightarrow> r `` A \<subseteq> A \<Longrightarrow> y \<in> A"
  by (induction rule: rtrancl_induct) auto

lemma settled_leave:
  assumes "settled m s" and "set (successors m v) \<subseteq> visited s - path s" and "v \<in> path s"
  shows "settled m (leave v s)"
proof -
  let ?A = "visited s - path s"
  have A: "edges m `` ?A \<subseteq> ?A" "\<forall>x \<in> ?A. (x, x) \<notin> (edges m)\<^sup>+" "path s \<subseteq> visited s"
    using assms(1) by (auto simp: settled_def)
  have new: "visited (leave v s) - path (leave v s) = insert v ?A"
    using A(3) assms(3) by auto
  have "(v, v) \<notin> (edges m)\<^sup>+"
  proof
    assume "(v, v) \<in> (edges m)\<^sup>+"
    then obtain w where w: "(v, w) \<in> edges m" "(w, v) \<in> (edges m)\<^sup>*"
      by (meson tranclD)
    then have "w \<in> ?A" using assms(2) by (auto simp: edges_def)
    then have "v \<in> ?A" by (rule closed_rtrancl [OF w(2) _ A(1)])
    with assms(3) show False by simp
  qed
  moreover have "edges m `` insert v ?A \<subseteq> insert v ?A"
    using A(1) assms(2) by (auto simp: edges_def)
  ultimately show ?thesis
    using A(2,3) unfolding settled_def new by auto
qed

lemma settled_enter: "v \<notin> visited s \<Longrightarrow> settled m s \<Longrightarrow> settled m (enter v s)"
  by (simp add: settled_def) blast

lemma search_settled: "search m vs pl s b s' \<Longrightarrow> settled m s \<Longrightarrow> settled m s'"
proof (induction rule: search.induct)
  case (found v s pl s' vs)
  then show ?case by (simp add: settled_enter)
next
  case (backtrack v s pl s1 vs b s')
  have "settled m (enter v s)" using backtrack.prems backtrack.hyps(2) by (simp add: settled_enter)
  then have "settled m s1" by (rule backtrack.IH(1))
  moreover have "path s1 = insert v (path s)" "set (successors m v) \<subseteq> visited s1 - path s1"
    using search_frame [OF backtrack.hyps(3)] by auto
  ultimately have "settled m (leave v s1)" by (intro settled_leave) simp_all
  then show ?case by (rule backtrack.IH(2))
qed (simp_all add: settled_def)

text \<open>Without a cycle the search comes to its end.\<close>

lemma acyclic_search:
  assumes "acyclic (edges m)" and "\<forall>p \<in> path s. \<forall>v \<in> set vs. (p, v) \<in> (edges m)\<^sup>+"
  shows "\<exists>s'. dfs_each m vs pl s = Inr (False, s')"
  using assms
proof (induction m vs pl s rule: dfs_each.induct)
  case (2 m v vs pl s)
  have fresh: "v \<notin> path s"
    using 2(4,5) unfolding acyclic_def by fastforce
  show ?case
  proof (cases "v \<in> visited s")
    case True
    then show ?thesis using fresh 2(1,4,5) by simp
  next
    case False
    have "\<forall>p \<in> path (enter v s). \<forall>w \<in> set (successors m v). (p, w) \<in> (edges m)\<^sup>+"
      using 2(5) by (auto simp: edges_def intro: trancl_into_trancl)
    then obtain s1 where s1: "dfs_each m (successors m v) (pl @ [v]) (enter v s) = Inr (False, s1)"
      using 2(2) [OF fresh False 2(4)] by auto
    then have path: "path s1 = insert v (path s)"
      using search_frame [OF dfs_each_search [OF s1]] by auto
    then have "\<forall>p \<in> path (leave v s1). \<forall>w \<in> set vs. (p, w) \<in> (edges m)\<^sup>+"
      using 2(5) by auto
    then show ?thesis
      using 2(3) [OF fresh False s1] 2(4) fresh False s1 path by auto
  qed
qed simp

declare dfs_each.simps(2) [simp del]

lemma stale_root_raises:
  "path s \<inter> set ss \<noteq> {} \<Longrightarrow> check_roots m ss s = Inl ValueError"
proof (induction ss arbitrary: s)
  case (Cons x ss)
  show ?case
  proof (cases "dfs_each m [x] [] s")
    case (Inl e)
    then show ?thesis using dfs_each_raises [OF Inl] by simp
  next
    case (Inr r)
    then obtain b s' where r: "dfs_each m [x] [] s = Inr (b, s')" by (cases r) auto
    then have "x \<notin> path s" by (auto simp: dfs_each.simps(2))
    moreover have "path s \<subseteq> path s'"
      using search_frame [OF dfs_each_search [OF r]] by simp
    ultimately have "path s' \<inter> set ss \<noteq> {}" using Cons.prems by auto
    then show ?thesis using Cons.IH r by simp
  qed
qed simp

text \<open>
  A search that has found a cycle leaves two flows on the path that it has visited itself, unless
  a flow depends on itself.
\<close>

lemma search_cycle:
  assumes "search m vs pl s b s'" and b
    and "path s = set pl" and "set pl \<inter> V = {}" and "V \<subseteq> visited s"
    and "pl \<noteq> [] \<longrightarrow> set vs \<subseteq> set (successors m (last pl))"
    and "\<forall>p \<in> set (butlast pl). successors m p \<noteq> []"
    and "\<forall>v. (v, v) \<notin> edges m"
  shows "\<exists>l z. l \<noteq> z \<and> {l, z} \<subseteq> path s' - V \<and> successors m l \<noteq> [] \<and> successors m z \<noteq> []"
  using assms(1-7)
proof (induction rule: search.induct)
  case (cycle v s pl vs)
  then have pl: "pl \<noteq> []" "v \<in> set (successors m (last pl))" by auto
  then have "last pl \<noteq> v" using assms(8) by (auto simp: edges_def)
  moreover have "successors m v \<noteq> []"
    using cycle.hyps(2) cycle.prems(6) \<open>last pl \<noteq> v\<close> pl(1) by (metis UnE append_butlast_last_id empty_iff list.set(1) set_ConsD set_append)
  moreover have "successors m (last pl) \<noteq> []" using pl(2) by auto
  ultimately show ?case
    using cycle pl(1) by (intro exI [of _ "last pl"] exI [of _ v]) auto
next
  case (found v s pl s' vs)
  show ?case
  proof (rule found.IH)
    show "\<forall>p \<in> set (butlast (pl @ [v])). successors m p \<noteq> []"
      using found.prems(5,6) by (cases pl rule: rev_cases) (auto simp: butlast_append)
  qed (use found in auto)
next
  case (backtrack v s pl s1 vs b s')
  have "path s1 = insert v (path s)" "visited s \<subseteq> visited s1"
    using search_frame [OF backtrack.hyps(3)] by auto
  then show ?case
    using backtrack.prems backtrack.hyps(1) by (intro backtrack.IH(2)) auto
qed auto

section \<open>The check\<close>

lemma check_roots_acyclic:
  assumes "acyclic (edges m)" and "path s = {}"
  shows "\<exists>s'. check_roots m ss s = Inr s' \<and> cycle_errors s' = cycle_errors s"
  using assms(2)
proof (induction ss arbitrary: s)
  case (Cons x ss)
  obtain s1 where s1: "dfs_each m [x] [] s = Inr (False, s1)"
    using acyclic_search [OF assms(1), of s "[x]" "[]"] Cons.prems by auto
  then have "path s1 = {}" "cycle_errors s1 = cycle_errors s"
    using search_frame [OF dfs_each_search [OF s1]] Cons.prems by auto
  then show ?case using Cons.IH [of s1] s1 by simp
qed simp

lemma check_roots_settled:
  assumes "check_roots m ss s = Inr s'" and "settled m s"
  shows "settled m s' \<and> visited s \<subseteq> visited s'
    \<and> (cycle_errors s' = [] \<longrightarrow> path s' = path s \<and> cycle_errors s = [] \<and> set ss \<subseteq> visited s')"
  using assms
proof (induction ss arbitrary: s)
  case (Cons x ss)
  then obtain b s1 where s1: "dfs_each m [x] [] s = Inr (b, s1)" "check_roots m ss s1 = Inr s'"
    by (auto simp: res_simps)
  note run = dfs_each_search [OF s1(1)]
  have IH: "settled m s'" "visited s1 \<subseteq> visited s'"
      "cycle_errors s' = [] \<longrightarrow> path s' = path s1 \<and> cycle_errors s1 = [] \<and> set ss \<subseteq> visited s'"
    using Cons.IH [OF s1(2) search_settled [OF run Cons.prems(2)]] by simp_all
  then show ?case
    using search_frame [OF run] by auto
qed simp

text \<open>
  Without self-dependencies, a search of all sources that does not raise has settled all of them:
  the first cycle found leaves a flow on the path whose own turn is still to come.
\<close>

lemma check_roots_no_raise:
  assumes "check_roots m ss s = Inr s'" and "settled m s" and "path s = {}"
    and "\<forall>v. (v, v) \<notin> edges m" and "\<forall>v. successors m v \<noteq> [] \<longrightarrow> v \<in> visited s \<union> set ss"
  shows "settled m s' \<and> path s' = {} \<and> (\<forall>v. successors m v \<noteq> [] \<longrightarrow> v \<in> visited s')"
  using assms(1-3,5)
proof (induction ss arbitrary: s)
  case (Cons x ss)
  then obtain b s1 where s1: "dfs_each m [x] [] s = Inr (b, s1)" "check_roots m ss s1 = Inr s'"
    by (auto simp: res_simps)
  note run = dfs_each_search [OF s1(1)]
  have "\<not> b"
  proof
    assume b
    then obtain l z where lz: "l \<noteq> z" "{l, z} \<subseteq> path s1 - visited s" "successors m l \<noteq> []" "successors m z \<noteq> []"
      using search_cycle [OF run _ _ _ _ _ _ assms(4), of "visited s"] Cons.prems(3) by auto
    then have "path s1 \<inter> set ss \<noteq> {}"
      using Cons.prems(4) by (cases "l = x") auto
    then show False
      using stale_root_raises s1(2) by fastforce
  qed
  then have "path s1 = {}" "visited s \<subseteq> visited s1" "x \<in> visited s1"
    using search_frame [OF run] Cons.prems(3) by auto
  then show ?case
    using Cons.IH [OF s1(2) search_settled [OF run Cons.prems(2)]] Cons.prems(4) by auto
qed simp

lemma settled_acyclic:
  assumes "settled m s" and "path s = {}" and "\<forall>v. successors m v \<noteq> [] \<longrightarrow> v \<in> visited s"
  shows "acyclic (edges m)"
proof (unfold acyclic_def, rule allI, rule notI)
  fix x assume x: "(x, x) \<in> (edges m)\<^sup>+"
  then have "successors m x \<noteq> []" by (auto simp: edges_def dest: tranclD)
  with assms x show False by (auto simp: settled_def)
qed

lemma check_roots_raises: "check_roots m ss s = Inl e \<Longrightarrow> e = ValueError"
  by (induction ss arbitrary: s) (auto simp: res_simps dfs_each_raises)

lemma source_key: "successors m v \<noteq> [] \<Longrightarrow> v \<in> fst ` set m"
  by (auto simp: successors_def deps_at_def split: option.splits dest!: map_of_SomeD) force

lemma settled_start [simp]: "settled m \<lparr>cycle_errors = [], visited = {}, path = {}\<rparr>"
  by (simp add: settled_def)

section \<open>The lookup maps\<close>

datatype coord_op =
    Add flow_dependency | Remove string string | Record string pyfloat string pydict | Clear | Reset

fun apply_op :: "coordinator \<Rightarrow> coord_op \<Rightarrow> coordinator" where
  "apply_op c (Add d) = add_dependency d c"
| "apply_op c (Remove s t) = snd (remove_dependency s t c)"
| "apply_op c (Record f t ty md) = record_event f t ty md c"
| "apply_op c Clear = clear_history c"
| "apply_op c Reset = reset_coordinator c"

definition maps_agree :: "flow_dependency list \<Rightarrow> coordinator \<Rightarrow> bool" where
  "maps_agree ds c \<longleftrightarrow>
     (\<forall>f. deps_at (dependency_map c) f = filter (\<lambda>d. target_flow_id d = f) ds
        \<and> deps_at (source_map c) f = filter (\<lambda>d. source_flow_id d = f) ds)"

lemma deps_at_dset [simp]: "deps_at (dset k v m) f = (if f = k then v else deps_at m f)"
  by (simp add: deps_at_def update_conv')

lemma deps_at_append [simp]: "deps_at (map_append k d m) f = (if f = k then deps_at m k @ [d] else deps_at m f)"
  by (simp add: map_append_def Let_def) (simp add: deps_at_def)

lemma deps_at_remove [simp]: "deps_at (map_remove k d m) f = (if f = k then remove1 d (deps_at m k) else deps_at m f)"
  by (simp add: map_remove_def remove1_idem)

lemma add_to_maps_agree: "maps_agree ds c \<Longrightarrow> maps_agree (ds @ [d]) (add_to_maps d c)"
  by (simp add: maps_agree_def add_to_maps_def)

lemma remove1_filter: "filter P (remove1 d ds) = (if P d then remove1 d (filter P ds) else filter P ds)"
  by (induction ds) auto

lemma remove_agree: "maps_agree (dependencies c) c \<Longrightarrow>
    maps_agree (dependencies (snd (remove_dependency s t c))) (snd (remove_dependency s t c))"
  by (auto simp: maps_agree_def remove_dependency_def remove1_filter find_Some_iff split: option.splits)

lemma new_coordinator_agree: "maps_agree ds (new_coordinator ds) \<and> dependencies (new_coordinator ds) = ds"
proof -
  let ?c = "\<lparr>dependencies = ds, flow_events = [], event_history = [], dependency_map = [], source_map = []\<rparr>"
  have "maps_agree xs (foldl (\<lambda>c d. add_to_maps d c) ?c xs) \<and> dependencies (foldl (\<lambda>c d. add_to_maps d c) ?c xs) = ds" for xs
  proof (induction xs rule: rev_induct)
    case Nil
    then show ?case by (simp add: maps_agree_def deps_at_def)
  next
    case (snoc d xs)
    then show ?case by (simp add: add_to_maps_agree) (simp add: add_to_maps_def)
  qed
  then show ?thesis by (simp add: new_coordinator_def)
qed

lemma apply_op_agree: "maps_agree (dependencies c) c \<Longrightarrow> maps_agree (dependencies (apply_op c op)) (apply_op c op)"
proof (cases op)
  case (Add d)
  assume "maps_agree (dependencies c) c"
  then have "maps_agree (dependencies c) (c\<lparr>dependencies := dependencies c @ [d]\<rparr>)" by (simp add: maps_agree_def)
  from add_to_maps_agree [OF this] show ?thesis
    by (simp add: Add add_dependency_def) (simp add: add_to_maps_def)
qed (auto simp: remove_agree, auto simp: maps_agree_def record_event_def clear_history_def reset_coordinator_def Let_def)

lemma reachable_agree:
  "maps_agree (dependencies (foldl apply_op (new_coordinator ds) ops)) (foldl apply_op (new_coordinator ds) ops)"
  using new_coordinator_agree by (induction ops rule: rev_induct) (simp_all add: apply_op_agree)

definition depends :: "flow_dependency list \<Rightarrow> (string \<times> string) set" where
  "depends ds = (\<lambda>d. (source_flow_id d, target_flow_id d)) ` set ds"

lemma edges_depends: "maps_agree ds c \<Longrightarrow> edges (source_map c) = depends ds"
  by (auto simp: edges_def depends_def successors_def maps_agree_def image_iff)

lemma validate_exact:
  assumes "set order = fst ` set (source_map c)"
  shows "validate_no_cycles c order = Inr [] \<longleftrightarrow> acyclic (edges (source_map c))"
proof
  let ?s = "\<lparr>cycle_errors = [], visited = {}, path = {}\<rparr>" and ?m = "source_map c"
  assume "validate_no_cycles c order = Inr []"
  then obtain s' where s': "check_roots ?m order ?s = Inr s'" "cycle_errors s' = []"
    by (auto simp: validate_no_cycles_def res_simps)
  then show "acyclic (edges ?m)"
    using check_roots_settled [OF s'(1) settled_start] source_key assms by (intro settled_acyclic [of ?m s']) auto
next
  assume "acyclic (edges (source_map c))"
  then obtain s' where "check_roots (source_map c) order \<lparr>cycle_errors = [], visited = {}, path = {}\<rparr> = Inr s'" "cycle_errors s' = []"
    using check_roots_acyclic [of "source_map c" "\<lparr>cycle_errors = [], visited = {}, path = {}\<rparr>" order] by auto
  then show "validate_no_cycles c order = Inr []"
    by (simp add: validate_no_cycles_def)
qed

lemma validate_raises:
  assumes "set order = fst ` set (source_map c)" and "\<forall>v. (v, v) \<notin> edges (source_map c)"
    and "\<not> acyclic (edges (source_map c))"
  shows "validate_no_cycles c order = Inl ValueError"
proof (cases "validate_no_cycles c order")
  case (Inl e)
  then show ?thesis by (auto simp: validate_no_cycles_def res_simps dest: check_roots_raises)
next
  case (Inr es)
  then obtain s' where "check_roots (source_map c) order \<lparr>cycle_errors = [], visited = {}, path = {}\<rparr> = Inr s'"
    by (auto simp: validate_no_cycles_def res_simps)
  then have "settled (source_map c) s' \<and> path s' = {} \<and> (\<forall>v. successors (source_map c) v \<noteq> [] \<longrightarrow> v \<in> visited s')"
    using assms(1,2) source_key by (intro check_roots_no_raise) auto
  then show ?thesis using settled_acyclic assms(3) by blast
qed

text \<open>
  C17: the check for circular dependencies. For every coordinator that is reached by adding and
  removing dependencies and recording events, and for every order in which the set of sources is
  iterated, the check returns no error exactly when the dependencies are free of cycles. If no flow
  depends on itself, a cycle is never reported either: the check then always ends in a
  \<open>ValueError\<close>, since the path of the first cycle found is not cleared for the next source.
\<close>

theorem cycle_check_exact:
  assumes "c = foldl apply_op (new_coordinator ds) ops" and "set order = fst ` set (source_map c)"
  shows "(validate_no_cycles c order = Inr [] \<longleftrightarrow> acyclic (depends (dependencies c)))
    \<and> ((\<forall>d \<in> set (dependencies c). source_flow_id d \<noteq> target_flow_id d)
        \<longrightarrow> \<not> acyclic (depends (dependencies c)) \<longrightarrow> validate_no_cycles c order = Inl ValueError)"
proof -
  have e: "edges (source_map c) = depends (dependencies c)"
    using reachable_agree assms(1) by (simp add: edges_depends)
  show ?thesis
    using validate_exact [OF assms(2)] validate_raises [OF assms(2)] unfolding e
    by (auto simp: depends_def)
qed

text \<open>
  The maps are an index. After any sequence of operations, the dependencies that are found for
  a target and for a source are those of the list, in its order; a dependency that is removed
  is the first with its source and target, and removing succeeds exactly when there is one.
\<close>

theorem lookup_maps_index:
  assumes "c = foldl apply_op (new_coordinator ds) ops"
  shows "get_dependencies_for_target c f = filter (\<lambda>d. target_flow_id d = f) (dependencies c)
    \<and> get_dependents_of_source c f = filter (\<lambda>d. source_flow_id d = f) (dependencies c)
    \<and> (fst (remove_dependency s t c) \<longleftrightarrow> (s, t) \<in> depends (dependencies c))
    \<and> length (dependencies (snd (remove_dependency s t c)))
        = length (dependencies c) - (if (s, t) \<in> depends (dependencies c) then 1 else 0)"
proof -
  have "maps_agree (dependencies c) c" using reachable_agree assms by simp
  moreover have "find (\<lambda>d. source_flow_id d = s \<and> target_flow_id d = t) (dependencies c) = None
      \<longleftrightarrow> (s, t) \<notin> depends (dependencies c)"
    by (auto simp: find_None_iff depends_def)
  moreover have "d \<in> set (dependencies c)"
    if "find (\<lambda>d. source_flow_id d = s \<and> target_flow_id d = t) (dependencies c) = Some d" for d
    using that by (auto simp: find_Some_iff)
  ultimately show ?thesis
    by (cases "find (\<lambda>d. source_flow_id d = s \<and> target_flow_id d = t) (dependencies c)")
      (simp_all add: maps_agree_def get_dependencies_for_target_def get_dependents_of_source_def remove_dependency_def length_remove1)
qed

section \<open>Triggers\<close>

definition due_at :: "coordinator \<Rightarrow> jitter_draws \<Rightarrow> pyfloat \<Rightarrow> nat \<Rightarrow> flow_dependency \<Rightarrow> bool" where
  "due_at c r t i d \<longleftrightarrow>
     (case get_last_event c (source_flow_id d) of None \<Rightarrow> False | Some e \<Rightarrow> trigger_time (trigger_draw r i) d e \<le> t)"

definition blocks :: "coordinator \<Rightarrow> flow_dependency \<Rightarrow> bool" where
  "blocks c d \<longleftrightarrow> dep_type d = TRIGGER \<and> get_last_event c (source_flow_id d) = None"

lemma ex_less_Suc_split: "(\<exists>i < Suc n. P i) \<longleftrightarrow> P 0 \<or> (\<exists>i < n. P (Suc i))"
  by (auto simp: less_Suc_eq_0_disj)

lemma all_less_Suc_split: "(\<forall>i < Suc n. P i) \<longleftrightarrow> P 0 \<and> (\<forall>i < n. P (Suc i))"
  by (auto simp: less_Suc_eq_0_disj)

lemma check_dependencies_go:
  "check_dependencies c r t k ds = Inr (go, delay) \<Longrightarrow>
     go \<longleftrightarrow> (\<exists>i < length ds. due_at c r t (k + i) (ds ! i) \<and> (\<forall>j < i. \<not> blocks c (ds ! j)))"
proof (induction ds arbitrary: k)
  case (Cons d ds)
  show ?case
  proof (cases "get_last_event c (source_flow_id d)")
    case None
    then show ?thesis
      using Cons.IH [of "k + 1"] Cons.prems
      by (auto simp: ex_less_Suc_split all_less_Suc_split due_at_def [of _ _ _ _ d] blocks_def [of _ d] split: if_splits)
  next
    case (Some e)
    then show ?thesis
      using Cons.IH [of "k + 1"] Cons.prems
      by (auto simp: ex_less_Suc_split all_less_Suc_split due_at_def [of _ _ _ _ d] blocks_def [of _ d] res_simps Let_def split: if_splits)
  qed
qed simp

text \<open>
  C18: a flow waits for its sources. A flow is told to run exactly when nothing is declared to
  trigger it, or one of its dependencies is due (its source has an event, and the event's time
  with delay and jitter has come) and no dependency before that one is a trigger whose source
  has had no event.
\<close>

theorem flow_waits_for_sources:
  assumes "c = foldl apply_op (new_coordinator deps) ops"
    and "ds = filter (\<lambda>d. target_flow_id d = flow_id) (dependencies c)"
    and "should_trigger c r flow_id t = Inr (go, delay)"
  shows "go \<longleftrightarrow> ds = [] \<or> (\<exists>i < length ds. due_at c r t i (ds ! i) \<and> (\<forall>j < i. \<not> blocks c (ds ! j)))"
proof -
  have "get_dependencies_for_target c flow_id = ds"
    using reachable_agree [of deps ops] assms(1,2) by (simp add: maps_agree_def get_dependencies_for_target_def)
  then show ?thesis
    using assms(3) check_dependencies_go [of c r t 0 ds go delay] by (auto simp: should_trigger_def split: if_splits)
qed

section \<open>Cascades\<close>

lemma wf_consecutive:
  assumes "distinct xs"
  shows "acyclic {(xs ! i, xs ! (i + 1)) | i. i + 1 < length xs}"
proof (rule acyclic_subset [OF wf_acyclic])
  let ?pos = "\<lambda>x. length (takeWhile (\<lambda>y. y \<noteq> x) xs)"
  have "?pos (xs ! i) = i" if "i < length xs" for i
    using assms that
    by (subst takeWhile_eq_take_P_nth [of i]) (auto simp: nth_eq_iff_index_eq)
  then show "{(xs ! i, xs ! (i + 1)) | i. i + 1 < length xs} \<subseteq> inv_image less_than ?pos"
    by auto
  show "wf (inv_image less_than ?pos)" by simp
qed

lemma chain_eq:
  "create_master_slave_chain master slaves delay jitter
     = map (\<lambda>i. cascade_link ((master # slaves) ! i) (slaves ! i) delay jitter i) [0..<length slaves]"
proof (cases slaves)
  case Nil
  then show ?thesis by (simp add: create_master_slave_chain_def)
next
  case (Cons s ss)
  have "[0..<length slaves] = 0 # [1..<length slaves]"
    using Cons upt_conv_Cons [of 0 "length slaves"] by simp
  then show ?thesis
    using Cons by (auto simp: create_master_slave_chain_def nth_Cons')
qed

lemma depends_chain:
  "depends (create_master_slave_chain master slaves delay jitter)
     = {((master # slaves) ! i, (master # slaves) ! (i + 1)) | i. i + 1 < length (master # slaves)}"
  by (auto simp: depends_def chain_eq cascade_link_def image_image)


lemma filter_upt_eq: "filter (\<lambda>j. j = i) [0..<n] = (if i < n then [i] else [])"
  by (induction n) auto

text \<open>
  C19: a polling chain. The dependencies made for a master and its slaves, all distinct, pass the
  check for cycles; but the delay between slaves is not the one asked for: without jitter, the
  slave at position \<open>i\<close> is told to wait \<open>i\<close> times the delay, in addition to the delay that has
  passed since the slave before it, and the first slave nothing more.
\<close>

theorem polling_chain:
  assumes "c = new_coordinator (create_master_slave_chain master slaves delay jitter)"
    and "set order = fst ` set (source_map c)" and "distinct (master # slaves)" and "i < length slaves"
  shows "validate_no_cycles c order = Inr []
    \<and> (\<not> float_of_nat 0 < jitter \<longrightarrow> fadd t0 delay \<le> t \<longrightarrow> float_of_int (int i) = Inr p
        \<longrightarrow> should_trigger (record_event ((master # slaves) ! i) t0 ty md c) r (slaves ! i) t = Inr (True, Some (fmul delay p)))"
proof -
  let ?ds = "create_master_slave_chain master slaves delay jitter"
  have c: "maps_agree ?ds c" "dependencies c = ?ds" using new_coordinator_agree assms(1) by simp_all
  have "acyclic (depends ?ds)"
    unfolding depends_chain by (rule wf_consecutive [OF assms(3)])
  then have "validate_no_cycles c order = Inr []"
    using validate_exact [OF assms(2)] edges_depends [OF c(1)] by simp
  moreover have ds: "filter (\<lambda>d. target_flow_id d = slaves ! i) ?ds = [cascade_link ((master # slaves) ! i) (slaves ! i) delay jitter i]"
  proof -
    have "filter (\<lambda>j. slaves ! j = slaves ! i) [0..<length slaves] = filter (\<lambda>j. j = i) [0..<length slaves]"
      using assms(3,4) by (intro filter_cong) (auto simp: nth_eq_iff_index_eq)
    then show ?thesis
      using assms(4) by (simp add: chain_eq filter_map comp_def filter_upt_eq) (simp add: cascade_link_def filter_upt_eq)
  qed
  moreover have "get_dependencies_for_target (record_event f t0 ty md c) (slaves ! i)
      = [cascade_link ((master # slaves) ! i) (slaves ! i) delay jitter i]" for f
    using c(1) ds by (simp add: get_dependencies_for_target_def record_event_def maps_agree_def Let_def)
  moreover have "get_last_event (record_event f t0 ty md c) f
      = Some \<lparr>event_flow = f, event_time_ms = t0, flow_event_type = ty, event_metadata = md\<rparr>" for f
    by (simp add: get_last_event_def record_event_def update_conv' Let_def)
  ultimately show ?thesis
    by (simp add: should_trigger_def trigger_time_def cascade_link_def suggested_delay_def with_jitter_def)
qed

section \<open>Examples\<close>

definition demo_links :: "flow_dependency list" where
  "demo_links = [create_redundant_sync ''a'' ''b'' (float_of_nat 5), create_redundant_sync ''b'' ''a'' (float_of_nat 5)]"

definition demo_jitter :: jitter_draws where
  "demo_jitter = \<lparr>trigger_draw = (\<lambda>i. float_of_nat 0), delay_draw = (\<lambda>i. float_of_nat 0)\<rparr>"

lemma demo_coordinator: "dependencies (new_coordinator demo_links) = demo_links"
    "fst ` set (source_map (new_coordinator demo_links)) = {''a'', ''b''}"
  by (simp_all add: new_coordinator_agree)
    (simp add: new_coordinator_def demo_links_def create_redundant_sync_def add_to_maps_def map_append_def deps_at_def Let_def)

theorem cycle_check_exact_witness:
  "validate_no_cycles (new_coordinator demo_links) [''a'', ''b''] = Inl ValueError"
proof -
  have "(''a'', ''b'') \<in> depends demo_links" "(''b'', ''a'') \<in> depends demo_links"
    by (simp_all add: depends_def demo_links_def create_redundant_sync_def)
  then have "\<not> acyclic (depends demo_links)"
    by (meson acyclic_def trancl.r_into_trancl trancl_into_trancl)
  moreover have "\<forall>d \<in> set demo_links. source_flow_id d \<noteq> target_flow_id d"
    by (simp add: demo_links_def create_redundant_sync_def)
  ultimately show ?thesis
    using cycle_check_exact [of "new_coordinator demo_links" demo_links "[]" "[''a'', ''b'']"] demo_coordinator by simp
qed

theorem lookup_maps_index_witness:
  "get_dependencies_for_target (new_coordinator demo_links) ''a'' = [create_redundant_sync ''b'' ''a'' (float_of_nat 5)]
   \<and> fst (remove_dependency ''a'' ''b'' (new_coordinator demo_links))"
  using lookup_maps_index [of "new_coordinator demo_links" demo_links "[]" "''a''" "''a''" "''b''"]
  by (simp add: demo_coordinator) (simp add: demo_links_def depends_def create_redundant_sync_def)

theorem flow_waits_for_sources_witness:
  "\<exists>delay. should_trigger (new_coordinator demo_links) demo_jitter ''a'' (float_of_nat 10) = Inr (False, delay)
     \<and> \<not> (\<exists>d. due_at (new_coordinator demo_links) demo_jitter (float_of_nat 10) 0 d)"
proof -
  let ?c = "new_coordinator demo_links"
  have none: "get_last_event ?c f = None" for f
    by (simp add: new_coordinator_def demo_links_def get_last_event_def add_to_maps_def)
  have "\<exists>go delay. should_trigger ?c demo_jitter ''a'' (float_of_nat 10) = Inr (go, delay)"
    by (simp add: should_trigger_def get_dependencies_for_target_def new_coordinator_def demo_links_def create_redundant_sync_def
        add_to_maps_def map_append_def deps_at_def get_last_event_def Let_def ex_bool_eq)
  then obtain go delay where r: "should_trigger ?c demo_jitter ''a'' (float_of_nat 10) = Inr (go, delay)" by auto
  have "\<not> go"
    using flow_waits_for_sources [of ?c demo_links "[]" _ "''a''", OF _ refl r]
    by (simp add: demo_coordinator due_at_def none) (simp add: demo_links_def create_redundant_sync_def)
  then show ?thesis using r by (auto simp: due_at_def none)
qed

theorem polling_chain_witness:
  "\<exists>p. should_trigger (record_event ''s1'' (float_of_nat 0) ''poll'' []
        (new_coordinator (create_master_slave_chain ''m'' [''s1'', ''s2'', ''s3''] (float_of_nat 10) (float_of_nat 0))))
      demo_jitter ''s2'' (float_of_nat 20) = Inr (True, Some (fmul (float_of_nat 10) p)) \<and> int_of_float p = Inr 1"
proof -
  let ?c = "new_coordinator (create_master_slave_chain ''m'' [''s1'', ''s2'', ''s3''] (float_of_nat 10) (float_of_nat 0))"
  obtain p where "float_of_int (int 1) = Inr p" "int_of_float p = Inr 1"
    using int_of_float_of_int [of 1] by (auto simp: res_simps)
  moreover have ten: "fadd (float_of_nat 0) (float_of_nat 10) = Fin False 5629499534213120 (- 49)"
    by (simp add: float_of_nat_def f64_scaled_def f64_of_ratio_def round_bin_def ilog2_def blen.simps
        scaled_den_def scaled_num_def rne_def Let_def)
  moreover have "fadd (float_of_nat 0) (float_of_nat 10) \<le> float_of_nat 20"
    unfolding ten by (simp add: less_eq_pyfloat_def float_of_nat_def)
  moreover have "\<not> float_of_nat 0 < float_of_nat 0"
    by (simp add: less_pyfloat_def float_of_nat_def)
  ultimately show ?thesis
    using polling_chain [OF refl, of "map fst (source_map ?c)" "''m''" "[''s1'', ''s2'', ''s3'']" "float_of_nat 10" "float_of_nat 0" 1
        "float_of_nat 0" "float_of_nat 20" p "''poll''" "[]" demo_jitter] by auto
qed

end
