(* ===== verification/Slmp.thy ===== *)
theory Slmp
  imports TcpStream
begin

text \<open>
  \<open>backend/app/protocol_engines/slmp/packets.py\<close>: headers, commands and frames of Mitsubishi's
  SLMP (3E and 4E frames), and the TCP packets that carry them.

  The packets are the layers handed to scapy; the fields that the code does not set have
  scapy's defaults (TTL 64, no flags, window 8192, acknowledgment 0).
\<close>

section \<open>Constants\<close>

definition SLMP_PORT :: int where "SLMP_PORT = 5000"
definition SUBHEADER_3E_REQUEST :: int where "SUBHEADER_3E_REQUEST = 0x5000"
definition SUBHEADER_3E_RESPONSE :: int where "SUBHEADER_3E_RESPONSE = 0xD000"
definition SUBHEADER_4E_REQUEST :: int where "SUBHEADER_4E_REQUEST = 0x5400"
definition SUBHEADER_4E_RESPONSE :: int where "SUBHEADER_4E_RESPONSE = 0xD400"

definition BATCH_READ :: int where "BATCH_READ = 0x0401"
definition BATCH_WRITE :: int where "BATCH_WRITE = 0x1401"
definition REMOTE_RUN :: int where "REMOTE_RUN = 0x1001"
definition REMOTE_STOP :: int where "REMOTE_STOP = 0x1002"
definition READ_CPU_MODEL :: int where "READ_CPU_MODEL = 0x0101"
definition READ_CPU_STATE :: int where "READ_CPU_STATE = 0x0301"
definition SUB_WORD :: int where "SUB_WORD = 0x0000"
definition SUB_BIT :: int where "SUB_BIT = 0x0001"
definition END_NORMAL :: int where "END_NORMAL = 0x0000"

lemmas slmp_consts =
  SUBHEADER_3E_REQUEST_def SUBHEADER_3E_RESPONSE_def SUBHEADER_4E_REQUEST_def SUBHEADER_4E_RESPONSE_def
  BATCH_READ_def BATCH_WRITE_def REMOTE_RUN_def REMOTE_STOP_def READ_CPU_MODEL_def READ_CPU_STATE_def
  SUB_WORD_def SUB_BIT_def END_NORMAL_def

section \<open>Headers\<close>

record slmp_route =
  network_number :: int
  pc_number :: int
  dest_module_io :: int
  dest_module_station :: int

text \<open>The part that the four headers have in common, behind subheader and serial number.\<close>

definition route_fields :: "slmp_route \<Rightarrow> int \<Rightarrow> int \<Rightarrow> bytes res" where
  "route_fields r data_length last_word =
     bnd (py_bytes [network_number r, pc_number r]) (\<lambda>a.
     bnd (struct_pack ''<H'' [dest_module_io r]) (\<lambda>b.
     bnd (py_bytes [dest_module_station r]) (\<lambda>c.
     bnd (struct_pack ''<H'' [data_length]) (\<lambda>d.
     bnd (struct_pack ''<H'' [last_word]) (\<lambda>e. Inr (a @ b @ c @ d @ e))))))"

definition build_3e_request_header :: "slmp_route \<Rightarrow> int \<Rightarrow> int \<Rightarrow> bytes res" where
  "build_3e_request_header r data_length monitoring_timer =
     bnd (struct_pack ''>H'' [SUBHEADER_3E_REQUEST]) (\<lambda>h.
     bnd (route_fields r data_length monitoring_timer) (\<lambda>t. Inr (h @ t)))"

definition build_3e_response_header :: "slmp_route \<Rightarrow> int \<Rightarrow> int \<Rightarrow> bytes res" where
  "build_3e_response_header r data_length end_code =
     bnd (struct_pack ''>H'' [SUBHEADER_3E_RESPONSE]) (\<lambda>h.
     bnd (route_fields r data_length end_code) (\<lambda>t. Inr (h @ t)))"

definition build_4e_request_header :: "int \<Rightarrow> slmp_route \<Rightarrow> int \<Rightarrow> int \<Rightarrow> bytes res" where
  "build_4e_request_header serial_number r data_length monitoring_timer =
     bnd (struct_pack ''>H'' [SUBHEADER_4E_REQUEST]) (\<lambda>h.
     bnd (struct_pack ''<H'' [serial_number]) (\<lambda>s.
     bnd (struct_pack ''<H'' [0]) (\<lambda>z.
     bnd (route_fields r data_length monitoring_timer) (\<lambda>t. Inr (h @ s @ z @ t)))))"

definition build_4e_response_header :: "int \<Rightarrow> slmp_route \<Rightarrow> int \<Rightarrow> int \<Rightarrow> bytes res" where
  "build_4e_response_header serial_number r data_length end_code =
     bnd (struct_pack ''>H'' [SUBHEADER_4E_RESPONSE]) (\<lambda>h.
     bnd (struct_pack ''<H'' [serial_number]) (\<lambda>s.
     bnd (struct_pack ''<H'' [0]) (\<lambda>z.
     bnd (route_fields r data_length end_code) (\<lambda>t. Inr (h @ s @ z @ t)))))"

section \<open>Commands\<close>

definition build_device_address :: "int \<Rightarrow> int \<Rightarrow> bytes res" where
  "build_device_address device_code address =
     bnd (struct_pack ''<I'' [address]) (\<lambda>a.
     bnd (py_bytes [device_code]) (\<lambda>c. Inr (take 3 a @ c)))"

definition build_batch_read_command :: "int \<Rightarrow> int \<Rightarrow> int \<Rightarrow> bool \<Rightarrow> bytes res" where
  "build_batch_read_command device_code start_address num_points bit_access =
     (let subcommand = (if bit_access then SUB_BIT else SUB_WORD)
      in bnd (struct_pack ''<H'' [BATCH_READ]) (\<lambda>a.
         bnd (struct_pack ''<H'' [subcommand]) (\<lambda>b.
         bnd (build_device_address device_code start_address) (\<lambda>c.
         bnd (struct_pack ''<H'' [num_points]) (\<lambda>d. Inr (a @ b @ c @ d))))))"

definition build_batch_write_command :: "int \<Rightarrow> int \<Rightarrow> bytes \<Rightarrow> bool \<Rightarrow> bytes res" where
  "build_batch_write_command device_code start_address write_data bit_access =
     (let subcommand = (if bit_access then SUB_BIT else SUB_WORD);
          num_points = int (if bit_access then length write_data else length write_data div 2)
      in bnd (struct_pack ''<H'' [BATCH_WRITE]) (\<lambda>a.
         bnd (struct_pack ''<H'' [subcommand]) (\<lambda>b.
         bnd (build_device_address device_code start_address) (\<lambda>c.
         bnd (struct_pack ''<H'' [num_points]) (\<lambda>d. Inr (a @ b @ c @ d @ write_data))))))"

definition build_remote_run_command :: "bool \<Rightarrow> int \<Rightarrow> bytes res" where
  "build_remote_run_command forced clear_mode =
     bnd (struct_pack ''<H'' [REMOTE_RUN]) (\<lambda>a.
     bnd (struct_pack ''<H'' [0]) (\<lambda>b.
     bnd (struct_pack ''<H'' [if forced then 1 else 0]) (\<lambda>c.
     bnd (struct_pack ''<H'' [clear_mode]) (\<lambda>d. Inr (a @ b @ c @ d)))))"

definition plain_command :: "int \<Rightarrow> bytes res" where
  "plain_command c = bnd (struct_pack ''<H'' [c]) (\<lambda>a. bnd (struct_pack ''<H'' [0]) (\<lambda>b. Inr (a @ b)))"

definition build_remote_stop_command :: "bytes res" where
  "build_remote_stop_command = plain_command REMOTE_STOP"

definition build_read_cpu_model_command :: "bytes res" where
  "build_read_cpu_model_command = plain_command READ_CPU_MODEL"

definition build_read_cpu_state_command :: "bytes res" where
  "build_read_cpu_state_command = plain_command READ_CPU_STATE"

section \<open>Frames and packets\<close>

definition build_slmp_3e_frame :: "bytes \<Rightarrow> slmp_route \<Rightarrow> int \<Rightarrow> bytes res" where
  "build_slmp_3e_frame command_data r monitoring_timer =
     bnd (build_3e_request_header r (2 + int (length command_data)) monitoring_timer) (\<lambda>h. Inr (h @ command_data))"

definition build_slmp_4e_frame :: "bytes \<Rightarrow> int \<Rightarrow> slmp_route \<Rightarrow> int \<Rightarrow> bytes res" where
  "build_slmp_4e_frame command_data serial_number r monitoring_timer =
     bnd (build_4e_request_header serial_number r (2 + int (length command_data)) monitoring_timer) (\<lambda>h. Inr (h @ command_data))"

definition slmp_port :: "device \<Rightarrow> int" where
  "slmp_port d = (if device_port d = 0 then SLMP_PORT else device_port d)"

definition slmp_layers :: "device \<Rightarrow> device \<Rightarrow> int \<Rightarrow> int \<Rightarrow> string \<Rightarrow> bytes option \<Rightarrow> layers" where
  "slmp_layers src dst seq ack flags load =
     \<lparr>eth_src = mac_address src, eth_dst = mac_address dst,
      ip = \<lparr>ip_src = ip_address src, ip_dst = ip_address dst, ip_ttl = 64, ip_df = False\<rparr>,
      tcp = \<lparr>sport = slmp_port src, dport = slmp_port dst, tcp_seq = seq, tcp_ack = ack, tcp_flags = flags,
             tcp_window = 8192, seg_options = []\<rparr>,
      raw = load\<rparr>"

definition build_slmp_tcp_packet :: "device \<Rightarrow> device \<Rightarrow> bytes \<Rightarrow> int \<Rightarrow> int \<Rightarrow> layers" where
  "build_slmp_tcp_packet src dst slmp_frame seq ack = slmp_layers src dst seq ack ''PA'' (Some slmp_frame)"

definition build_tcp_handshake_syn :: "device \<Rightarrow> device \<Rightarrow> int \<Rightarrow> layers" where
  "build_tcp_handshake_syn src dst seq = slmp_layers src dst seq 0 ''S'' None"

definition build_tcp_handshake_syn_ack :: "device \<Rightarrow> device \<Rightarrow> int \<Rightarrow> int \<Rightarrow> layers" where
  "build_tcp_handshake_syn_ack src dst seq ack = slmp_layers src dst seq ack ''SA'' None"

definition build_tcp_handshake_ack :: "device \<Rightarrow> device \<Rightarrow> int \<Rightarrow> int \<Rightarrow> layers" where
  "build_tcp_handshake_ack src dst seq ack = slmp_layers src dst seq ack ''A'' None"

definition slmp_tcp_fin :: "device \<Rightarrow> device \<Rightarrow> int \<Rightarrow> int \<Rightarrow> layers" where
  "slmp_tcp_fin src dst seq ack = slmp_layers src dst seq ack ''FA'' None"

section \<open>Frames as the receiver sees them\<close>

text \<open>
  The layout of SLMP frames, written from the protocol's definition: a big-endian subheader,
  the serial number of 4E frames, the route, and a length that counts what follows it.
\<close>

record slmp_frame =
  fr_response :: bool
  fr_serial :: "int option"
  fr_route :: slmp_route
  fr_word :: int
  fr_data :: bytes

definition subheader :: "bool \<Rightarrow> bool \<Rightarrow> int" where
  "subheader response ext = (if response then (if ext then 0xD400 else 0xD000) else (if ext then 0x5400 else 0x5000))"

definition frame_bytes :: "slmp_frame \<Rightarrow> bytes" where
  "frame_bytes f =
     be_bytes 2 (subheader (fr_response f) (fr_serial f \<noteq> None))
     @ (case fr_serial f of Some s \<Rightarrow> le_bytes 2 s @ le_bytes 2 0 | None \<Rightarrow> [])
     @ le_bytes 1 (network_number (fr_route f)) @ le_bytes 1 (pc_number (fr_route f))
     @ le_bytes 2 (dest_module_io (fr_route f)) @ le_bytes 1 (dest_module_station (fr_route f))
     @ le_bytes 2 (2 + int (length (fr_data f))) @ le_bytes 2 (fr_word f) @ fr_data f"

definition frame_ok :: "slmp_frame \<Rightarrow> bool" where
  "frame_ok f \<longleftrightarrow>
     (case fr_serial f of Some s \<Rightarrow> in_range 2 False s | None \<Rightarrow> True)
     \<and> in_range 1 False (network_number (fr_route f)) \<and> in_range 1 False (pc_number (fr_route f))
     \<and> in_range 2 False (dest_module_io (fr_route f)) \<and> in_range 1 False (dest_module_station (fr_route f))
     \<and> in_range 2 False (fr_word f) \<and> length (fr_data f) < 65534"

definition parse_tail :: "bool \<Rightarrow> int option \<Rightarrow> bytes \<Rightarrow> (slmp_frame \<times> bytes) option" where
  "parse_tail response serial s =
     (let len = nat (le_val (slice 5 7 s))
      in if length s < 9 \<or> len < 2 \<or> length s < 7 + len then None
         else Some (\<lparr>fr_response = response, fr_serial = serial,
                     fr_route = \<lparr>network_number = le_val (slice 0 1 s), pc_number = le_val (slice 1 2 s),
                       dest_module_io = le_val (slice 2 4 s), dest_module_station = le_val (slice 4 5 s)\<rparr>,
                     fr_word = le_val (slice 7 9 s), fr_data = slice 9 (7 + len) s\<rparr>, drop (7 + len) s))"

definition parse_slmp :: "bytes \<Rightarrow> (slmp_frame \<times> bytes) option" where
  "parse_slmp s =
     (let sub = be_val (take 2 s)
      in if length s < 6 then None
         else if sub = 0x5000 then parse_tail False None (drop 2 s)
         else if sub = 0xD000 then parse_tail True None (drop 2 s)
         else if sub = 0x5400 then parse_tail False (Some (le_val (slice 2 4 s))) (drop 6 s)
         else if sub = 0xD400 then parse_tail True (Some (le_val (slice 2 4 s))) (drop 6 s)
         else None)"

lemma slice_append_left: "j \<le> length xs \<Longrightarrow> slice i j (xs @ ys) = slice i j xs"
  by (simp add: slice_def)

lemma slice_skip: "length xs \<le> i \<Longrightarrow> slice i j (xs @ ys) = slice (i - length xs) (j - length xs) ys"
  by (simp add: slice_def)

lemma tail_slices:
  assumes "length a = 1" "length b = 1" "length c = 2" "length d = 1" "length e = 2" "length f = 2"
  shows "slice 0 1 (a @ b @ c @ d @ e @ f @ g) = a" "slice 1 2 (a @ b @ c @ d @ e @ f @ g) = b"
    "slice 2 4 (a @ b @ c @ d @ e @ f @ g) = c" "slice 4 5 (a @ b @ c @ d @ e @ f @ g) = d"
    "slice 5 7 (a @ b @ c @ d @ e @ f @ g) = e" "slice 7 9 (a @ b @ c @ d @ e @ f @ g) = f"
    "slice 9 (9 + n) (a @ b @ c @ d @ e @ f @ g) = take n g" "drop (9 + n) (a @ b @ c @ d @ e @ f @ g) = drop n g"
    "length (a @ b @ c @ d @ e @ f @ g) = 9 + length g"
  using assms by (simp_all add: slice_def)

lemma parse_tail_built:
  assumes "in_range 1 False n" "in_range 1 False p" "in_range 2 False io" "in_range 1 False st" "in_range 2 False w"
    and "length d < 65534"
  shows "parse_tail response serial (le_bytes 1 n @ le_bytes 1 p @ le_bytes 2 io @ le_bytes 1 st
      @ le_bytes 2 (2 + int (length d)) @ le_bytes 2 w @ d @ rest)
    = Some (\<lparr>fr_response = response, fr_serial = serial,
        fr_route = \<lparr>network_number = n, pc_number = p, dest_module_io = io, dest_module_station = st\<rparr>,
        fr_word = w, fr_data = d\<rparr>, rest)"
proof -
  let ?s = "le_bytes 1 n @ le_bytes 1 p @ le_bytes 2 io @ le_bytes 1 st @ le_bytes 2 (2 + int (length d)) @ le_bytes 2 w @ d @ rest"
  note s = tail_slices [of "le_bytes 1 n" "le_bytes 1 p" "le_bytes 2 io" "le_bytes 1 st" "le_bytes 2 (2 + int (length d))"
      "le_bytes 2 w", OF length_le_bytes length_le_bytes length_le_bytes length_le_bytes length_le_bytes length_le_bytes]
  have "(2 + int (length d)) mod 65536 = 2 + int (length d)"
    using assms(6) by (intro mod_pos_pos_trivial) auto
  then have "nat (le_val (slice 5 7 ?s)) = 2 + length d" unfolding s(5) by simp
  then have len: "nat (le_val (slice 5 7 ?s)) = 2 + length d" "7 + (2 + length d) = 9 + length d" by simp_all
  show ?thesis
    unfolding parse_tail_def Let_def len(1) unfolding len(2) s using assms by (simp add: in_range_def del: le_bytes.simps)
qed

lemma parse_frame_bytes: "frame_ok f \<Longrightarrow> parse_slmp (frame_bytes f @ rest) = Some (f, rest)"
proof -
  assume ok: "frame_ok f"
  let ?r = "fr_route f" and ?t = "le_bytes 1 (network_number (fr_route f)) @ le_bytes 1 (pc_number (fr_route f))
     @ le_bytes 2 (dest_module_io (fr_route f)) @ le_bytes 1 (dest_module_station (fr_route f))
     @ le_bytes 2 (2 + int (length (fr_data f))) @ le_bytes 2 (fr_word f) @ fr_data f @ rest"
  have tail: "parse_tail (fr_response f) (fr_serial f) ?t = Some (f, rest)"
    using ok by (subst parse_tail_built) (simp_all add: frame_ok_def)
  show ?thesis
  proof (cases "fr_serial f")
    case None
    then show ?thesis
      using tail by (cases "fr_response f") (simp_all add: parse_slmp_def frame_bytes_def subheader_def del: le_bytes.simps)
  next
    case (Some s)
    then have "s mod 65536 = s" using ok by (simp add: frame_ok_def in_range_def)
    then show ?thesis
      using tail Some
      by (cases "fr_response f") (simp_all add: parse_slmp_def frame_bytes_def subheader_def slice_def del: le_bytes.simps)
  qed
qed

interpretation slmp: framing parse_slmp frame_ok frame_bytes
  by unfold_locales (rule parse_frame_bytes)

section \<open>Built frames\<close>

lemma le_bytes_1: "le_bytes 1 v = [word_of_int v]"
  by simp

lemma route_fields_iff:
  "route_fields r len w = Inr bs \<longleftrightarrow>
     in_range 1 False (network_number r) \<and> in_range 1 False (pc_number r) \<and> in_range 2 False (dest_module_io r)
     \<and> in_range 1 False (dest_module_station r) \<and> in_range 2 False len \<and> in_range 2 False w
     \<and> bs = le_bytes 1 (network_number r) @ le_bytes 1 (pc_number r) @ le_bytes 2 (dest_module_io r)
         @ le_bytes 1 (dest_module_station r) @ le_bytes 2 len @ le_bytes 2 w"
  by (auto simp: route_fields_def res_simps py_byte_eq_Inr in_range_def split: if_splits)

text \<open>A header with its data is a frame, and there is one exactly for the values that fit.\<close>

lemma length_word_range: "in_range 2 False (2 + int (length d)) \<longleftrightarrow> length d < 65534"
  by (auto simp: in_range_def)

lemma response_3e: "bnd (build_3e_response_header r (2 + int (length d)) w) (\<lambda>h. Inr (h @ d)) = Inr bs \<longleftrightarrow>
    frame_ok \<lparr>fr_response = True, fr_serial = None, fr_route = r, fr_word = w, fr_data = d\<rparr>
    \<and> bs = frame_bytes \<lparr>fr_response = True, fr_serial = None, fr_route = r, fr_word = w, fr_data = d\<rparr>"
  by (auto simp: build_3e_response_header_def res_simps route_fields_iff frame_ok_def frame_bytes_def subheader_def slmp_consts
      length_word_range simp del: le_bytes.simps)

lemma response_4e: "bnd (build_4e_response_header s r (2 + int (length d)) w) (\<lambda>h. Inr (h @ d)) = Inr bs \<longleftrightarrow>
    frame_ok \<lparr>fr_response = True, fr_serial = Some s, fr_route = r, fr_word = w, fr_data = d\<rparr>
    \<and> bs = frame_bytes \<lparr>fr_response = True, fr_serial = Some s, fr_route = r, fr_word = w, fr_data = d\<rparr>"
  by (auto simp: build_4e_response_header_def res_simps route_fields_iff frame_ok_def frame_bytes_def subheader_def slmp_consts
      length_word_range in_range_def [of 2 False s] simp del: le_bytes.simps split: if_splits)

lemma request_3e: "build_slmp_3e_frame d r w = Inr bs \<longleftrightarrow>
    frame_ok \<lparr>fr_response = False, fr_serial = None, fr_route = r, fr_word = w, fr_data = d\<rparr>
    \<and> bs = frame_bytes \<lparr>fr_response = False, fr_serial = None, fr_route = r, fr_word = w, fr_data = d\<rparr>"
  by (auto simp: build_slmp_3e_frame_def build_3e_request_header_def res_simps route_fields_iff frame_ok_def frame_bytes_def
      subheader_def slmp_consts length_word_range simp del: le_bytes.simps)

lemma request_4e: "build_slmp_4e_frame d s r w = Inr bs \<longleftrightarrow>
    frame_ok \<lparr>fr_response = False, fr_serial = Some s, fr_route = r, fr_word = w, fr_data = d\<rparr>
    \<and> bs = frame_bytes \<lparr>fr_response = False, fr_serial = Some s, fr_route = r, fr_word = w, fr_data = d\<rparr>"
  by (auto simp: build_slmp_4e_frame_def build_4e_request_header_def res_simps route_fields_iff frame_ok_def frame_bytes_def
      subheader_def slmp_consts length_word_range in_range_def [of 2 False s] simp del: le_bytes.simps split: if_splits)

lemma frame_bytes_nonempty [simp]: "frame_bytes f \<noteq> []"
  by (simp add: frame_bytes_def be_bytes_def numeral_2_eq_2)

section \<open>Commands as the receiver reads them\<close>

definition command_of :: "bytes \<Rightarrow> int" where
  "command_of s = le_val (slice 0 2 s)"

definition subcommand_of :: "bytes \<Rightarrow> int" where
  "subcommand_of s = le_val (slice 2 4 s)"

text \<open>Device number (24 bits), device code and number of points of a batch command.\<close>

definition batch_of :: "bytes \<Rightarrow> int \<times> int \<times> int" where
  "batch_of s = (le_val (slice 4 7 s), le_val (slice 7 8 s), le_val (slice 8 10 s))"

lemma take_3_le: "take 3 (le_bytes 4 v) = le_bytes 3 v"
  by (simp add: numeral_eq_Suc)

lemma device_address_iff:
  "build_device_address c a = Inr bs \<longleftrightarrow>
     in_range 4 False a \<and> in_range 1 False c \<and> bs = le_bytes 3 a @ le_bytes 1 c"
  by (auto simp: build_device_address_def res_simps py_byte_eq_Inr in_range_def take_3_le split: if_splits)

lemma batch_slices:
  assumes "length a = 2" "length b = 2" "length c = 3" "length d = 1" "length e = 2"
  shows "slice 0 2 (a @ b @ c @ d @ e @ f) = a" "slice 2 4 (a @ b @ c @ d @ e @ f) = b"
    "slice 4 7 (a @ b @ c @ d @ e @ f) = c" "slice 7 8 (a @ b @ c @ d @ e @ f) = d"
    "slice 8 10 (a @ b @ c @ d @ e @ f) = e" "drop 10 (a @ b @ c @ d @ e @ f) = f"
  using assms by (simp_all add: slice_def)

text \<open>
  C22: batch commands on the wire. From the frame of a batch read or write, 3E or 4E, with anything
  behind it, a receiver takes the frame with its route, serial number and timer, and reads from
  it command, subcommand, device code, number of points and, for a write, the data; of the device
  number it gets the lower 24 bits, although the builder accepts 32.
\<close>

theorem slmp_batch_roundtrip:
  assumes "build_batch_read_command c a n bits = Inr rd" and "build_batch_write_command c a data bits = Inr wr"
    and "build_slmp_3e_frame rd r timer = Inr rframe" and "build_slmp_4e_frame wr s r timer = Inr wframe"
  shows "\<exists>q p. parse_slmp (rframe @ rest) = Some (q, rest) \<and> fr_serial q = None \<and> fr_route q = r \<and> fr_word q = timer
      \<and> command_of (fr_data q) = 0x0401 \<and> subcommand_of (fr_data q) = (if bits then 1 else 0)
      \<and> batch_of (fr_data q) = (a mod 2 ^ 24, c, n) \<and> length (fr_data q) = 10
    \<and> parse_slmp (wframe @ rest) = Some (p, rest) \<and> fr_serial p = Some s \<and> fr_route p = r \<and> fr_word p = timer
      \<and> command_of (fr_data p) = 0x1401 \<and> subcommand_of (fr_data p) = (if bits then 1 else 0)
      \<and> batch_of (fr_data p) = (a mod 2 ^ 24, c, int (if bits then length data else length data div 2)) \<and> drop 10 (fr_data p) = data"
proof -
  let ?sub = "if bits then 1 else 0 :: int"
  have rd: "rd = le_bytes 2 0x0401 @ le_bytes 2 ?sub @ le_bytes 3 a @ le_bytes 1 c @ le_bytes 2 n @ []" "in_range 1 False c" "in_range 2 False n"
    using assms(1) by (auto simp: build_batch_read_command_def slmp_consts Let_def res_simps device_address_iff in_range_def
        simp del: le_bytes.simps split: if_splits)
  define pts where "pts = int (if bits then length data else length data div 2)"
  have wr: "wr = le_bytes 2 0x1401 @ le_bytes 2 ?sub @ le_bytes 3 a @ le_bytes 1 c @ le_bytes 2 pts @ data" "in_range 2 False pts"
    using assms(2) unfolding build_batch_write_command_def Let_def pts_def [symmetric]
    by (auto simp: slmp_consts res_simps device_address_iff in_range_def simp del: le_bytes.simps split: if_splits)
  note sl = batch_slices [of "le_bytes 2 _" "le_bytes 2 _" "le_bytes 3 _" "le_bytes 1 _" "le_bytes 2 _",
      OF length_le_bytes length_le_bytes length_le_bytes length_le_bytes length_le_bytes]
  have "command_of rd = 0x0401 \<and> subcommand_of rd = ?sub \<and> batch_of rd = (a mod 2 ^ 24, c, n) \<and> length rd = 10"
    unfolding command_of_def subcommand_of_def batch_of_def rd(1) sl using rd(2,3) by (simp add: in_range_def del: le_bytes.simps)
  moreover have "command_of wr = 0x1401 \<and> subcommand_of wr = ?sub \<and> batch_of wr = (a mod 2 ^ 24, c, pts) \<and> drop 10 wr = data"
    unfolding command_of_def subcommand_of_def batch_of_def wr(1) sl using rd(2) wr(2) by (simp add: in_range_def del: le_bytes.simps)
  ultimately show ?thesis
    using assms(3,4) parse_frame_bytes unfolding pts_def [symmetric] by (auto simp: request_3e request_4e)
qed

definition demo_route :: slmp_route where
  "demo_route = \<lparr>network_number = 0, pc_number = 0xFF, dest_module_io = 0x03FF, dest_module_station = 0\<rparr>"

lemma le_bytes_2_4:
  "le_bytes 2 v = [word_of_int v, word_of_int (v div 256)]"
  "le_bytes 4 v = [word_of_int v, word_of_int (v div 256), word_of_int (v div 256 div 256), word_of_int (v div 256 div 256 div 256)]"
  by (simp_all add: numeral_eq_Suc)

theorem slmp_batch_roundtrip_witness:
  "\<exists>rframe q. build_slmp_3e_frame [0x01, 0x04, 0, 0, 0x64, 0, 0, 0xA8, 10, 0] demo_route 10 = Inr rframe
     \<and> parse_slmp (rframe @ []) = Some (q, []) \<and> batch_of (fr_data q) = (100, 0xA8, 10)"
proof -
  have "build_batch_read_command 0xA8 100 10 False = Inr [0x01, 0x04, 0, 0, 0x64, 0, 0, 0xA8, 10, 0]"
      "build_batch_write_command 0xA8 100 [1, 2] False = Inr [0x01, 0x14, 0, 0, 0x64, 0, 0, 0xA8, 1, 0, 1, 2]"
    by (simp_all add: build_batch_read_command_def build_batch_write_command_def build_device_address_def slmp_consts le_bytes_2_4
        cong: bnd_weak_cong)
  moreover obtain rframe wframe where
      "build_slmp_3e_frame [0x01, 0x04, 0, 0, 0x64, 0, 0, 0xA8, 10, 0] demo_route 10 = Inr rframe"
      "build_slmp_4e_frame [0x01, 0x14, 0, 0, 0x64, 0, 0, 0xA8, 1, 0, 1, 2] 7 demo_route 10 = Inr wframe"
    by (simp add: request_3e request_4e frame_ok_def demo_route_def in_range_def)
  ultimately show ?thesis
    using slmp_batch_roundtrip [of "0xA8" 100 10 False _ "[1, 2]" _ demo_route 10 rframe 7 wframe "[]"] by auto
qed

end
