(* ===== verification/SlmpEngine.thy ===== *)
theory SlmpEngine
  imports Slmp
begin

text \<open>
  \<open>backend/app/protocol_engines/slmp/engine.py\<close>: the conversation of an SLMP client and a MELSEC
  PLC: handshake, one exchange per poll, and the closing handshake.

  The values of \<open>flow.config\<close> are the fields of \<open>slmp_config\<close> (\<open>None\<close>: the key is missing) with the
  types that \<open>validate_config\<close> expects; the random draws of a poll are the fields of \<open>slmp_draws\<close>.
  The times and the metadata of the events, but for their type, are left out.  \<open>wire\<close> is scapy's
  \<open>bytes(packet)\<close>, with which every builder of \<open>packets.py\<close> ends: where it raises, so does the engine.
\<close>

section \<open>State\<close>

record slmp_conv =
  serial_number :: int
  conv_route :: slmp_route
  frame_type :: string
  tcp_seq_client :: int
  tcp_seq_server :: int
  tcp_ack_client :: int
  tcp_ack_server :: int
  is_connected :: bool
  conv_state :: string
  last_command :: int

record slmp_config =
  cfg_frame_type :: "string option"
  cfg_network_number :: "int option"
  cfg_pc_number :: "int option"
  cfg_dest_module_io :: "int option"
  cfg_dest_module_station :: "int option"
  cfg_command_type :: "string option"
  cfg_device_code :: "int option"
  cfg_start_address :: "int option"
  cfg_num_points :: "int option"
  cfg_bit_access :: "bool option"
  cfg_write_data :: "bytes option"
  cfg_forced_run :: "bool option"

record slmp_flow =
  source :: device
  destination :: device
  dst_model :: "string option"
  config :: slmp_config
  wire :: "layers \<Rightarrow> bytes res"

record slmp_draws =
  bit_draw :: "nat \<Rightarrow> bool"
  word_draw :: "nat \<Rightarrow> int"

abbreviation or_else :: "'a option \<Rightarrow> 'a \<Rightarrow> 'a" where
  "or_else x d \<equiv> (case x of Some v \<Rightarrow> v | None \<Rightarrow> d)"

definition create_initial_state :: "slmp_flow \<Rightarrow> int \<Rightarrow> int \<Rightarrow> int \<Rightarrow> slmp_conv" where
  "create_initial_state f serial client_isn server_isn =
     (let c = config f
      in \<lparr>serial_number = serial,
          conv_route = \<lparr>network_number = or_else (cfg_network_number c) 0, pc_number = or_else (cfg_pc_number c) 0xFF,
            dest_module_io = or_else (cfg_dest_module_io c) 0x03FF, dest_module_station = or_else (cfg_dest_module_station c) 0\<rparr>,
          frame_type = or_else (cfg_frame_type c) ''3e'', tcp_seq_client = client_isn, tcp_seq_server = server_isn,
          tcp_ack_client = 0, tcp_ack_server = 0, is_connected = False, conv_state = ''idle'', last_command = 0\<rparr>)"

definition next_serial :: "slmp_conv \<Rightarrow> int \<times> slmp_conv" where
  "next_serial st = (serial_number st, st\<lparr>serial_number := (serial_number st + 1) AND 0xFFFF\<rparr>)"

definition event :: "bool \<Rightarrow> layers \<Rightarrow> string \<Rightarrow> packet_event" where
  "event client l k = \<lparr>segment = Some l, from_client = client, kind = k\<rparr>"

definition send :: "slmp_flow \<Rightarrow> bool \<Rightarrow> layers \<Rightarrow> string \<Rightarrow> packet_event res" where
  "send f client packet k = bnd (wire f packet) (\<lambda>_. Inr (event client packet k))"

lemma slmp_send_Inr [res_simps]: "send f c l k = Inr e \<longleftrightarrow> is_ok (wire f l) \<and> e = event c l k"
  by (auto simp: send_def is_ok_iff res_simps)

section \<open>Startup\<close>

text \<open>
  A call with arguments of these names: one that is no parameter is a \<open>TypeError\<close>.
  \<open>build_tcp_handshake_syn_ack\<close> of \<open>packets.py\<close> has four parameters, and the engine calls it with
  \<open>tcp_options\<close> too. \<open>get_tcp_options\<close> before that only reads a dictionary with defaults.
\<close>

definition call_with :: "string list \<Rightarrow> string list \<Rightarrow> 'a \<Rightarrow> 'a res" where
  "call_with params keywords v = (if set keywords \<subseteq> set params then Inr v else Inl TypeError)"

definition SYN_ACK_PARAMS :: "string list" where
  "SYN_ACK_PARAMS = [''src'', ''dst'', ''seq'', ''ack'']"

text \<open>The events that the generator yields, and how it ends.\<close>

definition startup_sequence :: "slmp_flow \<Rightarrow> slmp_conv \<Rightarrow> packet_event list \<times> slmp_conv res" where
  "startup_sequence f st =
     (let client_seq = tcp_seq_client st; server_seq = tcp_seq_server st
      in case send f True (build_tcp_handshake_syn (source f) (destination f) client_seq) ''tcp_syn'' of
           Inl e \<Rightarrow> ([], Inl e)
         | Inr syn \<Rightarrow>
      (case bnd (call_with SYN_ACK_PARAMS [''src'', ''dst'', ''seq'', ''ack'', ''tcp_options'']
                  (build_tcp_handshake_syn_ack (destination f) (source f) server_seq (client_seq + 1)))
             (\<lambda>packet. send f False packet ''tcp_syn_ack'') of
           Inl e \<Rightarrow> ([syn], Inl e)
         | Inr syn_ack \<Rightarrow>
      (case send f True (build_tcp_handshake_ack (source f) (destination f) (client_seq + 1) (server_seq + 1)) ''tcp_ack'' of
           Inl e \<Rightarrow> ([syn, syn_ack], Inl e)
         | Inr ack \<Rightarrow>
             ([syn, syn_ack, ack],
              Inr (st\<lparr>tcp_seq_client := client_seq + 1, tcp_seq_server := server_seq + 1,
                      tcp_ack_client := server_seq + 1, tcp_ack_server := client_seq + 1,
                      is_connected := True, conv_state := ''connected''\<rparr>)))))"

section \<open>A poll\<close>

text \<open>
  The destination module: a batch read uses that of the state in its frames, the other commands
  leave it at the default.
\<close>

definition default_module :: "slmp_route \<Rightarrow> slmp_route" where
  "default_module r = r\<lparr>dest_module_io := 0x03FF, dest_module_station := 0\<rparr>"

definition request_frame :: "slmp_route \<Rightarrow> bytes \<Rightarrow> slmp_conv \<Rightarrow> (bytes \<times> int option \<times> slmp_conv) res" where
  "request_frame r command_data st =
     (if frame_type st = ''4e'' then
        let (serial, st) = next_serial st
        in bnd (build_slmp_4e_frame command_data serial r 0x000A) (\<lambda>slmp_frame. Inr (slmp_frame, Some serial, st))
      else bnd (build_slmp_3e_frame command_data r 0x000A) (\<lambda>slmp_frame. Inr (slmp_frame, None, st)))"

definition response_header :: "slmp_route \<Rightarrow> int option \<Rightarrow> int \<Rightarrow> bytes res" where
  "response_header r serial data_length =
     (case serial of
        Some s \<Rightarrow> build_4e_response_header s r data_length END_NORMAL
      | None \<Rightarrow> build_3e_response_header r data_length END_NORMAL)"

definition exchange ::
    "slmp_flow \<Rightarrow> slmp_route \<Rightarrow> int \<Rightarrow> string \<Rightarrow> bytes \<Rightarrow> bytes res \<Rightarrow> slmp_conv \<Rightarrow> (packet_event list \<times> slmp_conv) res" where
  "exchange f r command name command_data answer st =
     bnd (request_frame r command_data st) (\<lambda>(slmp_frame, serial, st).
     let st = st\<lparr>last_command := command\<rparr>;
         client_seq = tcp_seq_client st; server_seq = tcp_seq_server st
     in bnd (send f True (build_slmp_tcp_packet (source f) (destination f) slmp_frame client_seq server_seq)
               (name @ ''_request'')) (\<lambda>request.
        bnd answer (\<lambda>response_data.
        bnd (response_header r serial (2 + int (length response_data))) (\<lambda>header.
        let response_frame = header @ response_data;
            client_seq_after = client_seq + int (length slmp_frame)
        in bnd (send f False (build_slmp_tcp_packet (destination f) (source f) response_frame server_seq client_seq_after)
                  (name @ ''_response'')) (\<lambda>response.
           Inr ([request, response],
                st\<lparr>tcp_seq_client := client_seq_after, tcp_seq_server := server_seq + int (length response_frame)\<rparr>))))))"

definition bit_data :: "slmp_draws \<Rightarrow> int \<Rightarrow> bytes" where
  "bit_data d num_points = map (\<lambda>i. if bit_draw d i then 1 else 0) [0..<nat num_points]"

definition generate_word_data :: "slmp_draws \<Rightarrow> int \<Rightarrow> bytes" where
  "generate_word_data d num_words = concat (map (\<lambda>i. le_bytes 2 ((int i * 100 + word_draw d i) AND 0xFFFF)) [0..<nat num_words])"

definition generate_batch_read :: "slmp_flow \<Rightarrow> slmp_draws \<Rightarrow> slmp_conv \<Rightarrow> (packet_event list \<times> slmp_conv) res" where
  "generate_batch_read f d st =
     (let c = config f;
          device_code = or_else (cfg_device_code c) 0xA8;
          start_address = or_else (cfg_start_address c) 0;
          num_points = or_else (cfg_num_points c) 10;
          bit_access = or_else (cfg_bit_access c) False
      in bnd (build_batch_read_command device_code start_address num_points bit_access) (\<lambda>command_data.
         exchange f (conv_route st) BATCH_READ ''slmp_batch_read'' command_data
           (Inr (if bit_access then bit_data d num_points else generate_word_data d num_points)) st))"

definition generate_batch_write :: "slmp_flow \<Rightarrow> slmp_draws \<Rightarrow> slmp_conv \<Rightarrow> (packet_event list \<times> slmp_conv) res" where
  "generate_batch_write f d st =
     (let c = config f;
          device_code = or_else (cfg_device_code c) 0xA8;
          start_address = or_else (cfg_start_address c) 0;
          bit_access = or_else (cfg_bit_access c) False;
          write_data =
            (case cfg_write_data c of
               Some data \<Rightarrow> data
             | None \<Rightarrow>
                 let num_points = or_else (cfg_num_points c) 5
                 in if bit_access then bit_data d num_points else generate_word_data d num_points)
      in bnd (build_batch_write_command device_code start_address write_data bit_access) (\<lambda>command_data.
         exchange f (default_module (conv_route st)) BATCH_WRITE ''slmp_batch_write'' command_data (Inr []) st))"

text \<open>\<open>model.encode("ascii")[:16].ljust(16, b" ")\<close>\<close>

definition model_bytes :: "string \<Rightarrow> bytes res" where
  "model_bytes m =
     (if list_all (\<lambda>c. (of_char c :: nat) < 128) m
      then let b = take 16 (map (\<lambda>c. of_char c :: byte) m) in Inr (b @ replicate (16 - length b) 0x20)
      else Inl UnicodeEncodeError)"

definition generate_cpu_model_read :: "slmp_flow \<Rightarrow> slmp_conv \<Rightarrow> (packet_event list \<times> slmp_conv) res" where
  "generate_cpu_model_read f st =
     bnd build_read_cpu_model_command (\<lambda>command_data.
     let model = (case dst_model f of Some m \<Rightarrow> if m = [] then ''Q06UDVCPU'' else m | None \<Rightarrow> ''Q06UDVCPU'')
     in exchange f (default_module (conv_route st)) READ_CPU_MODEL ''slmp_cpu_model'' command_data (model_bytes model) st)"

definition generate_cpu_state_read :: "slmp_flow \<Rightarrow> slmp_conv \<Rightarrow> (packet_event list \<times> slmp_conv) res" where
  "generate_cpu_state_read f st =
     bnd build_read_cpu_state_command (\<lambda>command_data.
     exchange f (default_module (conv_route st)) READ_CPU_STATE ''slmp_cpu_state'' command_data (py_bytes [0x01]) st)"

definition generate_remote_run :: "slmp_flow \<Rightarrow> slmp_conv \<Rightarrow> (packet_event list \<times> slmp_conv) res" where
  "generate_remote_run f st =
     bnd (build_remote_run_command (or_else (cfg_forced_run (config f)) False) 0) (\<lambda>command_data.
     exchange f (default_module (conv_route st)) REMOTE_RUN ''slmp_remote_run'' command_data (Inr []) st)"

definition generate_remote_stop :: "slmp_flow \<Rightarrow> slmp_conv \<Rightarrow> (packet_event list \<times> slmp_conv) res" where
  "generate_remote_stop f st =
     bnd build_remote_stop_command (\<lambda>command_data.
     exchange f (default_module (conv_route st)) REMOTE_STOP ''slmp_remote_stop'' command_data (Inr []) st)"

definition slmp_poll_cycle :: "slmp_flow \<Rightarrow> slmp_draws \<Rightarrow> slmp_conv \<Rightarrow> (packet_event list \<times> slmp_conv) res" where
  "slmp_poll_cycle f d st =
     (let command_type = or_else (cfg_command_type (config f)) ''batch_read''
      in if command_type = ''batch_read'' then generate_batch_read f d st
         else if command_type = ''batch_write'' then generate_batch_write f d st
         else if command_type = ''cpu_model'' then generate_cpu_model_read f st
         else if command_type = ''cpu_state'' then generate_cpu_state_read f st
         else if command_type = ''remote_run'' then generate_remote_run f st
         else if command_type = ''remote_stop'' then generate_remote_stop f st
         else generate_batch_read f d st)"

fun slmp_polls :: "slmp_flow \<Rightarrow> slmp_draws list \<Rightarrow> slmp_conv \<Rightarrow> (packet_event list \<times> slmp_conv) res" where
  "slmp_polls f [] st = Inr ([], st)"
| "slmp_polls f (d # ds) st =
     bnd (slmp_poll_cycle f d st) (\<lambda>(evs, st). bnd (slmp_polls f ds st) (\<lambda>(evs', st). Inr (evs @ evs', st)))"

section \<open>Shutdown\<close>

definition shutdown_sequence :: "slmp_flow \<Rightarrow> slmp_conv \<Rightarrow> (packet_event list \<times> slmp_conv) res" where
  "shutdown_sequence f st =
     (let client_seq = tcp_seq_client st; server_seq = tcp_seq_server st
      in bnd (send f True (slmp_tcp_fin (source f) (destination f) client_seq server_seq) ''tcp_fin'') (\<lambda>fin.
         bnd (send f False (slmp_tcp_fin (destination f) (source f) server_seq (client_seq + 1)) ''tcp_fin_ack'') (\<lambda>fin_ack.
         bnd (send f True (build_tcp_handshake_ack (source f) (destination f) (client_seq + 1) (server_seq + 1)) ''tcp_ack'') (\<lambda>ack.
         Inr ([fin, fin_ack, ack], st\<lparr>is_connected := False, conv_state := ''disconnected''\<rparr>)))))"

section \<open>One exchange\<close>

definition exchange_serial :: "slmp_conv \<Rightarrow> int option" where
  "exchange_serial st = (if frame_type st = ''4e'' then Some (serial_number st) else None)"

definition after_serial :: "slmp_conv \<Rightarrow> int" where
  "after_serial st = (if frame_type st = ''4e'' then (serial_number st + 1) mod 65536 else serial_number st)"

definition request_of :: "slmp_route \<Rightarrow> bytes \<Rightarrow> slmp_conv \<Rightarrow> slmp_frame" where
  "request_of r cmd st = \<lparr>fr_response = False, fr_serial = exchange_serial st, fr_route = r, fr_word = 0x000A, fr_data = cmd\<rparr>"

definition response_of :: "slmp_route \<Rightarrow> bytes \<Rightarrow> slmp_conv \<Rightarrow> slmp_frame" where
  "response_of r data st = \<lparr>fr_response = True, fr_serial = exchange_serial st, fr_route = r, fr_word = 0, fr_data = data\<rparr>"

lemma request_frame_iff:
  "request_frame r cmd st = Inr (bs, s, st1) \<longleftrightarrow>
     frame_ok (request_of r cmd st) \<and> bs = frame_bytes (request_of r cmd st) \<and> s = exchange_serial st
     \<and> st1 = st\<lparr>serial_number := after_serial st\<rparr>"
  by (auto simp: request_frame_def next_serial_def request_3e request_4e res_simps request_of_def exchange_serial_def
      after_serial_def and_mask_16)

lemma response_header_iff:
  "bnd (response_header r (exchange_serial st) (2 + int (length data))) (\<lambda>h. Inr (h @ data)) = Inr bs \<longleftrightarrow>
     frame_ok (response_of r data st) \<and> bs = frame_bytes (response_of r data st)"
  by (cases "frame_type st = ''4e''")
    (simp_all add: response_header_def exchange_serial_def response_of_def response_3e response_4e END_NORMAL_def)

lemma data_of_slmp [simp]:
  "data_of side (event c (build_slmp_tcp_packet src dst p s a) k # evs) = (if c = side then [(s, p)] else []) @ data_of side evs"
  by (auto simp: data_of_def event_def build_slmp_tcp_packet_def slmp_layers_def)

definition exchanged :: "slmp_route \<Rightarrow> bytes \<Rightarrow> bytes \<Rightarrow> slmp_conv \<Rightarrow> packet_event list \<Rightarrow> slmp_conv \<Rightarrow> bool" where
  "exchanged r cmd data st evs st' \<longleftrightarrow>
     frame_ok (request_of r cmd st) \<and> frame_ok (response_of r data st)
     \<and> data_of True evs = [(tcp_seq_client st, frame_bytes (request_of r cmd st))]
     \<and> data_of False evs = [(tcp_seq_server st, frame_bytes (response_of r data st))]
     \<and> tcp_seq_client st' = tcp_seq_client st + int (length (frame_bytes (request_of r cmd st)))
     \<and> tcp_seq_server st' = tcp_seq_server st + int (length (frame_bytes (response_of r data st)))
     \<and> conv_route st' = conv_route st \<and> frame_type st' = frame_type st \<and> serial_number st' = after_serial st"

lemma exchange_exchanged:
  assumes "exchange f r c name cmd answer st = Inr (evs, st')"
  obtains data where "answer = Inr data" "exchanged r cmd data st evs st'"
proof -
  obtain bs s st1 where req: "request_frame r cmd st = Inr (bs, s, st1)"
    using assms by (auto simp: exchange_def res_simps)
  then obtain data h where resp: "answer = Inr data" "response_header r (exchange_serial st) (2 + int (length data)) = Inr h"
    and e: "evs = [event True (build_slmp_tcp_packet (source f) (destination f) bs (tcp_seq_client st) (tcp_seq_server st)) (name @ ''_request''),
        event False (build_slmp_tcp_packet (destination f) (source f) (h @ data) (tcp_seq_server st)
          (tcp_seq_client st + int (length bs))) (name @ ''_response'')]"
    and s: "st' = st\<lparr>serial_number := after_serial st, last_command := c, tcp_seq_client := tcp_seq_client st + int (length bs),
        tcp_seq_server := tcp_seq_server st + int (length (h @ data))\<rparr>"
    using assms by (auto simp: exchange_def res_simps request_frame_iff Let_def)
  have "frame_ok (response_of r data st)" "h @ data = frame_bytes (response_of r data st)"
    using response_header_iff [of r st data "h @ data"] resp(2) by simp_all
  then show ?thesis
    using that [of data] req resp(1) by (simp add: exchanged_def request_frame_iff e s del: append_is_Nil_conv)
qed

text \<open>
  An exchange sends frames of at most 4000 octets, which leaves room in the sequence numbers.
\<close>

definition seq_room :: "int \<Rightarrow> slmp_conv \<Rightarrow> bool" where
  "seq_room n st \<longleftrightarrow> 0 \<le> tcp_seq_client st \<and> tcp_seq_client st + n < 2 ^ 32
     \<and> 0 \<le> tcp_seq_server st \<and> tcp_seq_server st + n < 2 ^ 32"

lemma slmp_port_fits: "device_fits d \<Longrightarrow> fits 16 (slmp_port d)"
  by (auto simp: slmp_port_def SLMP_PORT_def device_fits_def fits_def)

lemma wire_total:
  assumes "link_ok w a b" and "fits 32 s" "fits 32 k" and "length p \<le> 65455"
  shows "is_ok (w (build_slmp_tcp_packet a b p s k))"
proof -
  have "segment_fits (build_slmp_tcp_packet a b p s k)"
    using assms slmp_port_fits
    by (simp add: segment_fits_def build_slmp_tcp_packet_def slmp_layers_def link_ok_def) (simp add: fits_def)
  then show ?thesis
    using assms(1) by (simp add: link_ok_def scapy_serialises_def build_slmp_tcp_packet_def slmp_layers_def)
qed

lemma slmp_exchange_total:
  assumes "frame_ok (request_of r cmd st)" and "frame_ok (response_of r data st)"
    and "link_ok (wire f) (source f) (destination f)" and "0 \<le> n" "seq_room (n + 4000) st"
    and "length (frame_bytes (request_of r cmd st)) \<le> 4000" "length (frame_bytes (response_of r data st)) \<le> 4000"
  shows "\<exists>evs st'. exchange f r c name cmd (Inr data) st = Inr (evs, st') \<and> seq_room n st'"
proof -
  let ?q = "frame_bytes (request_of r cmd st)" and ?p = "frame_bytes (response_of r data st)"
  have req: "request_frame r cmd st = Inr (?q, exchange_serial st, st\<lparr>serial_number := after_serial st\<rparr>)"
    using assms(1) by (simp add: request_frame_iff)
  obtain h where h: "response_header r (exchange_serial st) (2 + int (length data)) = Inr h" "h @ data = ?p"
    using response_header_iff [of r st data ?p] assms(2) by (auto simp: res_simps)
  have "fits 32 (tcp_seq_client st)" "fits 32 (tcp_seq_server st)" "fits 32 (tcp_seq_client st + int (length ?q))"
    using assms(4-6) by (auto simp: seq_room_def fits_def)
  then have "is_ok (wire f (build_slmp_tcp_packet (source f) (destination f) ?q (tcp_seq_client st) (tcp_seq_server st)))"
    "is_ok (wire f (build_slmp_tcp_packet (destination f) (source f) ?p (tcp_seq_server st) (tcp_seq_client st + int (length ?q))))"
    using assms(6,7) by (intro wire_total link_ok_sym [OF assms(3)] assms(3); simp)+
  then obtain x y where
    "wire f (build_slmp_tcp_packet (source f) (destination f) ?q (tcp_seq_client st) (tcp_seq_server st)) = Inr x"
    "wire f (build_slmp_tcp_packet (destination f) (source f) ?p (tcp_seq_server st) (tcp_seq_client st + int (length ?q))) = Inr y"
    unfolding is_ok_iff by blast
  moreover have "length h + length data = length ?p" using h(2) by (metis length_append)
  ultimately show ?thesis
    using assms(4-7) req h by (simp add: exchange_def Let_def send_def seq_room_def)
qed

section \<open>Polls\<close>

text \<open>What the configuration must look like for every poll to be answered.\<close>

definition route_ok :: "slmp_route \<Rightarrow> bool" where
  "route_ok r \<longleftrightarrow> in_range 1 False (network_number r) \<and> in_range 1 False (pc_number r)
     \<and> in_range 2 False (dest_module_io r) \<and> in_range 1 False (dest_module_station r)"

definition config_ok :: "slmp_flow \<Rightarrow> bool" where
  "config_ok f \<longleftrightarrow>
     (case cfg_device_code (config f) of Some c \<Rightarrow> in_range 1 False c | None \<Rightarrow> True)
     \<and> (case cfg_start_address (config f) of Some a \<Rightarrow> in_range 4 False a | None \<Rightarrow> True)
     \<and> (case cfg_num_points (config f) of Some n \<Rightarrow> 0 \<le> n \<and> n \<le> 960 | None \<Rightarrow> True)
     \<and> (case cfg_write_data (config f) of Some d \<Rightarrow> length d \<le> 1920 | None \<Rightarrow> True)
     \<and> (case dst_model f of Some m \<Rightarrow> list_all (\<lambda>c. (of_char c :: nat) < 128) m | None \<Rightarrow> True)"

definition ready :: "slmp_conv \<Rightarrow> bool" where
  "ready st \<longleftrightarrow> route_ok (conv_route st) \<and> in_range 2 False (serial_number st)"

lemma length_generated:
  "length (bit_data d n) = nat n" "length (generate_word_data d n) = 2 * nat n"
  by (simp_all add: bit_data_def generate_word_data_def length_concat comp_def sum_list_triv)

lemma ready_frames:
  assumes "ready st" and "length cmd \<le> 3900" and "length data \<le> 3900"
  shows "frame_ok (request_of (conv_route st) cmd st)" "frame_ok (response_of (conv_route st) data st)"
    "frame_ok (request_of (default_module (conv_route st)) cmd st)"
    "frame_ok (response_of (default_module (conv_route st)) data st)"
  using assms by (simp_all add: ready_def route_ok_def frame_ok_def request_of_def response_of_def exchange_serial_def default_module_def
      in_range_def)

lemma frame_length: "length (fr_data q) \<le> 3900 \<Longrightarrow> length (frame_bytes q) \<le> 4000"
  by (simp add: frame_bytes_def split: option.split)

lemma ready_exchange:
  assumes "ready st" and "link_ok (wire f) (source f) (destination f)" and "0 \<le> n" "seq_room (n + 4000) st"
    and "length cmd \<le> 3900" "length data \<le> 3900" and "r = conv_route st \<or> r = default_module (conv_route st)"
  obtains evs st' where "exchange f r c name cmd (Inr data) st = Inr (evs, st')" "seq_room n st'"
proof -
  have "frame_ok (request_of r cmd st)" "frame_ok (response_of r data st)"
    using ready_frames [OF assms(1,5,6)] assms(7) by auto
  then show ?thesis
    using that slmp_exchange_total [OF _ _ assms(2-4), of r cmd data c name] frame_length assms(5,6)
    by (fastforce simp: request_of_def response_of_def)
qed

lemma slmp_poll_exchanged:
  assumes "slmp_poll_cycle f d st = Inr (evs, st')"
  obtains r cmd data where "exchanged r cmd data st evs st'"
  using assms
  by (auto simp: slmp_poll_cycle_def generate_batch_read_def generate_batch_write_def generate_cpu_model_read_def
      generate_cpu_state_read_def generate_remote_run_def generate_remote_stop_def Let_def res_simps
      split: if_splits elim!: exchange_exchanged)

lemma read_command_total:
  assumes "in_range 1 False c" "in_range 4 False a" "0 \<le> n" "n \<le> 960"
  obtains cmd where "build_batch_read_command c a n b = Inr cmd" "length cmd \<le> 3900"
proof -
  obtain adr where adr: "build_device_address c a = Inr adr" "length adr = 4"
    using assms(1,2) device_address_iff [of c a] by simp
  then show ?thesis
    using that assms(3,4) by (cases b) (auto simp: build_batch_read_command_def slmp_consts Let_def)
qed

lemma write_command_total:
  assumes "in_range 1 False c" "in_range 4 False a" "length d \<le> 1920"
  obtains cmd where "build_batch_write_command c a d b = Inr cmd" "length cmd \<le> 3900"
proof -
  obtain adr where adr: "build_device_address c a = Inr adr" "length adr = 4"
    using assms(1,2) device_address_iff [of c a] by simp
  have "int (length d div 2) < 65536" "int (length d) < 65536" using assms(3) by linarith+
  then show ?thesis
    using that adr assms(3) by (cases b) (simp_all add: build_batch_write_command_def slmp_consts Let_def)
qed

lemma plain_command_total:
  assumes "c \<in> {REMOTE_STOP, READ_CPU_MODEL, READ_CPU_STATE}"
  obtains cmd where "plain_command c = Inr cmd" "length cmd \<le> 3900"
  using assms that by (auto simp: plain_command_def slmp_consts)

lemma remote_run_total:
  obtains cmd where "build_remote_run_command fr 0 = Inr cmd" "length cmd \<le> 3900"
  using that by (cases fr) (auto simp: build_remote_run_command_def slmp_consts)

lemma model_total:
  assumes "list_all (\<lambda>c. (of_char c :: nat) < 128) m"
  obtains b where "model_bytes m = Inr b" "length b \<le> 3900"
proof -
  have "length (take 16 (map (\<lambda>c. of_char c :: byte) m) @ replicate (16 - length (take 16 (map (\<lambda>c. of_char c :: byte) m))) 0x20) = 16"
    by simp
  then show ?thesis using that assms by (simp add: model_bytes_def Let_def)
qed

text \<open>An exchange that succeeds and leaves room for more.\<close>

definition done_with :: "int \<Rightarrow> (packet_event list \<times> slmp_conv) res \<Rightarrow> bool" where
  "done_with n run \<longleftrightarrow> (\<exists>evs st'. run = Inr (evs, st') \<and> seq_room n st')"

definition engine_ready :: "slmp_flow \<Rightarrow> slmp_conv \<Rightarrow> int \<Rightarrow> bool" where
  "engine_ready f st n \<longleftrightarrow>
     ready st \<and> config_ok f \<and> link_ok (wire f) (source f) (destination f) \<and> 0 \<le> n \<and> seq_room (n + 4000) st"

lemma exchange_done:
  assumes "engine_ready f st n" and "length cmd \<le> 3900" "length data \<le> 3900"
  shows "done_with n (exchange f (conv_route st) c name cmd (Inr data) st)"
    "done_with n (exchange f (default_module (conv_route st)) c name cmd (Inr data) st)"
  using assms ready_exchange [of st f n cmd data _ c name] unfolding engine_ready_def done_with_def by metis+

lemma config_ranges:
  assumes "engine_ready f st n"
  shows "in_range 1 False (or_else (cfg_device_code (config f)) 0xA8)" "in_range 4 False (or_else (cfg_start_address (config f)) 0)"
    and "0 \<le> k \<Longrightarrow> k \<le> 960 \<Longrightarrow> 0 \<le> or_else (cfg_num_points (config f)) k \<and> or_else (cfg_num_points (config f)) k \<le> 960"
  using assms by (auto simp: engine_ready_def config_ok_def in_range_def split: option.splits)

lemma generated_lengths:
  assumes "engine_ready f st n" and "0 \<le> k" "k \<le> 960"
  shows "length (bit_data d (or_else (cfg_num_points (config f)) k)) \<le> 1920"
    "length (generate_word_data d (or_else (cfg_num_points (config f)) k)) \<le> 1920"
  unfolding length_generated using config_ranges(3) [OF assms] by linarith+

lemma batch_read_done:
  assumes "engine_ready f st n"
  shows "done_with n (generate_batch_read f d st)"
proof -
  obtain cmd where "build_batch_read_command (or_else (cfg_device_code (config f)) 0xA8) (or_else (cfg_start_address (config f)) 0)
      (or_else (cfg_num_points (config f)) 10) (or_else (cfg_bit_access (config f)) False) = Inr cmd" "length cmd \<le> 3900"
    using read_command_total [OF config_ranges(1,2) [OF assms]] config_ranges(3) [OF assms, of 10] by auto
  then show ?thesis
    using generated_lengths [OF assms, of 10 d] by (simp add: generate_batch_read_def Let_def exchange_done(1) [OF assms])
qed

lemma batch_write_done:
  assumes "engine_ready f st n"
  shows "done_with n (generate_batch_write f d st)"
proof -
  let ?w = "case cfg_write_data (config f) of Some data \<Rightarrow> data
    | None \<Rightarrow> if or_else (cfg_bit_access (config f)) False then bit_data d (or_else (cfg_num_points (config f)) 5)
              else generate_word_data d (or_else (cfg_num_points (config f)) 5)"
  have "length ?w \<le> 1920"
    using generated_lengths [OF assms, of 5 d] assms by (auto simp: engine_ready_def config_ok_def split: option.split)
  then obtain cmd where "build_batch_write_command (or_else (cfg_device_code (config f)) 0xA8) (or_else (cfg_start_address (config f)) 0)
      ?w (or_else (cfg_bit_access (config f)) False) = Inr cmd" "length cmd \<le> 3900"
    using write_command_total [OF config_ranges(1,2) [OF assms]] by blast
  then show ?thesis
    unfolding generate_batch_write_def Let_def by (simp add: exchange_done(2) [OF assms])
qed

lemma cpu_model_done:
  assumes "engine_ready f st n"
  shows "done_with n (generate_cpu_model_read f st)"
proof -
  let ?m = "case dst_model f of Some m \<Rightarrow> if m = [] then ''Q06UDVCPU'' else m | None \<Rightarrow> ''Q06UDVCPU''"
  have "list_all (\<lambda>c. (of_char c :: nat) < 128) ?m"
    using assms by (auto simp: engine_ready_def config_ok_def split: option.split)
  then obtain b where "model_bytes ?m = Inr b" "length b \<le> 3900" by (rule model_total)
  moreover obtain cmd where "plain_command READ_CPU_MODEL = Inr cmd" "length cmd \<le> 3900"
    by (rule plain_command_total [of READ_CPU_MODEL]) simp_all
  ultimately show ?thesis
    by (simp add: generate_cpu_model_read_def build_read_cpu_model_command_def Let_def exchange_done(2) [OF assms])
qed

lemma slmp_poll_total:
  assumes "engine_ready f st n"
  shows "\<exists>evs st'. slmp_poll_cycle f d st = Inr (evs, st') \<and> seq_room n st'"
proof -
  have state: "done_with n (generate_cpu_state_read f st)"
    by (rule plain_command_total [of READ_CPU_STATE])
      (simp_all add: generate_cpu_state_read_def build_read_cpu_state_command_def exchange_done(2) [OF assms])
  have stop: "done_with n (generate_remote_stop f st)"
    by (rule plain_command_total [of REMOTE_STOP])
      (simp_all add: generate_remote_stop_def build_remote_stop_command_def exchange_done(2) [OF assms])
  have run: "done_with n (generate_remote_run f st)"
    by (rule remote_run_total [of "or_else (cfg_forced_run (config f)) False"])
      (simp add: generate_remote_run_def exchange_done(2) [OF assms])
  have "done_with n (slmp_poll_cycle f d st)"
    using batch_read_done [OF assms] batch_write_done [OF assms] cpu_model_done [OF assms] state stop run
    by (simp add: slmp_poll_cycle_def Let_def)
  then show ?thesis unfolding done_with_def .
qed

section \<open>The conversation\<close>

definition answered :: "slmp_conv \<Rightarrow> nat \<Rightarrow> slmp_frame \<Rightarrow> slmp_frame \<Rightarrow> bool" where
  "answered st i req resp \<longleftrightarrow>
     \<not> fr_response req \<and> fr_response resp \<and> fr_serial resp = fr_serial req \<and> fr_route resp = fr_route req \<and> fr_word resp = 0
     \<and> (if frame_type st = ''4e'' then fr_serial req = Some ((serial_number st + int i) mod 65536) else fr_serial req = None)"

lemma exchanged_answered: "exchanged r cmd data st evs st' \<Longrightarrow> answered st 0 (request_of r cmd st) (response_of r data st)"
  by (auto simp: exchanged_def answered_def request_of_def response_of_def exchange_serial_def frame_ok_def in_range_def)

lemma answered_Suc:
  assumes "answered st' i req resp" and "frame_type st' = frame_type st" and "serial_number st' = after_serial st"
  shows "answered st (Suc i) req resp"
proof -
  have "((serial_number st + 1) mod 65536 + int i) mod 65536 = (serial_number st + int (Suc i)) mod 65536"
    by (simp add: mod_simps ac_simps)
  with assms show ?thesis by (auto simp: answered_def after_serial_def)
qed

lemma slmp_polls_frames:
  "slmp_polls f ds st = Inr (evs, st') \<Longrightarrow>
     \<exists>reqs resps. length reqs = length ds \<and> length resps = length ds
       \<and> (\<forall>q \<in> set (reqs @ resps). frame_ok q) \<and> (\<forall>i < length ds. answered st i (reqs ! i) (resps ! i))
       \<and> data_of True evs = segments frame_bytes (tcp_seq_client st) reqs
       \<and> data_of False evs = segments frame_bytes (tcp_seq_server st) resps
       \<and> tcp_seq_client st' = tcp_seq_client st + stream_length frame_bytes reqs
       \<and> tcp_seq_server st' = tcp_seq_server st + stream_length frame_bytes resps"
proof (induction ds arbitrary: st evs)
  case Nil
  then show ?case by (intro exI [of _ "[]"]) simp
next
  case (Cons d ds)
  then obtain e1 st1 e2 where p: "slmp_poll_cycle f d st = Inr (e1, st1)" "slmp_polls f ds st1 = Inr (e2, st')" "evs = e1 @ e2"
    by (auto simp: res_simps)
  obtain r cmd data where x: "exchanged r cmd data st e1 st1"
    by (rule slmp_poll_exchanged [OF p(1)])
  obtain reqs resps where IH: "length reqs = length ds" "length resps = length ds" "\<forall>q \<in> set (reqs @ resps). frame_ok q"
      "\<forall>i < length ds. answered st1 i (reqs ! i) (resps ! i)"
      "data_of True e2 = segments frame_bytes (tcp_seq_client st1) reqs" "data_of False e2 = segments frame_bytes (tcp_seq_server st1) resps"
      "tcp_seq_client st' = tcp_seq_client st1 + stream_length frame_bytes reqs"
      "tcp_seq_server st' = tcp_seq_server st1 + stream_length frame_bytes resps"
    using Cons.IH [OF p(2)] by blast
  have "\<forall>i < length (d # ds). answered st i ((request_of r cmd st # reqs) ! i) ((response_of r data st # resps) ! i)"
    using IH(4) exchanged_answered [OF x] x answered_Suc [of st1 _ _ _ st]
    by (auto simp: exchanged_def less_Suc_eq_0_disj)
  then show ?case
    using IH x p(3)
    by (intro exI [of _ "request_of r cmd st # reqs"] exI [of _ "response_of r data st # resps"]) (simp add: exchanged_def)
qed

lemma slmp_polls_total:
  assumes "config_ok f" and "link_ok (wire f) (source f) (destination f)"
  shows "ready st \<Longrightarrow> seq_room (4000 * int (length ds)) st \<Longrightarrow> \<exists>evs st'. slmp_polls f ds st = Inr (evs, st')"
proof (induction ds arbitrary: st)
  case (Cons d ds)
  have "engine_ready f st (4000 * int (length ds))"
    using Cons.prems assms by (simp add: engine_ready_def algebra_simps)
  then obtain evs st1 where p: "slmp_poll_cycle f d st = Inr (evs, st1)" and room: "seq_room (4000 * int (length ds)) st1"
    using slmp_poll_total by blast
  obtain r cmd data where "exchanged r cmd data st evs st1"
    by (rule slmp_poll_exchanged [OF p])
  then have "ready st1"
    using Cons.prems(1) by (auto simp: exchanged_def ready_def after_serial_def in_range_def)
  with Cons.IH room obtain evs' st' where "slmp_polls f ds st1 = Inr (evs', st')" by blast
  with p show ?case by simp
qed simp

section \<open>The properties\<close>

text \<open>
  The connection is never established: the startup sequence ends after the client's SYN at the
  latest, with a \<open>TypeError\<close> if scapy serialised the SYN.
\<close>

theorem slmp_startup_raises:
  "\<exists>evs e. startup_sequence f st = (evs, Inl e) \<and> length evs \<le> 1 \<and> (evs \<noteq> [] \<longrightarrow> e = TypeError)"
  by (cases "send f True (build_tcp_handshake_syn (source f) (destination f) (tcp_seq_client st)) ''tcp_syn''")
    (simp_all add: startup_sequence_def call_with_def SYN_ACK_PARAMS_def Let_def)

text \<open>
  C20: the polls of an SLMP conversation. The state has its route and serial number in range and
  the configuration its values in the documented ranges, with a model name in ASCII; scapy
  serialises what fits its fields; and the sequence numbers, which the engine never reduces, stay
  below \<open>2 ^ 32\<close>: a poll adds at most 4000 to either, so from the initial numbers of at most
  9999 there is room for a million polls. Then every series of polls succeeds; following the
  sequence numbers, the PLC receives exactly one well-formed request for each poll and the client
  one response for each, with no octet left over; a response repeats the route of its request and
  carries end code 0, and in 4E frames both have the serial number of the poll, counted modulo 65536.
\<close>

theorem slmp_polls_answered:
  assumes "ready st" and "config_ok f" and "link_ok (wire f) (source f) (destination f)"
    and "0 \<le> tcp_seq_client st" "tcp_seq_client st + 4000 * int (length ds) < 2 ^ 32"
    and "0 \<le> tcp_seq_server st" "tcp_seq_server st + 4000 * int (length ds) < 2 ^ 32"
  shows "\<exists>evs st' reqs resps. slmp_polls f ds st = Inr (evs, st')
    \<and> parse_frames parse_slmp (length ds) (snd (receive (tcp_seq_client st) [] (data_of True evs))) = (reqs, [])
    \<and> parse_frames parse_slmp (length ds) (snd (receive (tcp_seq_server st) [] (data_of False evs))) = (resps, [])
    \<and> fst (receive (tcp_seq_client st) [] (data_of True evs)) = tcp_seq_client st'
    \<and> fst (receive (tcp_seq_server st) [] (data_of False evs)) = tcp_seq_server st'
    \<and> length reqs = length ds \<and> length resps = length ds \<and> (\<forall>i < length ds. answered st i (reqs ! i) (resps ! i))"
proof -
  obtain evs st' where run: "slmp_polls f ds st = Inr (evs, st')"
    using slmp_polls_total [OF assms(2,3,1)] assms(4-7) unfolding seq_room_def by blast
  obtain reqs resps where r: "length reqs = length ds" "length resps = length ds" "\<forall>q \<in> set (reqs @ resps). frame_ok q"
      "\<forall>i < length ds. answered st i (reqs ! i) (resps ! i)"
      "data_of True evs = segments frame_bytes (tcp_seq_client st) reqs" "data_of False evs = segments frame_bytes (tcp_seq_server st) resps"
      "tcp_seq_client st' = tcp_seq_client st + stream_length frame_bytes reqs"
      "tcp_seq_server st' = tcp_seq_server st + stream_length frame_bytes resps"
    using slmp_polls_frames [OF run] by blast
  have "\<forall>q \<in> set reqs. frame_ok q" "\<forall>q \<in> set resps. frame_ok q" using r(3) by auto
  note slmp.delivered [OF r(5) this(1)] slmp.delivered [OF r(6) this(2)]
  with r run show ?thesis by auto
qed

section \<open>An example\<close>

definition demo_plc :: device where
  "demo_plc = \<lparr>mac_address = ''00:00:00:00:00:01'', ip_address = ''10.0.0.1'', device_port = 0, unit_id = None, tcp_opts = None\<rparr>"

definition demo_slmp :: slmp_flow where
  "demo_slmp = \<lparr>source = demo_plc, destination = demo_plc, dst_model = None,
     config = \<lparr>cfg_frame_type = Some ''4e'', cfg_network_number = None, cfg_pc_number = None, cfg_dest_module_io = None,
       cfg_dest_module_station = None, cfg_command_type = Some ''batch_read'', cfg_device_code = None, cfg_start_address = Some 100,
       cfg_num_points = Some 960, cfg_bit_access = None, cfg_write_data = None, cfg_forced_run = None\<rparr>,
     wire = demo_scapy\<rparr>"

definition demo_slmp_draws :: slmp_draws where
  "demo_slmp_draws = \<lparr>bit_draw = (\<lambda>i. True), word_draw = (\<lambda>i. 7)\<rparr>"

theorem slmp_polls_answered_witness:
  "\<exists>evs st' reqs resps.
     slmp_polls demo_slmp [demo_slmp_draws, demo_slmp_draws] (create_initial_state demo_slmp 65535 1000 2000) = Inr (evs, st')
     \<and> parse_frames parse_slmp 2 (snd (receive 1000 [] (data_of True evs))) = (reqs, [])
     \<and> fr_serial (reqs ! 0) = Some 65535 \<and> fr_serial (reqs ! 1) = Some 0 \<and> fr_serial (resps ! 1 :: slmp_frame) = Some 0"
proof -
  let ?st = "create_initial_state demo_slmp 65535 1000 2000"
  have st: "ready ?st" "config_ok demo_slmp" "frame_type ?st = ''4e''" "serial_number ?st = 65535" "tcp_seq_client ?st = 1000"
    "tcp_seq_server ?st = 2000"
    by (simp_all add: ready_def config_ok_def create_initial_state_def demo_slmp_def route_ok_def in_range_def)
  have link: "link_ok (wire demo_slmp) (source demo_slmp) (destination demo_slmp)"
    by (simp add: link_ok_def device_fits_def fits_def demo_slmp_def demo_plc_def)
  have len: "length [demo_slmp_draws, demo_slmp_draws] = 2" by simp
  obtain evs st' reqs resps where r:
      "slmp_polls demo_slmp [demo_slmp_draws, demo_slmp_draws] ?st = Inr (evs, st')"
      "parse_frames parse_slmp 2 (snd (receive 1000 [] (data_of True evs))) = (reqs, [])"
      "\<forall>i < 2. answered ?st i (reqs ! i) (resps ! i)"
    using slmp_polls_answered [OF st(1,2) link, of "[demo_slmp_draws, demo_slmp_draws]", unfolded len st(5,6)] by auto
  have "answered ?st 0 (reqs ! 0) (resps ! 0)" "answered ?st 1 (reqs ! 1) (resps ! 1)" using r(3) by simp_all
  then have "fr_serial (reqs ! 0) = Some 65535" "fr_serial (reqs ! 1) = Some 0" "fr_serial (resps ! 1) = Some 0"
    by (simp_all add: answered_def st)
  with r(1,2) show ?thesis by blast
qed

end
