(* ===== verification/Fins.thy ===== *)
theory Fins
  imports TcpStream PyValue
begin

text \<open>
  \<open>backend/app/protocol_engines/fins/packets.py\<close> and \<open>engine.py\<close>: Omron's FINS over UDP and TCP,
  headers, commands and frames, and the conversation of a client and a PLC.

  A UDP packet is given by its addresses, ports and payload, a TCP packet by the layers handed to
  scapy, with scapy's defaults for the fields that the code does not set.  The values of
  \<open>flow.config\<close> are the fields of \<open>fins_config\<close> (\<open>None\<close>: the key is missing) with the types that
  \<open>validate_config\<close> expects.  Event times and metadata, but for the type, are left out; the draws
  of \<open>random.randint\<close> and the date are arguments.  \<open>wire\<close> is scapy's \<open>bytes(packet)\<close>, with which
  every builder of a packet ends: where it raises, so does the engine.
\<close>

section \<open>Frames\<close>

definition FINS_PORT :: int where "FINS_PORT = 9600"
definition FINS_TCP_MAGIC :: bytes where "FINS_TCP_MAGIC = [0x46, 0x49, 0x4E, 0x53]"
definition ICF_COMMAND :: int where "ICF_COMMAND = 0x80"
definition ICF_RESPONSE :: int where "ICF_RESPONSE = 0xC0"
definition MEMORY_AREA_READ :: int where "MEMORY_AREA_READ = 0x0101"
definition MEMORY_AREA_WRITE :: int where "MEMORY_AREA_WRITE = 0x0102"
definition CONTROLLER_DATA_READ :: int where "CONTROLLER_DATA_READ = 0x0501"
definition CONTROLLER_STATUS_READ :: int where "CONTROLLER_STATUS_READ = 0x0601"
definition CLOCK_READ :: int where "CLOCK_READ = 0x0701"
definition CLIENT_NODE_ADDR_SEND :: int where "CLIENT_NODE_ADDR_SEND = 0"
definition SERVER_NODE_ADDR_SEND :: int where "SERVER_NODE_ADDR_SEND = 1"
definition FRAME_SEND :: int where "FRAME_SEND = 2"

lemmas fins_consts =
  ICF_COMMAND_def ICF_RESPONSE_def MEMORY_AREA_READ_def MEMORY_AREA_WRITE_def CONTROLLER_DATA_READ_def
  CONTROLLER_STATUS_READ_def CLOCK_READ_def CLIENT_NODE_ADDR_SEND_def SERVER_NODE_ADDR_SEND_def FRAME_SEND_def

definition build_fins_header :: "int \<Rightarrow> int \<Rightarrow> int \<Rightarrow> int \<Rightarrow> int \<Rightarrow> int \<Rightarrow> int \<Rightarrow> int \<Rightarrow> int \<Rightarrow> bytes res" where
  "build_fins_header dst_node src_node sid dst_network src_network dst_unit src_unit icf gct =
     py_bytes [icf, 0x00, gct, dst_network, dst_node, dst_unit, src_network, src_node, src_unit, sid]"

definition build_memory_read_command :: "int \<Rightarrow> int \<Rightarrow> int \<Rightarrow> int \<Rightarrow> bytes res" where
  "build_memory_read_command area_code address num_items bit_position =
     py_bytes [0x01, 0x01, area_code, (drop_bit 8 address) AND 0xFF, address AND 0xFF, bit_position,
       (drop_bit 8 num_items) AND 0xFF, num_items AND 0xFF]"

definition build_memory_write_command :: "int \<Rightarrow> int \<Rightarrow> bytes \<Rightarrow> int \<Rightarrow> bytes res" where
  "build_memory_write_command area_code address data bit_position =
     (let num_items = int (length data div 2)
      in bnd (py_bytes [0x01, 0x02, area_code, (drop_bit 8 address) AND 0xFF, address AND 0xFF, bit_position,
                (drop_bit 8 num_items) AND 0xFF, num_items AND 0xFF]) (\<lambda>h. Inr (h @ data)))"

definition build_controller_data_read_command :: "bytes res" where
  "build_controller_data_read_command = py_bytes [0x05, 0x01]"

definition build_controller_status_read_command :: "bytes res" where
  "build_controller_status_read_command = py_bytes [0x06, 0x01]"

definition build_clock_read_command :: "bytes res" where
  "build_clock_read_command = py_bytes [0x07, 0x01]"

definition build_run_command :: "int \<Rightarrow> bytes res" where
  "build_run_command mode = py_bytes [0x04, 0x01, 0x00, 0x00, mode, 0x00]"

definition build_stop_command :: "bytes res" where
  "build_stop_command = py_bytes [0x04, 0x02]"

definition build_fins_response_header :: "int \<Rightarrow> int \<Rightarrow> int \<Rightarrow> int \<Rightarrow> int \<Rightarrow> bytes res" where
  "build_fins_response_header dst_node src_node sid dst_network src_network =
     build_fins_header dst_node src_node sid dst_network src_network 0x00 0x00 ICF_RESPONSE 0x02"

definition build_fins_response :: "int \<Rightarrow> int \<Rightarrow> bytes \<Rightarrow> bytes res" where
  "build_fins_response command response_code data =
     bnd (py_bytes [(drop_bit 8 command) AND 0xFF, command AND 0xFF, (drop_bit 8 response_code) AND 0xFF, response_code AND 0xFF]) (\<lambda>h.
     Inr (h @ data))"

definition build_fins_tcp_header :: "int \<Rightarrow> int \<Rightarrow> int \<Rightarrow> bytes res" where
  "build_fins_tcp_header command data_length error_code =
     (let total_length = 8 + data_length
      in bnd (struct_pack ''>I'' [total_length]) (\<lambda>a.
         bnd (struct_pack ''>I'' [command]) (\<lambda>b.
         bnd (struct_pack ''>I'' [error_code]) (\<lambda>c. Inr (FINS_TCP_MAGIC @ a @ b @ c)))))"

definition build_tcp_client_handshake :: "int \<Rightarrow> bytes res" where
  "build_tcp_client_handshake client_node =
     bnd (build_fins_tcp_header CLIENT_NODE_ADDR_SEND 4 0) (\<lambda>h. bnd (struct_pack ''>I'' [client_node]) (\<lambda>n. Inr (h @ n)))"

definition build_tcp_server_handshake :: "int \<Rightarrow> int \<Rightarrow> bytes res" where
  "build_tcp_server_handshake client_node server_node =
     bnd (build_fins_tcp_header SERVER_NODE_ADDR_SEND 8 0) (\<lambda>h.
     bnd (struct_pack ''>I'' [client_node]) (\<lambda>c. bnd (struct_pack ''>I'' [server_node]) (\<lambda>s. Inr (h @ c @ s))))"

definition build_fins_tcp_frame :: "bytes \<Rightarrow> bytes res" where
  "build_fins_tcp_frame fins_frame =
     bnd (build_fins_tcp_header FRAME_SEND (int (length fins_frame)) 0) (\<lambda>h. Inr (h @ fins_frame))"

section \<open>Packets\<close>

record udp_packet =
  udp_macs :: "string \<times> string"
  udp_ips :: "string \<times> string"
  udp_ports :: "int \<times> int"
  udp_load :: bytes

datatype fins_packet = Udp udp_packet | Tcp layers

definition build_fins_udp_packet :: "device \<Rightarrow> device \<Rightarrow> bytes \<Rightarrow> fins_packet" where
  "build_fins_udp_packet src dst fins_frame =
     Udp \<lparr>udp_macs = (mac_address src, mac_address dst), udp_ips = (ip_address src, ip_address dst),
          udp_ports = (FINS_PORT, FINS_PORT), udp_load = fins_frame\<rparr>"

definition fins_port :: "device \<Rightarrow> int" where
  "fins_port d = (if device_port d = 0 then FINS_PORT else device_port d)"

definition fins_layers :: "device \<Rightarrow> device \<Rightarrow> int \<Rightarrow> int \<Rightarrow> string \<Rightarrow> bytes option \<Rightarrow> fins_packet" where
  "fins_layers src dst seq ack flags load =
     Tcp \<lparr>eth_src = mac_address src, eth_dst = mac_address dst,
      ip = \<lparr>ip_src = ip_address src, ip_dst = ip_address dst, ip_ttl = 64, ip_df = False\<rparr>,
      tcp = \<lparr>sport = fins_port src, dport = fins_port dst, tcp_seq = seq, tcp_ack = ack, tcp_flags = flags,
             tcp_window = 8192, seg_options = []\<rparr>,
      raw = load\<rparr>"

definition build_fins_tcp_packet :: "device \<Rightarrow> device \<Rightarrow> bytes \<Rightarrow> int \<Rightarrow> int \<Rightarrow> fins_packet" where
  "build_fins_tcp_packet src dst tcp_frame seq ack = fins_layers src dst seq ack ''PA'' (Some tcp_frame)"

definition fins_tcp_syn :: "device \<Rightarrow> device \<Rightarrow> int \<Rightarrow> fins_packet" where
  "fins_tcp_syn src dst seq = fins_layers src dst seq 0 ''S'' None"

definition fins_tcp_syn_ack :: "device \<Rightarrow> device \<Rightarrow> int \<Rightarrow> int \<Rightarrow> fins_packet" where
  "fins_tcp_syn_ack src dst seq ack = fins_layers src dst seq ack ''SA'' None"

definition fins_tcp_ack :: "device \<Rightarrow> device \<Rightarrow> int \<Rightarrow> int \<Rightarrow> fins_packet" where
  "fins_tcp_ack src dst seq ack = fins_layers src dst seq ack ''A'' None"

definition fins_tcp_fin :: "device \<Rightarrow> device \<Rightarrow> int \<Rightarrow> int \<Rightarrow> fins_packet" where
  "fins_tcp_fin src dst seq ack = fins_layers src dst seq ack ''FA'' None"

section \<open>The engine's state\<close>

record fins_conv =
  fins_sid :: int
  src_node :: int
  dst_node :: int
  transport_mode :: string
  tcp_client_node :: int
  tcp_server_node :: int
  fins_connected :: bool
  fins_state :: string
  fins_command :: int
  seq_client :: "int option"
  seq_server :: "int option"

record fins_config =
  cfg_transport_mode :: "string option"
  cfg_src_node :: "int option"
  cfg_dst_node :: "int option"
  cfg_command_type :: "string option"
  cfg_area_code :: "int option"
  cfg_start_address :: "int option"
  cfg_num_items :: "int option"
  cfg_write_data :: "bytes option"

record fins_flow =
  source :: device
  destination :: device
  dst_model :: "string option"
  dst_version :: "string option"
  config :: fins_config
  wire :: "fins_packet \<Rightarrow> bytes res"

record fins_draws =
  word_draw :: "nat \<Rightarrow> int"
  now_year :: int
  now_fields :: "int list"

record fins_event =
  ev_client :: bool
  ev_packet :: fins_packet
  ev_kind :: string

abbreviation or_else :: "'a option \<Rightarrow> 'a \<Rightarrow> 'a" where
  "or_else x d \<equiv> (case x of Some v \<Rightarrow> v | None \<Rightarrow> d)"

fun split_dots :: "string \<Rightarrow> string \<Rightarrow> string" where
  "split_dots part [] = part"
| "split_dots part (c # cs) = (if c = CHR ''.'' then split_dots [] cs else split_dots (part @ [c]) cs)"

text \<open>\<open>config.get(key) or int(ip.split(".")[-1])\<close>\<close>

definition node_of :: "int option \<Rightarrow> string \<Rightarrow> int res" where
  "node_of n addr = (if n = None \<or> n = Some 0 then py_int (PStr (split_dots [] addr)) else Inr (the n))"

definition create_initial_state :: "fins_flow \<Rightarrow> int \<Rightarrow> fins_conv res" where
  "create_initial_state f sid =
     bnd (node_of (cfg_src_node (config f)) (ip_address (source f))) (\<lambda>src.
     bnd (node_of (cfg_dst_node (config f)) (ip_address (destination f))) (\<lambda>dst.
     Inr \<lparr>fins_sid = sid, src_node = src AND 0xFF, dst_node = dst AND 0xFF,
          transport_mode = or_else (cfg_transport_mode (config f)) ''udp'', tcp_client_node = 0, tcp_server_node = 0,
          fins_connected = False, fins_state = ''idle'', fins_command = 0, seq_client = None, seq_server = None\<rparr>))"

definition next_sid :: "fins_conv \<Rightarrow> int \<times> fins_conv" where
  "next_sid st = (fins_sid st, st\<lparr>fins_sid := (fins_sid st + 1) AND 0xFF\<rparr>)"

definition record_tcp_handshake :: "int \<Rightarrow> int \<Rightarrow> fins_conv \<Rightarrow> fins_conv" where
  "record_tcp_handshake client_node server_node st =
     st\<lparr>tcp_client_node := client_node, tcp_server_node := server_node, src_node := client_node, dst_node := server_node,
        fins_connected := True, fins_state := ''connected''\<rparr>"

definition fins_ev :: "bool \<Rightarrow> fins_packet \<Rightarrow> string \<Rightarrow> fins_event" where
  "fins_ev client p k = \<lparr>ev_client = client, ev_packet = p, ev_kind = k\<rparr>"

definition fins_send :: "fins_flow \<Rightarrow> bool \<Rightarrow> fins_packet \<Rightarrow> string \<Rightarrow> fins_event res" where
  "fins_send f client packet k = bnd (wire f packet) (\<lambda>_. Inr (fins_ev client packet k))"

section \<open>Startup and shutdown\<close>

text \<open>The SYN-ACK builder has the parameters \<open>src\<close>, \<open>dst\<close>, \<open>seq\<close>, \<open>ack\<close>; other keywords are a \<open>TypeError\<close>.\<close>

definition FINS_SYN_ACK_PARAMS :: "string list" where
  "FINS_SYN_ACK_PARAMS = [''src'', ''dst'', ''seq'', ''ack'']"

definition syn_ack_call :: "string list \<Rightarrow> fins_packet \<Rightarrow> fins_packet res" where
  "syn_ack_call keywords p = (if set keywords \<subseteq> set FINS_SYN_ACK_PARAMS then Inr p else Inl TypeError)"

definition tcp_handshake :: "fins_flow \<Rightarrow> int \<Rightarrow> int \<Rightarrow> fins_conv \<Rightarrow> fins_event list \<times> fins_conv res" where
  "tcp_handshake f client_seq server_seq st =
     (case fins_send f True (fins_tcp_syn (source f) (destination f) client_seq) ''tcp_syn'' of
        Inl e \<Rightarrow> ([], Inl e)
      | Inr syn \<Rightarrow>
     (case bnd (syn_ack_call [''src'', ''dst'', ''seq'', ''ack'', ''tcp_options'']
                 (fins_tcp_syn_ack (destination f) (source f) server_seq (client_seq + 1)))
            (\<lambda>packet. fins_send f False packet ''tcp_syn_ack'') of
        Inl e \<Rightarrow> ([syn], Inl e)
      | Inr syn_ack \<Rightarrow>
     (case fins_send f True (fins_tcp_ack (source f) (destination f) (client_seq + 1) (server_seq + 1)) ''tcp_ack'' of
        Inl e \<Rightarrow> ([syn, syn_ack], Inl e)
      | Inr ack \<Rightarrow>
          ([syn, syn_ack, ack], Inr (st\<lparr>seq_client := Some (client_seq + 1), seq_server := Some (server_seq + 1)\<rparr>)))))"

definition node_exchange :: "fins_flow \<Rightarrow> int \<Rightarrow> int \<Rightarrow> fins_conv \<Rightarrow> (fins_event list \<times> fins_conv) res" where
  "node_exchange f client_seq server_seq st =
     bnd (build_tcp_client_handshake 0) (\<lambda>client_request.
     bnd (build_tcp_server_handshake (src_node st) (dst_node st)) (\<lambda>server_response.
     let client_seq_after = client_seq + int (length client_request)
     in bnd (fins_send f True (build_fins_tcp_packet (source f) (destination f) client_request client_seq server_seq)
               ''fins_tcp_node_request'') (\<lambda>request.
        bnd (fins_send f False (build_fins_tcp_packet (destination f) (source f) server_response server_seq client_seq_after)
               ''fins_tcp_node_response'') (\<lambda>response.
        Inr ([request, response],
             (record_tcp_handshake (src_node st) (dst_node st) st)
               \<lparr>seq_client := Some client_seq_after, seq_server := Some (server_seq + int (length server_response))\<rparr>)))))"

definition startup_sequence :: "fins_flow \<Rightarrow> int \<Rightarrow> int \<Rightarrow> fins_conv \<Rightarrow> fins_event list \<times> fins_conv res" where
  "startup_sequence f client_isn server_isn st =
     (if transport_mode st = ''udp'' then ([], Inr st)
      else
        let (evs, r) = tcp_handshake f client_isn server_isn (st\<lparr>seq_client := Some client_isn, seq_server := Some server_isn\<rparr>)
        in case r of
             Inl e \<Rightarrow> (evs, Inl e)
           | Inr st \<Rightarrow>
               (case node_exchange f (client_isn + 1) (server_isn + 1) st of
                  Inl e \<Rightarrow> (evs, Inl e)
                | Inr (evs', st) \<Rightarrow> (evs @ evs', Inr (st\<lparr>fins_connected := True, fins_state := ''connected''\<rparr>))))"

definition shutdown_sequence :: "fins_flow \<Rightarrow> fins_conv \<Rightarrow> (fins_event list \<times> fins_conv) res" where
  "shutdown_sequence f st =
     (if transport_mode st = ''udp'' then Inr ([], st)
      else
        let client_seq = or_else (seq_client st) 1000; server_seq = or_else (seq_server st) 1000
        in bnd (fins_send f True (fins_tcp_fin (source f) (destination f) client_seq server_seq) ''tcp_fin'') (\<lambda>fin.
           bnd (fins_send f False (fins_tcp_fin (destination f) (source f) server_seq (client_seq + 1)) ''tcp_fin_ack'') (\<lambda>fin_ack.
           bnd (fins_send f True (fins_tcp_ack (source f) (destination f) (client_seq + 1) (server_seq + 1)) ''tcp_ack'') (\<lambda>ack.
           Inr ([fin, fin_ack, ack], st\<lparr>fins_connected := False, fins_state := ''disconnected''\<rparr>)))))"

section \<open>Polls\<close>

text \<open>
  A packet of the current transport; in TCP mode the sequence number of the sender moves on.
\<close>

definition send_request :: "fins_flow \<Rightarrow> bytes \<Rightarrow> fins_conv \<Rightarrow> (fins_packet \<times> fins_conv) res" where
  "send_request f fins_frame st =
     (if transport_mode st = ''udp'' then
        let packet = build_fins_udp_packet (source f) (destination f) fins_frame
        in bnd (wire f packet) (\<lambda>_. Inr (packet, st))
      else bnd (build_fins_tcp_frame fins_frame) (\<lambda>tcp_frame.
           let client_seq = or_else (seq_client st) 1000; server_seq = or_else (seq_server st) 1000;
               packet = build_fins_tcp_packet (source f) (destination f) tcp_frame client_seq server_seq
           in bnd (wire f packet) (\<lambda>_.
              Inr (packet, st\<lparr>seq_client := Some (client_seq + int (length tcp_frame))\<rparr>))))"

definition send_response :: "fins_flow \<Rightarrow> bytes \<Rightarrow> fins_conv \<Rightarrow> (fins_packet \<times> fins_conv) res" where
  "send_response f response_frame st =
     (if transport_mode st = ''udp'' then
        let packet = build_fins_udp_packet (destination f) (source f) response_frame
        in bnd (wire f packet) (\<lambda>_. Inr (packet, st))
      else bnd (build_fins_tcp_frame response_frame) (\<lambda>tcp_frame.
           let server_seq = or_else (seq_server st) 1000; client_seq = or_else (seq_client st) 1000;
               packet = build_fins_tcp_packet (destination f) (source f) tcp_frame server_seq client_seq
           in bnd (wire f packet) (\<lambda>_.
              Inr (packet, st\<lparr>seq_server := Some (server_seq + int (length tcp_frame))\<rparr>))))"

text \<open>The exchange that the five kinds of poll have in common.\<close>

definition fins_exchange ::
    "fins_flow \<Rightarrow> int \<Rightarrow> string \<Rightarrow> bytes res \<Rightarrow> bytes res \<Rightarrow> fins_conv \<Rightarrow> (fins_event list \<times> fins_conv) res" where
  "fins_exchange f command name command_data answer st =
     (let (sid, st) = next_sid st
      in bnd (build_fins_header (dst_node st) (src_node st) sid 0 0 0 0 ICF_COMMAND 0x02) (\<lambda>fins_header.
         bnd command_data (\<lambda>cmd.
         bnd (send_request f (fins_header @ cmd) (st\<lparr>fins_command := command\<rparr>)) (\<lambda>(request, st).
         bnd answer (\<lambda>data.
         bnd (build_fins_response_header (src_node st) (dst_node st) sid 0 0) (\<lambda>response_header.
         bnd (build_fins_response command 0 data) (\<lambda>response_body.
         bnd (send_response f (response_header @ response_body) st) (\<lambda>(response, st).
         Inr ([fins_ev True request (name @ ''_request''), fins_ev False response (name @ ''_response'')], st)))))))))"

definition generate_memory_data :: "fins_draws \<Rightarrow> int \<Rightarrow> bytes" where
  "generate_memory_data d num_words = concat (map (\<lambda>i. be_bytes 2 ((int i * 100 + word_draw d i) AND 0xFFFF)) [0..<nat num_words])"

definition generate_memory_read :: "fins_flow \<Rightarrow> fins_draws \<Rightarrow> fins_conv \<Rightarrow> (fins_event list \<times> fins_conv) res" where
  "generate_memory_read f d st =
     (let area_code = or_else (cfg_area_code (config f)) 0x82;
          start_address = or_else (cfg_start_address (config f)) 0;
          num_items = or_else (cfg_num_items (config f)) 10
      in fins_exchange f MEMORY_AREA_READ ''fins_memory_read'' (build_memory_read_command area_code start_address num_items 0)
           (Inr (generate_memory_data d num_items)) st)"

definition generate_memory_write :: "fins_flow \<Rightarrow> fins_draws \<Rightarrow> fins_conv \<Rightarrow> (fins_event list \<times> fins_conv) res" where
  "generate_memory_write f d st =
     (let area_code = or_else (cfg_area_code (config f)) 0x82;
          start_address = or_else (cfg_start_address (config f)) 0;
          write_data = (case cfg_write_data (config f) of
                          Some w \<Rightarrow> if w = [] then generate_memory_data d 5 else w
                        | None \<Rightarrow> generate_memory_data d 5)
      in fins_exchange f MEMORY_AREA_WRITE ''fins_memory_write'' (build_memory_write_command area_code start_address write_data 0)
           (Inr []) st)"

text \<open>\<open>s.encode("ascii")[:20].ljust(20, b"\x00")\<close>\<close>

definition name_field :: "string \<Rightarrow> bytes res" where
  "name_field s =
     (if list_all (\<lambda>c. (of_char c :: nat) < 128) s
      then let b = take 20 (map (\<lambda>c. of_char c :: byte) s) in Inr (b @ replicate (20 - length b) 0)
      else Inl UnicodeEncodeError)"

definition build_controller_data :: "fins_flow \<Rightarrow> bytes res" where
  "build_controller_data f =
     (let model = (case dst_model f of Some m \<Rightarrow> if m = [] then ''CJ2M-CPU31'' else m | None \<Rightarrow> ''CJ2M-CPU31'');
          version = (case dst_version f of Some v \<Rightarrow> if v = [] then ''2.0'' else v | None \<Rightarrow> ''2.0'')
      in bnd (name_field model) (\<lambda>model_bytes.
         bnd (name_field version) (\<lambda>version_bytes.
         Inr (model_bytes @ version_bytes @ replicate 40 0 @ be_bytes 2 32768 @ [3]))))"

definition generate_controller_data_read :: "fins_flow \<Rightarrow> fins_conv \<Rightarrow> (fins_event list \<times> fins_conv) res" where
  "generate_controller_data_read f st =
     fins_exchange f CONTROLLER_DATA_READ ''fins_controller_data'' build_controller_data_read_command (build_controller_data f) st"

definition generate_controller_status_read :: "fins_flow \<Rightarrow> fins_conv \<Rightarrow> (fins_event list \<times> fins_conv) res" where
  "generate_controller_status_read f st =
     fins_exchange f CONTROLLER_STATUS_READ ''fins_controller_status'' build_controller_status_read_command
       (py_bytes [0x01, 0x00, 0x00, 0x00, 0x00, 0x00, 0x00, 0x00]) st"

text \<open>The fields of the date: month, day, hour, minute, second and day of the week.\<close>

definition generate_clock_read :: "fins_flow \<Rightarrow> fins_draws \<Rightarrow> fins_conv \<Rightarrow> (fins_event list \<times> fins_conv) res" where
  "generate_clock_read f d st =
     fins_exchange f CLOCK_READ ''fins_clock_read'' build_clock_read_command
       (py_bytes ([now_year d div 100, now_year d mod 100] @ now_fields d)) st"

definition fins_poll_cycle :: "fins_flow \<Rightarrow> fins_draws \<Rightarrow> fins_conv \<Rightarrow> (fins_event list \<times> fins_conv) res" where
  "fins_poll_cycle f d st =
     (let command_type = or_else (cfg_command_type (config f)) ''memory_read''
      in if command_type = ''memory_read'' then generate_memory_read f d st
         else if command_type = ''memory_write'' then generate_memory_write f d st
         else if command_type = ''controller_data'' then generate_controller_data_read f st
         else if command_type = ''controller_status'' then generate_controller_status_read f st
         else if command_type = ''clock_read'' then generate_clock_read f d st
         else generate_memory_read f d st)"

fun fins_polls :: "fins_flow \<Rightarrow> fins_draws list \<Rightarrow> fins_conv \<Rightarrow> (fins_event list \<times> fins_conv) res" where
  "fins_polls f [] st = Inr ([], st)"
| "fins_polls f (d # ds) st =
     bnd (fins_poll_cycle f d st) (\<lambda>(evs, st). bnd (fins_polls f ds st) (\<lambda>(evs', st). Inr (evs @ evs', st)))"

text \<open>\<open>validate_config\<close>: the messages, each by its kind and the value that it shows.\<close>

datatype fins_config_error =
  InvalidTransportMode string
| SrcNodeRange
| DstNodeRange
| InvalidAreaCode int
| NumItemsRange

definition VALID_AREAS :: "int list" where
  "VALID_AREAS = [0xB0, 0xB1, 0xB2, 0xB3, 0x82, 0x98, 0xA0, 0x30, 0x31, 0x32, 0x33, 0x02]"

definition node_outside :: "int option \<Rightarrow> bool" where
  "node_outside n = (case n of Some v \<Rightarrow> v < 1 \<or> v > 254 | None \<Rightarrow> False)"

definition validate_config :: "fins_config \<Rightarrow> fins_config_error list" where
  "validate_config c =
     (let mode = or_else (cfg_transport_mode c) ''udp''; num_items = or_else (cfg_num_items c) 10
      in (if mode \<in> set [''udp'', ''tcp''] then [] else [InvalidTransportMode mode])
         @ (if node_outside (cfg_src_node c) then [SrcNodeRange] else [])
         @ (if node_outside (cfg_dst_node c) then [DstNodeRange] else [])
         @ (case cfg_area_code c of Some a \<Rightarrow> if a \<in> set VALID_AREAS then [] else [InvalidAreaCode a] | None \<Rightarrow> [])
         @ (if num_items < 1 \<or> num_items > 999 then [NumItemsRange] else []))"

section \<open>Messages as the receiver sees them\<close>

record fins_message =
  m_icf :: int
  m_gct :: int
  m_dst :: "int \<times> int \<times> int"
  m_src :: "int \<times> int \<times> int"
  m_sid :: int
  m_command :: int
  m_text :: bytes

text \<open>The header of ten octets, the command code of two, and the text.\<close>

definition parse_fins :: "bytes \<Rightarrow> fins_message option" where
  "parse_fins s =
     (if length s < 12 then None
      else Some \<lparr>m_icf = uint (s ! 0), m_gct = uint (s ! 2),
                 m_dst = (uint (s ! 3), uint (s ! 4), uint (s ! 5)), m_src = (uint (s ! 6), uint (s ! 7), uint (s ! 8)),
                 m_sid = uint (s ! 9), m_command = be_val (slice 10 12 s), m_text = drop 12 s\<rparr>)"

text \<open>What a packet carries: all of a datagram, or the frame behind a valid FINS/TCP header.\<close>

definition unwrap :: "fins_packet \<Rightarrow> bytes option" where
  "unwrap p =
     (case p of
        Udp u \<Rightarrow> Some (udp_load u)
      | Tcp l \<Rightarrow>
          (case raw l of
             None \<Rightarrow> None
           | Some s \<Rightarrow>
               if 16 \<le> length s \<and> take 4 s = [0x46, 0x49, 0x4E, 0x53] \<and> be_val (slice 4 8 s) = int (length s) - 8
                  \<and> be_val (slice 8 12 s) = 2 \<and> be_val (slice 12 16 s) = 0
               then Some (drop 16 s) else None))"

definition message_of :: "fins_event \<Rightarrow> fins_message option" where
  "message_of e = Option.bind (unwrap (ev_packet e)) parse_fins"


section \<open>Built messages\<close>

abbreviation is_octet :: "int \<Rightarrow> bool" where
  "is_octet v \<equiv> 0 \<le> v \<and> v < 256"

lemma octet_mask [simp]: "is_octet (v AND 0xFF)"
  by (simp add: and_mask_8)

lemma uint_octet: "is_octet v \<Longrightarrow> uint (word_of_int v :: byte) = v"
  by (simp add: uint_word_of_int)

definition header_bytes :: "int \<Rightarrow> int \<Rightarrow> int \<Rightarrow> int \<Rightarrow> bytes" where
  "header_bytes icf dst src sid = map word_of_int [icf, 0, 2, 0, dst, 0, 0, src, 0, sid]"

lemma length_header_bytes [simp]: "length (header_bytes icf dst src sid) = 10"
  by (simp add: header_bytes_def)

lemma build_header:
  assumes "is_octet icf" "is_octet dst" "is_octet src" "is_octet sid"
  shows "build_fins_header dst src sid 0 0 0 0 icf 2 = Inr (header_bytes icf dst src sid)"
  using assms by (simp add: build_fins_header_def header_bytes_def py_byte_ok)

lemma octet_of_mod [simp]: "(word_of_int (v mod 256) :: byte) = word_of_int v"
  using le_bytes_mod [of 1 v] by simp

lemma be_bytes_2: "be_bytes 2 v = [word_of_int (v div 256), word_of_int v]"
  by (simp add: be_bytes_def numeral_2_eq_2)

lemma code_octets:
  "py_byte ((drop_bit 8 c) AND 0xFF) = Inr (be_bytes 2 c ! 0)" "py_byte (c AND 0xFF) = Inr (be_bytes 2 c ! 1)" for c :: int
  by (simp_all add: py_byte_ok and_mask_8 be_bytes_def numeral_2_eq_2 drop_bit_eq_div)

lemma code_bytes: "[be_bytes 2 c ! 0, be_bytes 2 c ! 1] = be_bytes 2 c" "be_bytes 2 c ! 0 # be_bytes 2 c ! 1 # x = be_bytes 2 c @ x"
  by (simp_all add: be_bytes_def numeral_2_eq_2)

lemma parse_built:
  assumes "is_octet icf" "is_octet dst" "is_octet src" "is_octet sid" "0 \<le> cmd" "cmd < 65536"
  shows "parse_fins (header_bytes icf dst src sid @ be_bytes 2 cmd @ text) =
    Some \<lparr>m_icf = icf, m_gct = 2, m_dst = (0, dst, 0), m_src = (0, src, 0), m_sid = sid, m_command = cmd, m_text = text\<rparr>"
proof -
  have "slice 10 12 (header_bytes icf dst src sid @ be_bytes 2 cmd @ text) = be_bytes 2 cmd"
    by (simp add: slice_def)
  then show ?thesis
    using assms by (simp add: parse_fins_def) (simp add: header_bytes_def uint_octet)
qed

lemma unwrap_tcp:
  assumes "build_fins_tcp_frame b = Inr s"
  shows "unwrap (build_fins_tcp_packet src dst s seq ack) = Some b"
  using assms
  by (auto simp: build_fins_tcp_frame_def build_fins_tcp_header_def unwrap_def build_fins_tcp_packet_def fins_layers_def
      FINS_TCP_MAGIC_def fins_consts slice_def res_simps Let_def split: if_splits)

lemma tcp_frame_total: "length b < 4294967288 \<Longrightarrow> \<exists>s. build_fins_tcp_frame b = Inr s \<and> length s = 16 + length b"
  by (auto simp: build_fins_tcp_frame_def build_fins_tcp_header_def fins_consts Let_def FINS_TCP_MAGIC_def)

section \<open>What scapy serialises\<close>

text \<open>
  A datagram whose length fits 16 bits, a segment whose fields fit; what the engine relies on is
  that scapy serialises these between the addresses of the two devices.
\<close>

fun packet_fits :: "fins_packet \<Rightarrow> bool" where
  "packet_fits (Udp u) = (length (udp_load u) \<le> 65507)"
| "packet_fits (Tcp l) = segment_fits l"

fun packet_addresses :: "fins_packet \<Rightarrow> (string \<times> string) \<times> (string \<times> string)" where
  "packet_addresses (Udp u) = (udp_macs u, udp_ips u)"
| "packet_addresses (Tcp l) = ((eth_src l, eth_dst l), (ip_src (ip l), ip_dst (ip l)))"

definition addresses_of :: "device \<Rightarrow> device \<Rightarrow> (string \<times> string) \<times> (string \<times> string)" where
  "addresses_of a b = ((mac_address a, mac_address b), (ip_address a, ip_address b))"

definition fins_link :: "fins_flow \<Rightarrow> bool" where
  "fins_link f \<longleftrightarrow> fits 16 (device_port (source f)) \<and> fits 16 (device_port (destination f))
     \<and> (\<forall>p. packet_fits p \<and> packet_addresses p \<in> {addresses_of (source f) (destination f), addresses_of (destination f) (source f)}
          \<longrightarrow> is_ok (wire f p))"

text \<open>Room in the sequence numbers, which are counted in TCP mode only.\<close>

definition seq_room :: "int \<Rightarrow> fins_conv \<Rightarrow> bool" where
  "seq_room n st \<longleftrightarrow> 0 \<le> n \<and> (transport_mode st = ''udp''
     \<or> 0 \<le> or_else (seq_client st) 1000 \<and> or_else (seq_client st) 1000 + n < 2 ^ 32
       \<and> 0 \<le> or_else (seq_server st) 1000 \<and> or_else (seq_server st) 1000 + n < 2 ^ 32)"

lemma packets_sent:
  assumes "fins_link f"
  shows "length b \<le> 65507 \<Longrightarrow> is_ok (wire f (build_fins_udp_packet (source f) (destination f) b))"
    and "length b \<le> 65507 \<Longrightarrow> is_ok (wire f (build_fins_udp_packet (destination f) (source f) b))"
    and "length b \<le> 65455 \<Longrightarrow> fits 32 s \<Longrightarrow> fits 32 a \<Longrightarrow> is_ok (wire f (build_fins_tcp_packet (source f) (destination f) b s a))"
    and "length b \<le> 65455 \<Longrightarrow> fits 32 s \<Longrightarrow> fits 32 a \<Longrightarrow> is_ok (wire f (build_fins_tcp_packet (destination f) (source f) b s a))"
  using assms
  by (auto simp: fins_link_def addresses_of_def build_fins_udp_packet_def build_fins_tcp_packet_def fins_layers_def
      segment_fits_def fins_port_def FINS_PORT_def fits_def)

section \<open>An exchange\<close>

definition conv_ok :: "fins_conv \<Rightarrow> bool" where
  "conv_ok st \<longleftrightarrow> is_octet (src_node st) \<and> is_octet (dst_node st) \<and> is_octet (fins_sid st)"

text \<open>The message of a request and of its response.\<close>

definition request_of :: "int \<Rightarrow> bytes \<Rightarrow> fins_conv \<Rightarrow> fins_message" where
  "request_of command text st =
     \<lparr>m_icf = 0x80, m_gct = 2, m_dst = (0, dst_node st, 0), m_src = (0, src_node st, 0), m_sid = fins_sid st,
      m_command = command, m_text = text\<rparr>"

definition response_of :: "int \<Rightarrow> bytes \<Rightarrow> fins_conv \<Rightarrow> fins_message" where
  "response_of command data st =
     \<lparr>m_icf = 0xC0, m_gct = 2, m_dst = (0, src_node st, 0), m_src = (0, dst_node st, 0), m_sid = fins_sid st,
      m_command = command, m_text = [0, 0] @ data\<rparr>"

definition exchanged :: "int \<Rightarrow> bytes \<Rightarrow> bytes \<Rightarrow> fins_conv \<Rightarrow> fins_event list \<Rightarrow> fins_conv \<Rightarrow> bool" where
  "exchanged command text data st evs st' \<longleftrightarrow>
     (\<exists>a b. evs = [a, b] \<and> ev_client a \<and> \<not> ev_client b
       \<and> message_of a = Some (request_of command text st) \<and> message_of b = Some (response_of command data st))
     \<and> src_node st' = src_node st \<and> dst_node st' = dst_node st \<and> fins_sid st' = (fins_sid st + 1) mod 256"

definition engine_ready :: "fins_flow \<Rightarrow> fins_conv \<Rightarrow> int \<Rightarrow> bool" where
  "engine_ready f st n \<longleftrightarrow> conv_ok st \<and> fins_link f \<and> 0 \<le> n \<and> seq_room (n + 4600) st"

lemma send_request_ok:
  assumes "fins_link f" and "length b \<le> 2200" and "0 \<le> n" "seq_room (n + 2300) st"
  obtains p st' where "send_request f b st = Inr (p, st')" "unwrap p = Some b" "src_node st' = src_node st" "dst_node st' = dst_node st"
    "fins_sid st' = fins_sid st" "transport_mode st' = transport_mode st" "seq_server st' = seq_server st"
    "transport_mode st = ''udp'' \<or> or_else (seq_client st') 1000 \<le> or_else (seq_client st) 1000 + 2300 \<and> 0 \<le> or_else (seq_client st') 1000"
proof (cases "transport_mode st = ''udp''")
  case True
  obtain x where "wire f (build_fins_udp_packet (source f) (destination f) b) = Inr x"
    using packets_sent(1) [OF assms(1), of b] assms(2) by (auto simp: is_ok_iff)
  with True show ?thesis using that by (simp add: send_request_def unwrap_def build_fins_udp_packet_def)
next
  case False
  obtain s where s: "build_fins_tcp_frame b = Inr s" "length s = 16 + length b" using tcp_frame_total [of b] assms(2) by auto
  have fit: "fits 32 (or_else (seq_client st) 1000)" "fits 32 (or_else (seq_server st) 1000)"
    using assms(3,4) False by (simp_all add: seq_room_def fits_def)
  obtain x where "wire f (build_fins_tcp_packet (source f) (destination f) s (or_else (seq_client st) 1000) (or_else (seq_server st) 1000)) = Inr x"
    using packets_sent(3) [OF assms(1) _ fit, of s] s(2) assms(2) by (auto simp: is_ok_iff)
  with that show ?thesis
    using s(2) assms(2-4) by (auto simp: send_request_def False s(1) Let_def unwrap_tcp [OF s(1)] seq_room_def)
qed

lemma send_response_ok:
  assumes "fins_link f" and "length b \<le> 2200" and "0 \<le> n" "seq_room (n + 2300) st"
  obtains p st' where "send_response f b st = Inr (p, st')" "unwrap p = Some b" "src_node st' = src_node st" "dst_node st' = dst_node st"
    "fins_sid st' = fins_sid st" "transport_mode st' = transport_mode st" "seq_client st' = seq_client st"
    "transport_mode st = ''udp'' \<or> or_else (seq_server st') 1000 \<le> or_else (seq_server st) 1000 + 2300 \<and> 0 \<le> or_else (seq_server st') 1000"
proof (cases "transport_mode st = ''udp''")
  case True
  obtain x where "wire f (build_fins_udp_packet (destination f) (source f) b) = Inr x"
    using packets_sent(2) [OF assms(1), of b] assms(2) by (auto simp: is_ok_iff)
  with True show ?thesis using that by (simp add: send_response_def unwrap_def build_fins_udp_packet_def)
next
  case False
  obtain s where s: "build_fins_tcp_frame b = Inr s" "length s = 16 + length b" using tcp_frame_total [of b] assms(2) by auto
  have fit: "fits 32 (or_else (seq_server st) 1000)" "fits 32 (or_else (seq_client st) 1000)"
    using assms(3,4) False by (simp_all add: seq_room_def fits_def)
  obtain x where "wire f (build_fins_tcp_packet (destination f) (source f) s (or_else (seq_server st) 1000) (or_else (seq_client st) 1000)) = Inr x"
    using packets_sent(4) [OF assms(1) _ fit, of s] s(2) assms(2) by (auto simp: is_ok_iff)
  with that show ?thesis
    using s(2) assms(2-4) by (auto simp: send_response_def False s(1) Let_def unwrap_tcp [OF s(1)] seq_room_def)
qed

lemma response_body: "build_fins_response command 0 data = Inr (be_bytes 2 command @ [0, 0] @ data)"
  by (simp add: build_fins_response_def be_bytes_def numeral_2_eq_2 py_byte_ok and_mask_8 drop_bit_eq_div)

lemma fins_exchange_exchanged:
  assumes "engine_ready f st n" and "0 \<le> command" "command < 65536" and "length text \<le> 2100" "length data \<le> 2100"
  shows "\<exists>evs st'. fins_exchange f command name (Inr (be_bytes 2 command @ text)) (Inr data) st = Inr (evs, st')
    \<and> exchanged command text data st evs st' \<and> seq_room n st'"
proof -
  let ?st = "st\<lparr>fins_sid := (fins_sid st + 1) AND 0xFF, fins_command := command\<rparr>"
  let ?req = "header_bytes 0x80 (dst_node st) (src_node st) (fins_sid st) @ be_bytes 2 command @ text"
  let ?resp = "header_bytes 0xC0 (src_node st) (dst_node st) (fins_sid st) @ be_bytes 2 command @ [0, 0] @ data"
  have ok: "is_octet (src_node st)" "is_octet (dst_node st)" "is_octet (fins_sid st)" and l: "fins_link f" and n: "0 \<le> n"
    using assms(1) by (simp_all add: engine_ready_def conv_ok_def)
  have room: "seq_room (n + 2300 + 2300) ?st" using assms(1) by (simp add: engine_ready_def seq_room_def)
  have small: "length ?req \<le> 2200" "length ?resp \<le> 2200" "0 \<le> n + 2300" using assms(4,5) n by simp_all
  obtain p st1 where p: "send_request f ?req ?st = Inr (p, st1)" "unwrap p = Some ?req" "src_node st1 = src_node ?st"
      "dst_node st1 = dst_node ?st" "fins_sid st1 = fins_sid ?st"
    and t1: "transport_mode st1 = transport_mode ?st" "seq_server st1 = seq_server ?st"
      "transport_mode ?st = ''udp'' \<or> or_else (seq_client st1) 1000 \<le> or_else (seq_client ?st) 1000 + 2300 \<and> 0 \<le> or_else (seq_client st1) 1000"
    by (rule send_request_ok [OF l small(1,3) room])
  have room1: "seq_room (n + 2300) st1" using room t1 n by (auto simp: seq_room_def)
  obtain q st2 where q: "send_response f ?resp st1 = Inr (q, st2)" "unwrap q = Some ?resp" "src_node st2 = src_node st1"
      "dst_node st2 = dst_node st1" "fins_sid st2 = fins_sid st1"
    and t2: "transport_mode st2 = transport_mode st1" "seq_client st2 = seq_client st1"
      "transport_mode st1 = ''udp'' \<or> or_else (seq_server st2) 1000 \<le> or_else (seq_server st1) 1000 + 2300 \<and> 0 \<le> or_else (seq_server st2) 1000"
    by (rule send_response_ok [OF l small(2) n room1])
  have "seq_room n st2" using room1 t2 n by (auto simp: seq_room_def)
  have headers: "build_fins_header (dst_node st) (src_node st) (fins_sid st) 0 0 0 0 0x80 2 = Inr (header_bytes 0x80 (dst_node st) (src_node st) (fins_sid st))"
      "build_fins_header (src_node st) (dst_node st) (fins_sid st) 0 0 0 0 0xC0 2 = Inr (header_bytes 0xC0 (src_node st) (dst_node st) (fins_sid st))"
    using ok by (simp_all add: build_header)
  have "fins_exchange f command name (Inr (be_bytes 2 command @ text)) (Inr data) st
      = Inr ([fins_ev True p (name @ ''_request''), fins_ev False q (name @ ''_response'')], st2)"
    using p q headers by (simp add: fins_exchange_def next_sid_def fins_consts build_fins_response_header_def response_body)
  moreover have "exchanged command text data st [fins_ev True p (name @ ''_request''), fins_ev False q (name @ ''_response'')] st2"
    using ok assms(2,3) p(2-5) q(2-5)
    by (simp add: exchanged_def fins_ev_def message_of_def parse_built request_of_def response_of_def and_mask_8 del: append_Cons)
  ultimately show ?thesis using \<open>seq_room n st2\<close> by blast
qed


section \<open>Polls\<close>

text \<open>
  What the words of a request and a response say: a read asks for a number of words and gets them,
  a write announces the number of words it carries and gets no data.
\<close>

definition words_agree :: "int \<Rightarrow> bytes \<Rightarrow> bytes \<Rightarrow> bool" where
  "words_agree command text data \<longleftrightarrow>
     (command = 0x0101 \<longrightarrow> length text = 6 \<and> length data = 2 * nat (be_val (slice 4 6 text)))
     \<and> (command = 0x0102 \<longrightarrow> 6 \<le> length text \<and> be_val (slice 4 6 text) = int ((length text - 6) div 2) \<and> data = [])"

abbreviation ascii_name :: "string option \<Rightarrow> bool" where
  "ascii_name n \<equiv> (case n of Some s \<Rightarrow> list_all (\<lambda>c. (of_char c :: nat) < 128) s | None \<Rightarrow> True)"

text \<open>A validated configuration, ASCII names, at most 999 words to write.\<close>

definition flow_ok :: "fins_flow \<Rightarrow> bool" where
  "flow_ok f \<longleftrightarrow> validate_config (config f) = [] \<and> ascii_name (dst_model f) \<and> ascii_name (dst_version f)
     \<and> (case cfg_write_data (config f) of Some w \<Rightarrow> length w \<le> 1998 | None \<Rightarrow> True)"

text \<open>A date as \<open>datetime\<close> gives it.\<close>

definition date_ok :: "fins_draws \<Rightarrow> bool" where
  "date_ok d \<longleftrightarrow> 1 \<le> now_year d \<and> now_year d \<le> 9999 \<and> (\<forall>v \<in> set (now_fields d). 0 \<le> v \<and> v < 60) \<and> length (now_fields d) = 6"

lemma length_memory_data: "length (generate_memory_data d n) = 2 * nat n"
  by (simp add: generate_memory_data_def length_concat comp_def sum_list_triv)

lemma valid_areas_octets: "a \<in> set VALID_AREAS \<Longrightarrow> is_octet a"
  by (auto simp: VALID_AREAS_def)

lemma area_octet: "flow_ok f \<Longrightarrow> is_octet (or_else (cfg_area_code (config f)) 0x82)"
  using valid_areas_octets
  by (cases "cfg_area_code (config f)") (simp_all add: flow_ok_def validate_config_def Let_def split: if_splits)

lemma items_range: "flow_ok f \<Longrightarrow> 1 \<le> or_else (cfg_num_items (config f)) 10 \<and> or_else (cfg_num_items (config f)) 10 \<le> 999"
  by (auto simp: flow_ok_def validate_config_def Let_def split: if_splits)

definition access_text :: "int \<Rightarrow> int \<Rightarrow> int \<Rightarrow> bytes" where
  "access_text area address items = [word_of_int area] @ be_bytes 2 address @ [0] @ be_bytes 2 items"

lemma access_text_simps [simp]:
  "length (access_text area address items) = 6" "slice 4 6 (access_text area address items @ x) = be_bytes 2 items"
  by (simp_all add: access_text_def slice_def)

lemma read_command: "is_octet area \<Longrightarrow> build_memory_read_command area address items 0 = Inr (be_bytes 2 0x0101 @ access_text area address items)"
  by (simp add: build_memory_read_command_def py_byte_ok access_text_def be_bytes_def numeral_2_eq_2 and_mask_8 drop_bit_eq_div)

lemma write_command:
  "is_octet area \<Longrightarrow> build_memory_write_command area address w 0
     = Inr (be_bytes 2 0x0102 @ access_text area address (int (length w div 2)) @ w)"
  by (simp add: build_memory_write_command_def py_byte_ok access_text_def be_bytes_def numeral_2_eq_2 and_mask_8 drop_bit_eq_div Let_def)

lemma plain_commands:
  "build_controller_data_read_command = Inr (be_bytes 2 0x0501 @ [])"
  "build_controller_status_read_command = Inr (be_bytes 2 0x0601 @ [])" "build_clock_read_command = Inr (be_bytes 2 0x0701 @ [])"
  by (simp_all add: build_controller_data_read_command_def build_controller_status_read_command_def build_clock_read_command_def
      be_bytes_2)


lemma name_field_total:
  assumes "list_all (\<lambda>c. (of_char c :: nat) < 128) s"
  obtains b where "name_field s = Inr b" "length b = 20"
proof -
  let ?b = "take 20 (map (\<lambda>c. of_char c :: byte) s)"
  have "length (?b @ replicate (20 - length ?b) 0) = 20" by simp
  then show ?thesis using assms that by (simp add: name_field_def Let_def)
qed

lemma controller_data_total:
  assumes "flow_ok f"
  obtains b where "build_controller_data f = Inr b" "length b = 83"
proof -
  have m: "list_all (\<lambda>c. (of_char c :: nat) < 128) (case dst_model f of Some m \<Rightarrow> if m = [] then ''CJ2M-CPU31'' else m | None \<Rightarrow> ''CJ2M-CPU31'')"
    and v: "list_all (\<lambda>c. (of_char c :: nat) < 128) (case dst_version f of Some v \<Rightarrow> if v = [] then ''2.0'' else v | None \<Rightarrow> ''2.0'')"
    using assms by (auto simp: flow_ok_def split: option.split)
  obtain a where a: "name_field (case dst_model f of Some m \<Rightarrow> if m = [] then ''CJ2M-CPU31'' else m | None \<Rightarrow> ''CJ2M-CPU31'') = Inr a" "length a = 20"
    using m by (rule name_field_total)
  obtain b where b: "name_field (case dst_version f of Some v \<Rightarrow> if v = [] then ''2.0'' else v | None \<Rightarrow> ''2.0'') = Inr b" "length b = 20"
    using v by (rule name_field_total)
  from that a b show ?thesis unfolding build_controller_data_def Let_def by simp
qed

lemma clock_total:
  assumes "date_ok d"
  obtains b where "py_bytes ([now_year d div 100, now_year d mod 100] @ now_fields d) = Inr b" "length b = 8"
proof -
  have "\<forall>v \<in> set ([now_year d div 100, now_year d mod 100] @ now_fields d). 0 \<le> v \<and> v < 256"
    using assms by (auto simp: date_ok_def)
  from py_bytes_ok [OF this] assms that show ?thesis by (simp add: date_ok_def)
qed

definition poll_answered :: "int \<Rightarrow> fins_conv \<Rightarrow> (fins_event list \<times> fins_conv) res \<Rightarrow> bool" where
  "poll_answered n st run \<longleftrightarrow>
     (\<exists>command text data evs st'. run = Inr (evs, st') \<and> exchanged command text data st evs st' \<and> words_agree command text data
       \<and> seq_room n st')"

lemma polled:
  assumes "engine_ready f st n" and "0 \<le> command" "command < 65536" and "length text \<le> 2100" "length data \<le> 2100"
    and "words_agree command text data"
  shows "poll_answered n st (fins_exchange f command name (Inr (be_bytes 2 command @ text)) (Inr data) st)"
  using fins_exchange_exchanged [OF assms(1-5)] assms(6) unfolding poll_answered_def by blast

lemma memory_read_answered:
  assumes "engine_ready f st n" and "flow_ok f"
  shows "poll_answered n st (generate_memory_read f d st)"
proof -
  let ?k = "or_else (cfg_num_items (config f)) 10"
  let ?t = "access_text (or_else (cfg_area_code (config f)) 0x82) (or_else (cfg_start_address (config f)) 0) ?k"
  have n: "1 \<le> ?k" "?k \<le> 999" using items_range [OF assms(2)] by auto
  then have len: "length (generate_memory_data d ?k) \<le> 2100" unfolding length_memory_data by linarith
  have "slice 4 6 ?t = be_bytes 2 ?k" using access_text_simps(2) [of _ _ _ "[]"] by simp
  then have "words_agree 0x0101 ?t (generate_memory_data d ?k)"
    using n by (simp add: words_agree_def length_memory_data)
  with polled [OF assms(1), of "0x0101" ?t] len show ?thesis
    unfolding generate_memory_read_def Let_def read_command [OF area_octet [OF assms(2)]] MEMORY_AREA_READ_def by simp
qed

lemma memory_write_answered:
  assumes "engine_ready f st n" and "flow_ok f"
  shows "poll_answered n st (generate_memory_write f d st)"
proof -
  define w where "w = (case cfg_write_data (config f) of Some w \<Rightarrow> if w = [] then generate_memory_data d 5 else w
    | None \<Rightarrow> generate_memory_data d 5)"
  let ?t = "access_text (or_else (cfg_area_code (config f)) 0x82) (or_else (cfg_start_address (config f)) 0) (int (length w div 2)) @ w"
  have len: "length w \<le> 1998"
    using assms(2) by (auto simp: w_def flow_ok_def length_memory_data split: option.split)
  then have "int (length w div 2) mod 65536 = int (length w div 2)" by simp
  then have "words_agree 0x0102 ?t []" by (simp add: words_agree_def del: of_nat_div)
  with polled [OF assms(1), of "0x0102" ?t "[]"] len show ?thesis
    unfolding generate_memory_write_def Let_def write_command [OF area_octet [OF assms(2)]] MEMORY_AREA_WRITE_def w_def by simp
qed

lemma controller_data_answered:
  assumes "engine_ready f st n" and "flow_ok f"
  shows "poll_answered n st (generate_controller_data_read f st)"
proof -
  obtain b where "build_controller_data f = Inr b" "length b = 83" using assms(2) by (rule controller_data_total)
  with polled [OF assms(1), of "0x0501" "[]" b] show ?thesis
    unfolding generate_controller_data_read_def plain_commands CONTROLLER_DATA_READ_def by (simp add: words_agree_def)
qed

lemma controller_status_answered:
  assumes "engine_ready f st n"
  shows "poll_answered n st (generate_controller_status_read f st)"
  using polled [OF assms, of "0x0601" "[]" "[1, 0, 0, 0, 0, 0, 0, 0]"]
  unfolding generate_controller_status_read_def plain_commands CONTROLLER_STATUS_READ_def by (simp add: words_agree_def)

lemma clock_answered:
  assumes "engine_ready f st n" and "date_ok d"
  shows "poll_answered n st (generate_clock_read f d st)"
proof -
  obtain b where "py_bytes ([now_year d div 100, now_year d mod 100] @ now_fields d) = Inr b" "length b = 8"
    using assms(2) by (rule clock_total)
  with polled [OF assms(1), of "0x0701" "[]" b] show ?thesis
    unfolding generate_clock_read_def plain_commands CLOCK_READ_def by (simp add: words_agree_def del: py_bytes_simps append_Cons)
qed

lemma poll_cycle_answered:
  assumes "engine_ready f st n" and "flow_ok f" and "date_ok d"
  shows "poll_answered n st (fins_poll_cycle f d st)"
  using memory_read_answered [OF assms(1,2)] memory_write_answered [OF assms(1,2)] controller_data_answered [OF assms(1,2)]
    controller_status_answered [OF assms(1)] clock_answered [OF assms(1,3)]
  by (simp add: fins_poll_cycle_def Let_def)

section \<open>The conversation\<close>

definition fins_answered :: "fins_conv \<Rightarrow> nat \<Rightarrow> fins_message \<Rightarrow> fins_message \<Rightarrow> bool" where
  "fins_answered st i req resp \<longleftrightarrow>
     m_icf req = 0x80 \<and> m_icf resp = 0xC0 \<and> m_sid req = (fins_sid st + int i) mod 256 \<and> m_sid resp = m_sid req
     \<and> m_dst req = (0, dst_node st, 0) \<and> m_src req = (0, src_node st, 0) \<and> m_dst resp = m_src req \<and> m_src resp = m_dst req
     \<and> m_command resp = m_command req \<and> take 2 (m_text resp) = [0, 0]
     \<and> words_agree (m_command req) (m_text req) (drop 2 (m_text resp))"

lemma fins_answered_Suc:
  assumes "fins_answered st' i req resp" and "src_node st' = src_node st" "dst_node st' = dst_node st" "fins_sid st' = (fins_sid st + 1) mod 256"
  shows "fins_answered st (Suc i) req resp"
proof -
  have "((fins_sid st + 1) mod 256 + int i) mod 256 = (fins_sid st + int (Suc i)) mod 256" by (simp add: mod_simps ac_simps)
  with assms show ?thesis by (simp add: fins_answered_def)
qed

text \<open>The events of a series of polls, in pairs.\<close>

definition pair_answered :: "fins_conv \<Rightarrow> fins_event list \<Rightarrow> nat \<Rightarrow> bool" where
  "pair_answered st evs i \<longleftrightarrow> ev_client (evs ! (2 * i)) \<and> \<not> ev_client (evs ! (2 * i + 1))
     \<and> (\<exists>req resp. message_of (evs ! (2 * i)) = Some req \<and> message_of (evs ! (2 * i + 1)) = Some resp \<and> fins_answered st i req resp)"

lemma polls_answered:
  assumes "fins_link f" and "flow_ok f"
  shows "conv_ok st \<Longrightarrow> seq_room (4600 * int (length ds)) st \<Longrightarrow> \<forall>d \<in> set ds. date_ok d \<Longrightarrow>
    \<exists>evs st'. fins_polls f ds st = Inr (evs, st') \<and> length evs = 2 * length ds \<and> (\<forall>i < length ds. pair_answered st evs i)"
proof (induction ds arbitrary: st)
  case (Cons d ds)
  have "engine_ready f st (4600 * int (length ds))"
    using Cons.prems(1,2) assms(1) by (simp add: engine_ready_def algebra_simps)
  then obtain command body data evs st1 where p: "fins_poll_cycle f d st = Inr (evs, st1)" "exchanged command body data st evs st1"
      "words_agree command body data" and room: "seq_room (4600 * int (length ds)) st1"
    using poll_cycle_answered [OF _ assms(2), of st _ d] Cons.prems(3) unfolding poll_answered_def by force
  then obtain a b where ab: "evs = [a, b]" "ev_client a" "\<not> ev_client b" "message_of a = Some (request_of command body st)"
      "message_of b = Some (response_of command data st)"
    and st1: "src_node st1 = src_node st" "dst_node st1 = dst_node st" "fins_sid st1 = (fins_sid st + 1) mod 256"
    by (auto simp: exchanged_def)
  have "conv_ok st1" using Cons.prems(1) st1 by (simp add: conv_ok_def)
  with Cons.IH [of st1] Cons.prems(3) room obtain evs' st' where IH: "fins_polls f ds st1 = Inr (evs', st')" "length evs' = 2 * length ds"
      "\<forall>i < length ds. pair_answered st1 evs' i"
    by auto
  have first: "pair_answered st (evs @ evs') 0"
    using ab p(3) Cons.prems(1) by (simp add: pair_answered_def fins_answered_def request_of_def response_of_def conv_ok_def)
  have "pair_answered st (evs @ evs') (Suc i)" if "i < length ds" for i
    using IH(3) that fins_answered_Suc [OF _ st1] ab(1) by (fastforce simp: pair_answered_def)
  with first have "\<forall>i < length (d # ds). pair_answered st (evs @ evs') i"
    by (metis less_Suc_eq_0_disj length_Cons)
  with p(1) IH ab(1) show ?case by simp
qed simp

section \<open>The properties\<close>

text \<open>
  FINS over TCP never starts. In every transport mode but UDP the startup sequence ends after the
  client's SYN at the latest, with a \<open>TypeError\<close> if scapy serialised the SYN, since the engine
  passes \<open>tcp_options\<close> to a builder without such a parameter: neither the handshake nor the exchange
  of node addresses takes place.  Over UDP there is nothing to start.
\<close>

theorem fins_tcp_startup_raises:
  "if transport_mode st = ''udp'' then startup_sequence f client_isn server_isn st = ([], Inr st)
   else \<exists>evs e. startup_sequence f client_isn server_isn st = (evs, Inl e) \<and> length evs \<le> 1 \<and> (evs \<noteq> [] \<longrightarrow> e = TypeError)"
  by (cases "fins_send f True (fins_tcp_syn (source f) (destination f) client_isn) ''tcp_syn''")
    (simp_all add: startup_sequence_def tcp_handshake_def syn_ack_call_def FINS_SYN_ACK_PARAMS_def)

text \<open>
  C21: the polls of a FINS conversation. The configuration is one that \<open>validate_config\<close> accepts,
  with at most 1998 octets to write; the model and the firmware version of the PLC are ASCII; the
  dates are those of a calendar; scapy serialises what fits its fields; and over TCP there are at most
  900000 polls, as the sequence numbers are never reduced. Then every series of polls from the
  initial state succeeds and consists of pairs: a command of the client and the response of the PLC,
  both decodable, over UDP or in a valid FINS/TCP frame. The response goes back from the node
  addressed to the node that asked, has the service identifier of the command, counted modulo 256
  from poll to poll, repeats its command code and has end code 0. A read returns as many words as it
  asks for and a write announces as many as it carries.
\<close>

theorem fins_polls_answered:
  assumes "create_initial_state f sid = Inr st" and "0 \<le> sid" "sid \<le> 255"
    and "validate_config (config f) = []" and "ascii_name (dst_model f)" "ascii_name (dst_version f)"
    and "case cfg_write_data (config f) of Some w \<Rightarrow> length w \<le> 1998 | None \<Rightarrow> True"
    and "\<forall>d \<in> set ds. date_ok d"
    and "fins_link f" and "transport_mode st = ''udp'' \<or> length ds \<le> 900000"
  shows "\<exists>evs st'. fins_polls f ds st = Inr (evs, st') \<and> length evs = 2 * length ds \<and> (\<forall>i < length ds. pair_answered st evs i)"
proof (rule polls_answered [OF assms(9)])
  show "conv_ok st" using assms(1-3) by (auto simp: create_initial_state_def conv_ok_def res_simps)
  have "seq_client st = None" "seq_server st = None" using assms(1) by (auto simp: create_initial_state_def res_simps)
  then show "seq_room (4600 * int (length ds)) st" using assms(10) by (auto simp: seq_room_def)
  show "flow_ok f" using assms(4-7) by (simp add: flow_ok_def)
qed (rule assms(8))

section \<open>An example\<close>

definition demo_fins :: fins_flow where
  "demo_fins = \<lparr>source = \<lparr>mac_address = ''00:00:00:00:00:01'', ip_address = ''10.0.0.1'', device_port = 0, unit_id = None, tcp_opts = None\<rparr>,
     destination = \<lparr>mac_address = ''00:00:00:00:00:02'', ip_address = ''10.0.0.2'', device_port = 0, unit_id = None, tcp_opts = None\<rparr>,
     dst_model = None, dst_version = None,
     config = \<lparr>cfg_transport_mode = Some ''tcp'', cfg_src_node = Some 7, cfg_dst_node = Some 9, cfg_command_type = None, cfg_area_code = Some 0xB0,
       cfg_start_address = Some 100, cfg_num_items = Some 999, cfg_write_data = None\<rparr>,
     wire = (\<lambda>p. if packet_fits p then Inr [] else Inl StructError)\<rparr>"

definition demo_fins_draws :: fins_draws where
  "demo_fins_draws = \<lparr>word_draw = (\<lambda>i. 7), now_year = 2026, now_fields = [11, 20, 1, 2, 3, 4]\<rparr>"

theorem fins_polls_answered_witness:
  "\<exists>st evs st'. create_initial_state demo_fins 255 = Inr st \<and> fins_polls demo_fins [demo_fins_draws, demo_fins_draws] st = Inr (evs, st')
     \<and> length evs = 4 \<and> pair_answered st evs 0 \<and> pair_answered st evs 1"
proof -
  obtain st where st: "create_initial_state demo_fins 255 = Inr st"
    by (simp add: create_initial_state_def node_of_def demo_fins_def)
  have "validate_config (config demo_fins) = []" by (simp add: validate_config_def demo_fins_def node_outside_def VALID_AREAS_def)
  moreover have "\<forall>d \<in> set [demo_fins_draws, demo_fins_draws]. date_ok d" by (simp add: date_ok_def demo_fins_draws_def)
  moreover have "ascii_name (dst_model demo_fins)" "ascii_name (dst_version demo_fins)"
      "case cfg_write_data (config demo_fins) of Some w \<Rightarrow> length w \<le> 1998 | None \<Rightarrow> True"
    "fins_link demo_fins" "transport_mode st = ''udp'' \<or> length [demo_fins_draws, demo_fins_draws] \<le> 900000"
    by (simp_all add: demo_fins_def fins_link_def fits_def)
  ultimately show ?thesis
    using fins_polls_answered [OF st, of "[demo_fins_draws, demo_fins_draws]"] st by (auto simp: numeral_2_eq_2)
qed

end
