(* ===== verification/Compliance.thy ===== *)
theory Compliance
  imports CellIsolation
begin

text \<open>
  \<open>backend/app/services/conduit_compliance.py\<close>: the report of the studio on flows that no conduit
  covers, and how it relates to the run-time gate of \<open>cell_isolation.py\<close>.  Definitions are arbitrary
  JSON values, so every access can raise.  The findings are pydantic models: fields declared as
  strings take nothing else, and a failing validation raises a \<open>ValueError\<close>.  The name of a
  flow without one is the text made of its two device ids, the constructor \<open>DefaultName\<close>.
\<close>

section \<open>Findings\<close>

datatype severity = WARNING | BLOCKING

datatype reason = NO_CONDUIT | PROTOCOL_NOT_ALLOWED | WRONG_DIRECTION

datatype flow_name = Name string | DefaultName pyval pyval

record finding =
  fnd_flow :: string
  fnd_name :: flow_name
  fnd_source :: string
  fnd_target :: string
  fnd_protocol :: string
  fnd_severity :: severity
  fnd_reason :: reason
  fnd_conduit :: "string option"

record report =
  findings :: "finding list"
  total_flows :: nat
  compliant_flows :: nat
  non_compliant_flows :: nat

fun model_str :: "pyval \<Rightarrow> string res" where
  "model_str (PStr s) = Inr s"
| "model_str _ = Inl ValueError"

text \<open>\<open>flow.get("name", f"...")\<close>, checked when the finding is built.\<close>

definition name_field :: "pyval option \<Rightarrow> pyval \<Rightarrow> pyval \<Rightarrow> flow_name res" where
  "name_field n source_id target_id =
     (case n of None \<Rightarrow> Inr (DefaultName source_id target_id) | Some v \<Rightarrow> bnd (model_str v) (\<lambda>s. Inr (Name s)))"

definition compliance_finding ::
    "string \<Rightarrow> flow_name res \<Rightarrow> pyval \<Rightarrow> pyval \<Rightarrow> pyval \<Rightarrow> severity \<Rightarrow> reason \<Rightarrow> string option \<Rightarrow> finding res" where
  "compliance_finding flow_id flow_name source_zone target_zone protocol sev why cid =
     bnd flow_name (\<lambda>n. bnd (model_str source_zone) (\<lambda>s. bnd (model_str target_zone) (\<lambda>t. bnd (model_str protocol) (\<lambda>p.
     Inr \<lparr>fnd_flow = flow_id, fnd_name = n, fnd_source = s, fnd_target = t, fnd_protocol = p, fnd_severity = sev,
          fnd_reason = why, fnd_conduit = cid\<rparr>))))"

section \<open>Looking up zones and conduits\<close>

definition PROTOCOL_ALIASES :: "(string \<times> string) list" where
  "PROTOCOL_ALIASES =
     [(''profisafe'', ''profinet''),
      (''s7comm_plus'', ''s7comm''),
      (''cip_safety'', ''ethernet_ip''),
      (''modbus'', ''modbus_tcp''),
      (''enip'', ''ethernet_ip''),
      (''bacnet_ip'', ''bacnet'')]"

fun resolve_alias :: "pyval \<Rightarrow> pyval res" where
  "resolve_alias (PStr s) = Inr (PStr (case map_of PROTOCOL_ALIASES s of None \<Rightarrow> s | Some t \<Rightarrow> t))"
| "resolve_alias v = bnd (check_hash v) (\<lambda>_. Inr v)"

text \<open>\<open>d.get(k, d.get(k', v))\<close>, \<open>d.get(k, v)\<close> with a computed key, and \<open>d.items()\<close>.\<close>

definition get_either :: "pyval \<Rightarrow> string \<Rightarrow> string \<Rightarrow> pyval \<Rightarrow> pyval res" where
  "get_either d k k' v = bnd (py_get d k' v) (py_get d k)"

fun get_at :: "pyval \<Rightarrow> pyval \<Rightarrow> pyval \<Rightarrow> pyval res" where
  "get_at (PDict d) k v = bnd (dict_find k d) (\<lambda>r. Inr (case r of None \<Rightarrow> v | Some w \<Rightarrow> w))"
| "get_at _ k v = Inl AttributeError"

fun items_of :: "pyval \<Rightarrow> pydict res" where
  "items_of (PDict d) = Inr d"
| "items_of _ = Inl AttributeError"

fun scan_zones :: "pyval \<Rightarrow> pydict \<Rightarrow> pyval res" where
  "scan_zones device_id [] = Inr PNone"
| "scan_zones device_id ((zid, zone) # zs) =
     bnd (get_either zone ''deviceIds'' ''device_ids'' (PList [])) (\<lambda>device_ids.
     bnd (py_in device_id device_ids) (\<lambda>found.
     if found then Inr (PStr zid) else scan_zones device_id zs))"

definition get_device_zone :: "pyval \<Rightarrow> pyval \<Rightarrow> pyval \<Rightarrow> pyval res" where
  "get_device_zone device_id devices zones =
     bnd (get_at devices device_id (PDict [])) (\<lambda>device.
     bnd (get_first device [''zoneId'', ''zone_id'', ''zone'']) (\<lambda>zone_id.
     if truthy zone_id then Inr zone_id else bnd (items_of zones) (scan_zones device_id)))"

text \<open>What the loop says of one conduit: \<open>None\<close> if it does not connect the zones.\<close>

definition conduit_verdict :: "pyval \<Rightarrow> pyval \<Rightarrow> pyval \<Rightarrow> pyval \<Rightarrow> reason option option res" where
  "conduit_verdict conduit source_zone_id target_zone_id resolved =
     bnd (get_either conduit ''sourceZoneId'' ''source_zone_id'' (PStr [])) (\<lambda>src.
     bnd (get_either conduit ''targetZoneId'' ''target_zone_id'' (PStr [])) (\<lambda>tgt.
     bnd (py_get conduit ''direction'' (PStr ''bidirectional'')) (\<lambda>direction.
     bnd (get_either conduit ''allowedProtocols'' ''allowed_protocols'' (PList [])) (\<lambda>allowed.
     let forward_match = (py_eq src source_zone_id \<and> py_eq tgt target_zone_id);
         reverse_match = (py_eq src target_zone_id \<and> py_eq tgt source_zone_id)
     in if \<not> forward_match \<and> \<not> reverse_match then Inr None
        else if direction = PStr ''a_to_b'' \<and> \<not> forward_match then Inr (Some (Some WRONG_DIRECTION))
        else if direction = PStr ''b_to_a'' \<and> \<not> reverse_match then Inr (Some (Some WRONG_DIRECTION))
        else bnd (py_iter allowed) (\<lambda>ps.
             bnd (mapM resolve_alias ps) (\<lambda>resolved_allowed.
             bnd (oset_mem resolved resolved_allowed) (\<lambda>ok.
             Inr (Some (if ok then None else Some PROTOCOL_NOT_ALLOWED)))))))))"

fun first_match :: "pyval \<Rightarrow> pyval \<Rightarrow> pyval \<Rightarrow> pydict \<Rightarrow> (string option \<times> reason option) res" where
  "first_match s t resolved [] = Inr (None, Some NO_CONDUIT)"
| "first_match s t resolved ((cid, conduit) # cs) =
     bnd (conduit_verdict conduit s t resolved) (\<lambda>v.
     case v of None \<Rightarrow> first_match s t resolved cs | Some r \<Rightarrow> Inr (Some cid, r))"

definition find_matching_conduit :: "pyval \<Rightarrow> pyval \<Rightarrow> pyval \<Rightarrow> pyval \<Rightarrow> (string option \<times> reason option) res" where
  "find_matching_conduit source_zone_id target_zone_id protocol conduits =
     bnd (resolve_alias protocol) (\<lambda>resolved.
     bnd (items_of conduits) (first_match source_zone_id target_zone_id resolved))"

section \<open>The report\<close>

text \<open>\<open>a in s and b in s\<close>\<close>

definition both_in :: "pyval \<Rightarrow> pyval \<Rightarrow> pyval list \<Rightarrow> bool res" where
  "both_in a b s = bnd (oset_mem a s) (\<lambda>m. if m then oset_mem b s else Inr False)"

definition severity_for :: "string \<Rightarrow> pyval list \<Rightarrow> pyval \<Rightarrow> pyval \<Rightarrow> severity res" where
  "severity_for mode cells src_zone tgt_zone =
     (if mode = MODE_OFF then Inr WARNING
      else if \<not> truthy src_zone \<or> \<not> truthy tgt_zone \<or> py_eq src_zone tgt_zone then Inr WARNING
      else bnd (both_in src_zone tgt_zone cells) (\<lambda>c. Inr (if c then BLOCKING else WARNING)))"

text \<open>The body of the loop over the flows: the finding of a flow, \<open>None\<close> if it is compliant.\<close>

definition check_flow ::
    "string \<Rightarrow> pyval list \<Rightarrow> pyval \<Rightarrow> pyval \<Rightarrow> pyval \<Rightarrow> string \<Rightarrow> pyval \<Rightarrow> finding option res" where
  "check_flow mode cells devices zones conduits flow_id flow =
     bnd (get_either flow ''sourceDeviceId'' ''source_device_id'' (PStr [])) (\<lambda>source_id.
     bnd (get_either flow ''targetDeviceId'' ''target_device_id'' (PStr [])) (\<lambda>target_id.
     bnd (py_get flow ''protocol'' (PStr [])) (\<lambda>protocol.
     let flow_name = name_field (case flow of PDict d \<Rightarrow> map_of d ''name'' | _ \<Rightarrow> None) source_id target_id in
     bnd (get_device_zone source_id devices zones) (\<lambda>source_zone.
     bnd (get_device_zone target_id devices zones) (\<lambda>target_zone.
     if \<not> truthy source_zone \<or> \<not> truthy target_zone then
       bnd (severity_for mode cells source_zone target_zone) (\<lambda>sev.
       bnd (compliance_finding flow_id flow_name (py_or source_zone (PStr ''(none)'')) (py_or target_zone (PStr ''(none)''))
              protocol sev NO_CONDUIT None) (\<lambda>f. Inr (Some f)))
     else if py_eq source_zone target_zone then Inr None
     else if \<not> truthy conduits then
       bnd (severity_for mode cells source_zone target_zone) (\<lambda>sev0.
       bnd (if mode = MODE_STRICT_NORTHBOUND then both_in source_zone target_zone cells else Inr False) (\<lambda>c.
       bnd (compliance_finding flow_id flow_name source_zone target_zone protocol (if c then BLOCKING else sev0) NO_CONDUIT None)
         (\<lambda>f. Inr (Some f))))
     else
       bnd (find_matching_conduit source_zone target_zone protocol conduits) (\<lambda>(conduit_id, why).
       bnd (both_in source_zone target_zone cells) (\<lambda>cell_to_cell.
       if mode = MODE_STRICT_NORTHBOUND \<and> cell_to_cell \<and> why = None then
         bnd (compliance_finding flow_id flow_name source_zone target_zone protocol BLOCKING NO_CONDUIT conduit_id)
           (\<lambda>f. Inr (Some f))
       else
         (case why of
            None \<Rightarrow> Inr None
          | Some r \<Rightarrow>
              bnd (severity_for mode cells source_zone target_zone) (\<lambda>sev.
              bnd (compliance_finding flow_id flow_name source_zone target_zone protocol sev r conduit_id)
                (\<lambda>f. Inr (Some f)))))))))))"

definition validate_conduit_compliance :: "pyval \<Rightarrow> report res" where
  "validate_conduit_compliance defn =
     bnd (py_get defn ''devices'' (PDict [])) (\<lambda>devices.
     bnd (py_get defn ''flows'' (PDict [])) (\<lambda>flows.
     bnd (py_get defn ''zones'' (PDict [])) (\<lambda>zones.
     bnd (py_get defn ''conduits'' (PDict [])) (\<lambda>conduits.
     bnd (parse_config defn) (\<lambda>cfg.
     bnd (if iso_mode cfg \<noteq> MODE_OFF then classify_cell_zones zones (iso_levels cfg) else Inr []) (\<lambda>cells.
     bnd (items_of flows) (\<lambda>fs.
     bnd (mapM (\<lambda>(fid, flow). check_flow (iso_mode cfg) cells devices zones conduits fid flow) fs) (\<lambda>rs.
     let found = List.map_filter id rs
     in Inr \<lparr>findings = found, total_flows = length fs, compliant_flows = length (filter (\<lambda>r. r = None) rs),
             non_compliant_flows = length found\<rparr>))))))))"

section \<open>How both look things up\<close>

lemma resolve_alias_eq: "resolve_alias = resolve_protocol"
proof
  fix v show "resolve_alias v = resolve_protocol v"
    by (cases v) (simp_all add: PROTOCOL_ALIASES_def protocol_aliases_def)
qed

text \<open>A flow with the keys that the studio writes.\<close>

definition plain_flow :: "pydict \<Rightarrow> string \<Rightarrow> string \<Rightarrow> bool" where
  "plain_flow d s t \<longleftrightarrow>
     map_of d ''sourceDeviceId'' = Some (PStr s) \<and> map_of d ''targetDeviceId'' = Some (PStr t) \<and> s \<noteq> [] \<and> t \<noteq> []
     \<and> map_of d ''source_device_id'' = None \<and> map_of d ''destination_device_id'' = None \<and> map_of d ''destinationDeviceId'' = None"

definition plain_zone :: "pyval \<Rightarrow> bool" where
  "plain_zone z \<longleftrightarrow>
     (case z of
        PDict d \<Rightarrow> map_of d ''device_ids'' = None
          \<and> (case map_of d ''deviceIds'' of None \<Rightarrow> True | Some (PList xs) \<Rightarrow> True | Some _ \<Rightarrow> False)
      | _ \<Rightarrow> False)"

definition plain_conduit :: "pyval \<Rightarrow> bool" where
  "plain_conduit c \<longleftrightarrow>
     (case c of
        PDict d \<Rightarrow>
          (case (map_of d ''sourceZoneId'', map_of d ''targetZoneId'', map_of d ''allowedProtocols'') of
             (Some (PStr a), Some (PStr b), Some (PList ps)) \<Rightarrow> a \<noteq> [] \<and> b \<noteq> [] \<and> map_of d ''allowed_protocols'' = None
           | _ \<Rightarrow> False)
      | _ \<Rightarrow> False)"

lemma plain_conduitE:
  assumes "plain_conduit c"
  obtains d a b ps where "c = PDict d" "map_of d ''sourceZoneId'' = Some (PStr a)" "map_of d ''targetZoneId'' = Some (PStr b)"
    "map_of d ''allowedProtocols'' = Some (PList ps)" "a \<noteq> []" "b \<noteq> []" "map_of d ''allowed_protocols'' = None"
  using assms by (auto simp: plain_conduit_def split: pyval.splits option.splits)

lemma plain_flow_ends:
  assumes "plain_flow d s t"
  shows "flow_source (PDict d) = Inr (PStr s)" "flow_target (PDict d) = Inr (PStr t)"
    "get_either (PDict d) ''sourceDeviceId'' ''source_device_id'' v = Inr (PStr s)"
    "get_either (PDict d) ''targetDeviceId'' ''target_device_id'' v = Inr (PStr t)"
  using assms by (simp_all add: plain_flow_def flow_source_def flow_target_def get_either_def)

lemma scan_zones_eq:
  assumes "\<forall>z \<in> snd ` set Z. plain_zone z"
  shows "scan_zones x Z = scan_members x (oitems Z)"
  using assms
proof (induction Z)
  case (Cons kz Z)
  obtain d where "snd kz = PDict d" "map_of d ''device_ids'' = None"
      "map_of d ''deviceIds'' = None \<or> (\<exists>xs. map_of d ''deviceIds'' = Some (PList xs))"
    using Cons.prems by (auto simp: plain_zone_def split: pyval.splits option.splits)
  with Cons show ?case
    by (cases kz) (auto simp: oitems_def get_either_def py_or_def intro!: bnd_cong)
qed (simp add: oitems_def)

lemma device_zone_eq:
  assumes "\<forall>z \<in> snd ` set Z. plain_zone z"
  shows "get_device_zone (PStr x) (PDict D) (PDict Z) = zone_of (PStr x) (oitems D) (oitems Z)"
  by (simp add: get_device_zone_def zone_of_def scan_zones_eq [OF assms] Let_def cong: bnd_cong if_cong del: get_first.simps)

section \<open>Conduits\<close>

text \<open>The two zones that a conduit connects.\<close>

definition conduit_ends :: "pyval \<Rightarrow> pyval set" where
  "conduit_ends c = (case c of PDict d \<Rightarrow> {the (map_of d ''sourceZoneId''), the (map_of d ''targetZoneId'')} | _ \<Rightarrow> {})"

lemma verdict_None [simp]: "(if ok then None else Some r) = None \<longleftrightarrow> ok"
  by simp

lemma permits_verdict:
  assumes "plain_conduit c" and "resolve_protocol p = Inr rp"
  shows "conduit_permits c s t p = bnd (conduit_verdict c s t rp) (\<lambda>v. Inr (v = Some None))"
proof -
  obtain d a b ps where "c = PDict d" "map_of d ''sourceZoneId'' = Some (PStr a)" "map_of d ''targetZoneId'' = Some (PStr b)"
      "map_of d ''allowedProtocols'' = Some (PList ps)" "a \<noteq> []" "b \<noteq> []" "map_of d ''allowed_protocols'' = None"
    using assms(1) by (rule plain_conduitE)
  then show ?thesis
    using assms(2)
    by (simp add: conduit_permits_def conduit_verdict_def get_either_def resolve_alias_eq py_or_def Let_def bnd_assoc cong: bnd_cong)
qed

lemma verdict_ends:
  assumes "plain_conduit c" and "conduit_verdict c s t rp = Inr (Some r)"
  shows "conduit_ends c = {s, t}"
proof -
  obtain d a b ps where "c = PDict d" "map_of d ''sourceZoneId'' = Some (PStr a)" "map_of d ''targetZoneId'' = Some (PStr b)"
      "map_of d ''allowedProtocols'' = Some (PList ps)" "a \<noteq> []" "b \<noteq> []" "map_of d ''allowed_protocols'' = None"
    using assms(1) by (rule plain_conduitE)
  then show ?thesis
    using assms(2) by (auto simp: conduit_verdict_def get_either_def conduit_ends_def Let_def split: if_splits)
qed

lemma any_permits_True: "any_permits cs s t p = Inr True \<Longrightarrow> \<exists>c \<in> set cs. conduit_permits c s t p = Inr True"
  by (induction cs) (auto simp: res_simps split: if_splits)

lemma first_match_permits:
  assumes "\<forall>c \<in> snd ` set C. plain_conduit c" and "resolve_protocol p = Inr rp"
    and "any_permits (map snd C) s t p = Inr b" and "first_match s t rp C = Inr (cid, why)"
  shows "(why = None \<longrightarrow> b) \<and> (distinct (map (conduit_ends \<circ> snd) C) \<and> b \<longrightarrow> why = None)"
  using assms(1,3,4)
proof (induction C)
  case (Cons kc C)
  obtain k c where kc: "kc = (k, c)" by (cases kc)
  have plain: "plain_conduit c" using Cons.prems(1) kc by simp
  obtain v where v: "conduit_verdict c s t rp = Inr v" using Cons.prems(3) kc by (auto simp: res_simps)
  have head: "conduit_permits c s t p = Inr (v = Some None)" by (simp add: permits_verdict [OF plain assms(2)] v)
  show ?case
  proof (cases v)
    case None
    with Cons kc v head show ?thesis by simp
  next
    case (Some r)
    have "False" if "r \<noteq> None" "b" "conduit_ends c \<notin> conduit_ends ` snd ` set C"
    proof -
      have "any_permits (map snd C) s t p = Inr True" using Cons.prems(2) kc head Some that by simp
      then obtain c' where c': "c' \<in> snd ` set C" "conduit_permits c' s t p = Inr True"
        using any_permits_True by fastforce
      then obtain v' where "conduit_verdict c' s t rp = Inr (Some v')"
        using Cons.prems(1) permits_verdict [OF _ assms(2), of c'] by (auto simp: res_simps)
      moreover have "plain_conduit c'" using Cons.prems(1) c'(1) by auto
      ultimately have "conduit_ends c' = {s, t}" using verdict_ends by blast
      moreover have "conduit_ends c = {s, t}" using verdict_ends [OF plain] v Some by simp
      ultimately show False using that c' by auto
    qed
    then have "r = None" if "b" "distinct (map (conduit_ends \<circ> snd) (kc # C))" using that kc by (auto simp: image_comp)
    then show ?thesis using Cons.prems(2,3) kc v head Some by (auto simp: comp_def)
  qed
qed auto

section \<open>The report and the gate\<close>

lemma parse_config_ok:
  assumes "parse_config d = Inr cfg"
  shows "iso_levels cfg \<noteq> []" "iso_mode cfg = MODE_OFF \<or> iso_mode cfg = MODE_CONDUIT_GATED \<or> iso_mode cfg = MODE_STRICT_NORTHBOUND"
  using assms
  by (auto simp: parse_config_def default_isolation_def DEFAULT_CELL_LEVELS_def valid_mode_def VALID_MODES_def res_simps Let_def
      split: if_splits pyval.splits)

definition crosses :: "pyval list \<Rightarrow> pyval \<Rightarrow> pyval \<Rightarrow> bool" where
  "crosses cells s t \<longleftrightarrow> truthy s \<and> truthy t \<and> \<not> py_eq s t \<and> both_in s t cells = Inr True"

lemma both_in_eq: "both_in s t cells = Inr b \<Longrightarrow> b \<longleftrightarrow> oset_mem s cells = Inr True \<and> oset_mem t cells = Inr True"
  by (auto simp: both_in_def res_simps split: if_splits)

lemma severity_blocking: "severity_for mode cells s t = Inr sev \<Longrightarrow> sev = BLOCKING \<longleftrightarrow> mode \<noteq> MODE_OFF \<and> crosses cells s t"
  by (auto simp: severity_for_def crosses_def res_simps split: if_splits)

lemma finding_fields:
  "compliance_finding fid n s t p sev why cid = Inr f \<Longrightarrow> fnd_flow f = fid \<and> fnd_severity f = sev"
  by (auto simp: compliance_finding_def res_simps)

definition is_blocking :: "finding option \<Rightarrow> bool" where
  "is_blocking r \<longleftrightarrow> (\<exists>f. r = Some f \<and> fnd_severity f = BLOCKING)"

lemma check_flow_flow: "check_flow mode cells D Z C fid flow = Inr (Some f) \<Longrightarrow> fnd_flow f = fid"
  by (auto simp: check_flow_def Let_def res_simps dest!: finding_fields split: if_splits option.splits prod.splits)

lemma check_flow_blocking:
  assumes "plain_flow fd a b" and "\<forall>z \<in> snd ` set Z. plain_zone z"
    and "check_flow mode cells (PDict D) (PDict Z) (PDict C) fid (PDict fd) = Inr r" and "mode = MODE_OFF \<longrightarrow> cells = []"
  obtains sz tz p where "zone_of (PStr a) (oitems D) (oitems Z) = Inr sz" "zone_of (PStr b) (oitems D) (oitems Z) = Inr tz"
    "py_get (PDict fd) ''protocol'' (PStr []) = Inr p"
    "crosses cells sz tz \<and> C \<noteq> [] \<longrightarrow> (\<exists>m. find_matching_conduit sz tz p (PDict C) = Inr m)"
    "is_blocking r \<longleftrightarrow> mode \<noteq> MODE_OFF \<and> crosses cells sz tz \<and>
       (mode = MODE_STRICT_NORTHBOUND \<or> C = [] \<or> (\<forall>m. find_matching_conduit sz tz p (PDict C) = Inr m \<longrightarrow> snd m \<noteq> None))"
proof -
  obtain p sz tz where p: "py_get (PDict fd) ''protocol'' (PStr []) = Inr p"
    and z: "zone_of (PStr a) (oitems D) (oitems Z) = Inr sz" "zone_of (PStr b) (oitems D) (oitems Z) = Inr tz"
    using assms(3) unfolding check_flow_def plain_flow_ends [OF assms(1)] bnd.simps device_zone_eq [OF assms(2)] Let_def
    by (auto simp: bnd_eq_Inr simp del: py_get.simps)
  note run = assms(3) [unfolded check_flow_def plain_flow_ends [OF assms(1)] device_zone_eq [OF assms(2)] Let_def p z bnd.simps]
  show ?thesis
  proof (rule that [OF z p])
    show "crosses cells sz tz \<and> C \<noteq> [] \<longrightarrow> (\<exists>m. find_matching_conduit sz tz p (PDict C) = Inr m)"
      using run by (auto simp: crosses_def res_simps split: if_splits)
    show "is_blocking r \<longleftrightarrow> mode \<noteq> MODE_OFF \<and> crosses cells sz tz \<and>
       (mode = MODE_STRICT_NORTHBOUND \<or> C = [] \<or> (\<forall>m. find_matching_conduit sz tz p (PDict C) = Inr m \<longrightarrow> snd m \<noteq> None))"
      using run
      by (auto simp: is_blocking_def crosses_def res_simps dest!: finding_fields dest: severity_blocking
          split: if_splits option.splits prod.splits)
  qed
qed

lemma gate_drops:
  assumes "plain_flow fd a b" and "L \<noteq> []" and "cell_ids (oitems Z) L = Inr cells"
    and "mode = MODE_CONDUIT_GATED \<or> mode = MODE_STRICT_NORTHBOUND"
    and "should_drop_flow (PDict fd) (PDict D) (PDict Z) (PDict C) \<lparr>iso_mode = mode, iso_levels = L\<rparr> = Inr (dropped, note)"
    and "zone_of (PStr a) (oitems D) (oitems Z) = Inr sz" "zone_of (PStr b) (oitems D) (oitems Z) = Inr tz"
    and "py_get (PDict fd) ''protocol'' (PStr []) = Inr p"
  shows "dropped \<longleftrightarrow> crosses cells sz tz \<and> (mode = MODE_STRICT_NORTHBOUND \<or> any_permits (map snd C) sz tz p = Inr False)"
    and "mode = MODE_CONDUIT_GATED \<and> crosses cells sz tz \<longrightarrow> (\<exists>ok. any_permits (map snd C) sz tz p = Inr ok)"
proof -
  have place: "placed (PDict fd) (PDict D) (PDict Z) =
      Inr (if oitems Z = [] \<or> \<not> truthy sz \<or> \<not> truthy tz then None else Some (oitems Z, sz, tz))"
    using assms(6,7) plain_flow_ends [OF assms(1)] assms(1) by (simp add: placed_def plain_flow_def)
  have empty: "\<not> crosses cells sz tz" if "oitems Z = []"
    using that assms(3) by (auto simp: crosses_def both_in_def oset_mem_def res_simps split: if_splits)
  have both: "both_in sz tz cells = Inr (ms \<and> mt)" if "oset_mem sz cells = Inr ms" "oset_mem tz cells = Inr mt" for ms mt
    using that by (simp add: both_in_def)
  show "dropped \<longleftrightarrow> crosses cells sz tz \<and> (mode = MODE_STRICT_NORTHBOUND \<or> any_permits (map snd C) sz tz p = Inr False)"
    using assms(3-5,8) empty
    by (auto simp: should_drop_strict_placed [OF assms(2)] should_drop_gated_placed [OF assms(2)] place crosses_def both res_simps
        simp del: py_get.simps split: if_splits)
  show "mode = MODE_CONDUIT_GATED \<and> crosses cells sz tz \<longrightarrow> (\<exists>ok. any_permits (map snd C) sz tz p = Inr ok)"
    using assms(3-5,8) empty
    by (auto simp: should_drop_gated_placed [OF assms(2)] place crosses_def both res_simps
        simp del: py_get.simps split: if_splits)
qed

definition blocked :: "report \<Rightarrow> string \<Rightarrow> bool" where
  "blocked rep fid \<longleftrightarrow> (\<exists>f \<in> set (findings rep). fnd_flow f = fid \<and> fnd_severity f = BLOCKING)"

lemma validateE:
  assumes "validate_conduit_compliance defn = Inr rep" and "parse_config defn = Inr cfg"
    and "py_get defn ''devices'' (PDict []) = Inr devices" "py_get defn ''flows'' (PDict []) = Inr (PDict F)"
    "py_get defn ''zones'' (PDict []) = Inr zones" "py_get defn ''conduits'' (PDict []) = Inr conduits"
  obtains cells rs where
    "(if iso_mode cfg \<noteq> MODE_OFF then classify_cell_zones zones (iso_levels cfg) else Inr []) = Inr cells"
    "mapM (\<lambda>(fid, flow). check_flow (iso_mode cfg) cells devices zones conduits fid flow) F = Inr rs"
    "findings rep = List.map_filter id rs" "total_flows rep = length F"
    "compliant_flows rep = length (filter (\<lambda>r. r = None) rs)" "non_compliant_flows rep = length (List.map_filter id rs)"
  using assms(1) unfolding validate_conduit_compliance_def assms(2-) bnd.simps Let_def
  by (auto simp: bnd_eq_Inr simp del: py_get.simps)

lemma blocked_iff:
  assumes "mapM (\<lambda>(fid, flow). check_flow mode cells D Z C fid flow) F = Inr rs" and "findings rep = List.map_filter id rs"
    and "distinct (map fst F)" and "(fid, flow) \<in> set F"
  obtains r where "check_flow mode cells D Z C fid flow = Inr r" "blocked rep fid \<longleftrightarrow> is_blocking r"
proof -
  have rel: "list_all2 (\<lambda>kf r. check_flow mode cells D Z C (fst kf) (snd kf) = Inr r) F rs"
    using assms(1) by (simp add: mapM_eq_Inr_iff case_prod_beta)
  then obtain i where i: "i < length F" "F ! i = (fid, flow)" "i < length rs" "check_flow mode cells D Z C fid flow = Inr (rs ! i)"
    using assms(4) by (fastforce simp: in_set_conv_nth list_all2_conv_all_nth)
  have "r = rs ! i" if "r \<in> set rs" "r = Some f" "fnd_flow f = fid" for r f
  proof -
    obtain j where j: "j < length F" "r = rs ! j" "check_flow mode cells D Z C (fst (F ! j)) (snd (F ! j)) = Inr r"
      using rel \<open>r \<in> set rs\<close> by (fastforce simp: in_set_conv_nth list_all2_conv_all_nth case_prod_beta)
    then have "fst (F ! j) = fst (F ! i)" using check_flow_flow that i(2) by simp
    then have "j = i" using assms(3) i(1) j(1) by (auto simp: distinct_conv_nth)
    with j(2) show ?thesis by simp
  qed
  note same = this
  have "set (findings rep) = {f. Some f \<in> set rs}" by (force simp: assms(2) map_filter_def)
  then have "blocked rep fid \<longleftrightarrow> (\<exists>f. Some f \<in> set rs \<and> fnd_flow f = fid \<and> fnd_severity f = BLOCKING)"
    by (auto simp: blocked_def)
  also have "\<dots> \<longleftrightarrow> is_blocking (rs ! i)"
  proof
    assume "\<exists>f. Some f \<in> set rs \<and> fnd_flow f = fid \<and> fnd_severity f = BLOCKING"
    then show "is_blocking (rs ! i)" using same unfolding is_blocking_def by metis
  next
    assume "is_blocking (rs ! i)"
    then obtain f where f: "rs ! i = Some f" "fnd_severity f = BLOCKING" by (auto simp: is_blocking_def)
    moreover have "Some f \<in> set rs" using f(1) i(3) nth_mem by metis
    moreover have "fnd_flow f = fid" using check_flow_flow i(4) f(1) by metis
    ultimately show "\<exists>f. Some f \<in> set rs \<and> fnd_flow f = fid \<and> fnd_severity f = BLOCKING" by blast
  qed
  finally show ?thesis using i(4) that by blast
qed

lemma matched_or_permitted:
  assumes "\<forall>c \<in> snd ` set C. plain_conduit c"
    and "find_matching_conduit s t p (PDict C) = Inr m" and "any_permits (map snd C) s t p = Inr ok"
  shows "(snd m = None \<longrightarrow> ok) \<and> (distinct (map (conduit_ends \<circ> snd) C) \<and> ok \<longrightarrow> snd m = None)"
proof -
  obtain cid why where m: "m = (cid, why)" by (cases m)
  obtain rp where rp: "resolve_protocol p = Inr rp" "first_match s t rp C = Inr (cid, why)"
    using assms(2) m by (auto simp: find_matching_conduit_def resolve_alias_eq res_simps)
  then show ?thesis using first_match_permits [OF assms(1) rp(1) assms(3) rp(2)] m by simp
qed

section \<open>The properties\<close>

text \<open>
  C5: What the studio reports as blocking and what the run-time gate drops, for definitions with
  the camel-case keys that the studio writes: a flow with \<open>sourceDeviceId\<close> and
  \<open>targetDeviceId\<close> and none of the other names that only one side reads, zones with \<open>deviceIds\<close>, and conduits with
  \<open>sourceZoneId\<close>, \<open>targetZoneId\<close> and \<open>allowedProtocols\<close>. Whenever both decide on such a flow: if
  the gate drops it, it is reported as blocking, in every mode; and if it is reported as blocking, it
  is dropped, provided that the mode is not the gated one or no two conduits connect the same two zones.
\<close>

theorem blocking_matches_gate:
  assumes "validate_conduit_compliance (PDict defn) = Inr rep" and "parse_config (PDict defn) = Inr cfg"
    and "map_of defn ''devices'' = Some (PDict D)" "map_of defn ''flows'' = Some (PDict F)"
    and "map_of defn ''zones'' = Some (PDict Z)" "map_of defn ''conduits'' = Some (PDict C)"
    and "distinct (map fst F)" and "(fid, PDict fd) \<in> set F" and "plain_flow fd a b"
    and "\<forall>z \<in> snd ` set Z. plain_zone z" and "\<forall>c \<in> snd ` set C. plain_conduit c"
    and "should_drop_flow (PDict fd) (PDict D) (PDict Z) (PDict C) cfg = Inr (dropped, note)"
  shows "(dropped \<longrightarrow> blocked rep fid)
    \<and> (iso_mode cfg \<noteq> MODE_CONDUIT_GATED \<or> distinct (map (conduit_ends \<circ> snd) C) \<longrightarrow> (blocked rep fid \<longleftrightarrow> dropped))"
proof -
  have parts: "py_get (PDict defn) ''devices'' (PDict []) = Inr (PDict D)" "py_get (PDict defn) ''flows'' (PDict []) = Inr (PDict F)"
      "py_get (PDict defn) ''zones'' (PDict []) = Inr (PDict Z)" "py_get (PDict defn) ''conduits'' (PDict []) = Inr (PDict C)"
    using assms(3-6) by simp_all
  obtain cells rs where v: "(if iso_mode cfg \<noteq> MODE_OFF then classify_cell_zones (PDict Z) (iso_levels cfg) else Inr []) = Inr cells"
      "mapM (\<lambda>(fid, flow). check_flow (iso_mode cfg) cells (PDict D) (PDict Z) (PDict C) fid flow) F = Inr rs"
      "findings rep = List.map_filter id rs"
    using validateE [OF assms(1,2) parts] by metis
  obtain r where r: "check_flow (iso_mode cfg) cells (PDict D) (PDict Z) (PDict C) fid (PDict fd) = Inr r" "blocked rep fid \<longleftrightarrow> is_blocking r"
    by (rule blocked_iff [OF v(2,3) assms(7,8)])
  have off: "iso_mode cfg = MODE_OFF \<longrightarrow> cells = []" using v(1) by auto
  show ?thesis
  proof (rule check_flow_blocking [OF assms(9,10) r(1) off])
    fix sz tz p
    assume z: "zone_of (PStr a) (oitems D) (oitems Z) = Inr sz" "zone_of (PStr b) (oitems D) (oitems Z) = Inr tz"
      and p: "py_get (PDict fd) ''protocol'' (PStr []) = Inr p"
      and m: "crosses cells sz tz \<and> C \<noteq> [] \<longrightarrow> (\<exists>m. find_matching_conduit sz tz p (PDict C) = Inr m)"
      and blocking: "is_blocking r \<longleftrightarrow> iso_mode cfg \<noteq> MODE_OFF \<and> crosses cells sz tz \<and>
         (iso_mode cfg = MODE_STRICT_NORTHBOUND \<or> C = [] \<or> (\<forall>m. find_matching_conduit sz tz p (PDict C) = Inr m \<longrightarrow> snd m \<noteq> None))"
    show ?thesis
    proof (cases "iso_mode cfg = MODE_OFF")
      case True
      then show ?thesis using assms(12) blocking r(2) by (simp add: should_drop_flow_def)
    next
      case False
      then have mode: "iso_mode cfg = MODE_CONDUIT_GATED \<or> iso_mode cfg = MODE_STRICT_NORTHBOUND"
        and cells: "cell_ids (oitems Z) (iso_levels cfg) = Inr cells"
        using parse_config_ok [OF assms(2)] v(1) by (auto simp: classify_cell_zones_def)
      have "should_drop_flow (PDict fd) (PDict D) (PDict Z) (PDict C) \<lparr>iso_mode = iso_mode cfg, iso_levels = iso_levels cfg\<rparr>
          = Inr (dropped, note)"
        using assms(12) by (cases cfg) simp
      note drops = gate_drops [OF assms(9) parse_config_ok(1) [OF assms(2)] cells mode this z p]
      show ?thesis
      proof (cases "iso_mode cfg = MODE_CONDUIT_GATED \<and> crosses cells sz tz \<and> C \<noteq> []")
        case True
        then obtain ok match where "any_permits (map snd C) sz tz p = Inr ok" "find_matching_conduit sz tz p (PDict C) = Inr match"
          using drops(2) m by blast
        with True drops(1) blocking r(2) matched_or_permitted [OF assms(11) this(2,1)] show ?thesis by auto
      next
        case False
        with drops(1) blocking r(2) mode show ?thesis by auto
      qed
    qed
  qed
qed

section \<open>Examples\<close>

definition isolated :: "string \<Rightarrow> pydict \<Rightarrow> pydict" where
  "isolated mode d = (''cell_isolation'', PDict [(''mode'', PStr mode)]) # d"

lemma parse_isolated:
  assumes "mode \<in> set VALID_MODES"
  shows "parse_config (PDict (isolated mode d)) = Inr \<lparr>iso_mode = mode, iso_levels = [0, 1, 2]\<rparr>"
proof -
  have "foldM add_level [] (map PInt [0, 1, 2]) = Inr [0, 1, 2]" using foldM_add_level [of "[]" "[0, 1, 2]"] by simp
  then show ?thesis using assms
    by (simp add: parse_config_def isolated_def py_or_def valid_mode_def DEFAULT_CELL_LEVELS_def VALID_MODES_def)
qed

lemma demo_zone_of:
  "get_device_zone (PStr ''plc1'') demo_devices demo_zones = Inr (PStr ''c1'')"
  "get_device_zone (PStr ''plc2'') demo_devices demo_zones = Inr (PStr ''c2'')"
  "get_device_zone (PStr ''scada'') demo_devices demo_zones = Inr (PStr ''cc'')"
  by (simp_all add: get_device_zone_def demo_devices_def demo_device_def)

lemma strict_drop:
  assumes "is_cell_to_cell f ds zs [0, 1, 2] = Inr True"
  shows "\<exists>why. should_drop_flow f ds zs cs \<lparr>iso_mode = MODE_STRICT_NORTHBOUND, iso_levels = [0, 1, 2]\<rparr> = Inr (True, why)"
  using cell_to_cell_imp_strict_drop [OF _ assms] by blast

lemma demo_classified: "classify_cell_zones demo_zones [0, 1, 2] = Inr [PStr ''c1'', PStr ''c2'']"
  by (simp add: classify_cell_zones_def demo_zones_def oitems_def demo_cells del: cell_ids.simps)

lemma demo_checked:
  "check_flow MODE_STRICT_NORTHBOUND [PStr ''c1'', PStr ''c2''] demo_devices demo_zones demo_conduits ''east_west'' (demo_flow ''plc1'' ''plc2'')
     = Inr (Some \<lparr>fnd_flow = ''east_west'', fnd_name = DefaultName (PStr ''plc1'') (PStr ''plc2''), fnd_source = ''c1'', fnd_target = ''c2'',
         fnd_protocol = ''modbus'', fnd_severity = BLOCKING, fnd_reason = NO_CONDUIT, fnd_conduit = None\<rparr>)"
  "check_flow MODE_STRICT_NORTHBOUND [PStr ''c1'', PStr ''c2''] demo_devices demo_zones demo_conduits ''north'' (demo_flow ''plc1'' ''scada'')
     = Inr None"
  by (simp_all add: check_flow_def demo_flow_def get_either_def demo_zone_of Let_def name_field_def demo_conduits_def find_matching_conduit_def
      conduit_verdict_def both_in_def severity_for_def compliance_finding_def PROTOCOL_ALIASES_def)

theorem blocking_matches_gate_witness:
  "\<exists>rep. validate_conduit_compliance (PDict (isolated MODE_STRICT_NORTHBOUND demo_plant)) = Inr rep
     \<and> blocked rep ''east_west'' \<and> total_flows rep = 2 \<and> compliant_flows rep = 1"
proof -
  let ?cfg = "\<lparr>iso_mode = MODE_STRICT_NORTHBOUND, iso_levels = [0, 1, 2]\<rparr>"
  obtain D Z C where d: "demo_devices = PDict D" "demo_zones = PDict Z" "demo_conduits = PDict C"
    by (simp add: demo_defs)
  let ?F = "[(''east_west'', demo_flow ''plc1'' ''plc2''), (''north'', demo_flow ''plc1'' ''scada'')]"
  have cfg: "parse_config (PDict (isolated MODE_STRICT_NORTHBOUND demo_plant)) = Inr ?cfg"
    by (rule parse_isolated) (simp add: VALID_MODES_def)
  obtain rep where rep: "validate_conduit_compliance (PDict (isolated MODE_STRICT_NORTHBOUND demo_plant)) = Inr rep"
      "total_flows rep = 2" "compliant_flows rep = 1"
    using cfg by (simp add: validate_conduit_compliance_def demo_classified demo_checked)
      (simp add: isolated_def demo_plant_def demo_classified demo_checked)
  obtain fd where fd: "demo_flow ''plc1'' ''plc2'' = PDict fd" "plain_flow fd ''plc1'' ''plc2''"
    by (simp add: demo_flow_def plain_flow_def)
  obtain why where gate: "should_drop_flow (PDict fd) (PDict D) (PDict Z) (PDict C) ?cfg = Inr (True, why)"
    using strict_drop [OF demo_east_west] fd(1) d by auto
  have maps: "map_of (isolated MODE_STRICT_NORTHBOUND demo_plant) ''devices'' = Some (PDict D)"
      "map_of (isolated MODE_STRICT_NORTHBOUND demo_plant) ''flows'' = Some (PDict ?F)"
      "map_of (isolated MODE_STRICT_NORTHBOUND demo_plant) ''zones'' = Some (PDict Z)"
      "map_of (isolated MODE_STRICT_NORTHBOUND demo_plant) ''conduits'' = Some (PDict C)"
    by (simp_all add: isolated_def demo_plant_def flip: d)
  have "\<forall>z \<in> snd ` set Z. plain_zone z" "\<forall>c \<in> snd ` set C. plain_conduit c"
    using d by (auto simp: demo_zones_def demo_conduits_def plain_zone_def plain_conduit_def)
  then have "blocked rep ''east_west''"
    using blocking_matches_gate [OF rep(1) cfg maps(1,2,3,4) _ _ fd(2) _ _ gate, of "''east_west''"] fd(1) by simp
  with rep show ?thesis by blast
qed

text \<open>
  The two sides read a flow by different names: the gate takes \<open>destination_device_id\<close>, the report
  only \<open>targetDeviceId\<close> and \<open>target_device_id\<close>.  A flow by the first name is dropped and not
  reported as blocking.
\<close>

definition demo_snake_flow :: pyval where
  "demo_snake_flow = PDict [(''source_device_id'', PStr ''plc1''), (''destination_device_id'', PStr ''plc2''), (''protocol'', PStr ''modbus'')]"

definition demo_snake_plant :: pydict where
  "demo_snake_plant = isolated MODE_STRICT_NORTHBOUND
     [(''devices'', demo_devices), (''zones'', demo_zones), (''flows'', PDict [(''east_west'', demo_snake_flow)]),
      (''conduits'', demo_conduits)]"

theorem snake_case_flow_missed:
  "\<exists>rep why. validate_conduit_compliance (PDict demo_snake_plant) = Inr rep \<and> \<not> blocked rep ''east_west''
     \<and> should_drop_flow demo_snake_flow demo_devices demo_zones demo_conduits
          \<lparr>iso_mode = MODE_STRICT_NORTHBOUND, iso_levels = [0, 1, 2]\<rparr> = Inr (True, why)"
proof -
  have cfg: "parse_config (PDict demo_snake_plant) = Inr \<lparr>iso_mode = MODE_STRICT_NORTHBOUND, iso_levels = [0, 1, 2]\<rparr>"
    unfolding demo_snake_plant_def by (rule parse_isolated) (simp add: VALID_MODES_def)
  have nowhere: "get_device_zone (PStr []) demo_devices demo_zones = Inr PNone"
    by (simp add: get_device_zone_def demo_devices_def demo_device_def demo_zones_def get_either_def)
  have "check_flow MODE_STRICT_NORTHBOUND [PStr ''c1'', PStr ''c2''] demo_devices demo_zones demo_conduits ''east_west''
      demo_snake_flow = Inr (Some \<lparr>fnd_flow = ''east_west'', fnd_name = DefaultName (PStr ''plc1'') (PStr []),
         fnd_source = ''c1'', fnd_target = ''(none)'', fnd_protocol = ''modbus'', fnd_severity = WARNING, fnd_reason = NO_CONDUIT,
         fnd_conduit = None\<rparr>)"
    by (simp add: check_flow_def demo_snake_flow_def get_either_def demo_zone_of nowhere Let_def name_field_def py_or_def
        severity_for_def compliance_finding_def)
  then have "\<exists>rep. validate_conduit_compliance (PDict demo_snake_plant) = Inr rep \<and> \<not> blocked rep ''east_west''"
    using cfg by (simp add: validate_conduit_compliance_def demo_classified)
      (simp add: demo_snake_plant_def isolated_def demo_classified blocked_def map_filter_def)
  moreover have "is_cell_to_cell demo_snake_flow demo_devices demo_zones [0, 1, 2] = Inr True"
    by (simp add: is_cell_to_cell_def place_defs demo_defs demo_snake_flow_def demo_cells del: cell_ids.simps cong: bnd_weak_cong)
  ultimately show ?thesis using strict_drop by blast
qed

text \<open>
  In the gated mode the first conduit between two zones decides the report, but any conduit opens
  the gate: with an old conduit in the wrong direction before one that permits the flow, the
  report calls a flow blocking that the gate lets through.
\<close>

definition demo_twin_conduits :: pyval where
  "demo_twin_conduits = PDict
     [(''old'', PDict [(''sourceZoneId'', PStr ''c2''), (''targetZoneId'', PStr ''c1''), (''direction'', PStr ''a_to_b''),
                       (''allowedProtocols'', PList [PStr ''modbus_tcp''])]),
      (''new'', PDict [(''sourceZoneId'', PStr ''c1''), (''targetZoneId'', PStr ''c2''),
                       (''allowedProtocols'', PList [PStr ''modbus_tcp''])])]"

definition demo_twin_plant :: pydict where
  "demo_twin_plant = isolated MODE_CONDUIT_GATED
     [(''devices'', demo_devices), (''zones'', demo_zones), (''flows'', PDict [(''east_west'', demo_flow ''plc1'' ''plc2'')]),
      (''conduits'', demo_twin_conduits)]"

theorem gated_report_overcautious:
  "\<exists>rep. validate_conduit_compliance (PDict demo_twin_plant) = Inr rep \<and> blocked rep ''east_west''
     \<and> should_drop_flow (demo_flow ''plc1'' ''plc2'') demo_devices demo_zones demo_twin_conduits
          \<lparr>iso_mode = MODE_CONDUIT_GATED, iso_levels = [0, 1, 2]\<rparr> = Inr (False, None)"
proof -
  have cfg: "parse_config (PDict demo_twin_plant) = Inr \<lparr>iso_mode = MODE_CONDUIT_GATED, iso_levels = [0, 1, 2]\<rparr>"
    unfolding demo_twin_plant_def by (rule parse_isolated) (simp add: VALID_MODES_def)
  have "check_flow MODE_CONDUIT_GATED [PStr ''c1'', PStr ''c2''] demo_devices demo_zones demo_twin_conduits ''east_west''
      (demo_flow ''plc1'' ''plc2'') = Inr (Some \<lparr>fnd_flow = ''east_west'', fnd_name = DefaultName (PStr ''plc1'') (PStr ''plc2''),
         fnd_source = ''c1'', fnd_target = ''c2'', fnd_protocol = ''modbus'', fnd_severity = BLOCKING, fnd_reason = WRONG_DIRECTION,
         fnd_conduit = Some ''old''\<rparr>)"
    by (simp add: check_flow_def demo_flow_def get_either_def demo_zone_of Let_def name_field_def demo_twin_conduits_def
        find_matching_conduit_def conduit_verdict_def both_in_def severity_for_def compliance_finding_def PROTOCOL_ALIASES_def)
  then have "\<exists>rep. validate_conduit_compliance (PDict demo_twin_plant) = Inr rep \<and> blocked rep ''east_west''"
    using cfg by (simp add: validate_conduit_compliance_def demo_classified)
      (simp add: demo_twin_plant_def isolated_def demo_classified blocked_def map_filter_def)
  moreover have "should_drop_flow (demo_flow ''plc1'' ''plc2'') demo_devices demo_zones demo_twin_conduits
          \<lparr>iso_mode = MODE_CONDUIT_GATED, iso_levels = [0, 1, 2]\<rparr> = Inr (False, None)"
    by (simp add: should_drop_flow_def place_defs demo_defs demo_cells demo_twin_conduits_def conduit_permits_def protocol_aliases_def
        del: cell_ids.simps cong: bnd_weak_cong)
  ultimately show ?thesis by blast
qed

end
